(* ===== verification/Prelude.thy ===== *)
theory Prelude
  imports Main "HOL-Library.Word"
begin

text \<open>
  Shared vocabulary of the development: the machine integers of the Rust code, the result
  type of fallible operations, the list functions of Rust's iterator library that several
  components use, and the two locales on which the invariant proofs rest:
  \<^item> \<open>transaction\<close>: an operation over a state that either fails and leaves the state alone or
    succeeds and keeps an invariant;
  \<^item> \<open>inductive_invariant\<close> and its extension \<open>safety\<close>: an invariant of a step relation and
    what it rules out in every reachable state.
\<close>

section \<open>Machine integers\<close>

type_synonym u8 = "8 word"
type_synonym u16 = "16 word"
type_synonym u32 = "32 word"
type_synonym i32 = "32 word"
type_synonym u64 = "64 word"

text \<open>Rust's \<open>saturating_add(1)\<close> on an unsigned integer of any width.\<close>

definition sat_succ :: "'a::len word \<Rightarrow> 'a word" where
  "sat_succ w = (if w = - 1 then w else w + 1)"

lemma sat_succ_unat: "unat (sat_succ w) = min (Suc (unat w)) (2 ^ LENGTH('a) - 1)"
  for w :: "'a::len word"
proof (cases "w = - 1")
  case True
  then show ?thesis by (simp add: sat_succ_def unsigned_minus_1_eq_mask mask_eq_exp_minus_1)
next
  case False
  have lt: "unat w < 2 ^ LENGTH('a)" by (rule unsigned_less)
  have "unat w \<noteq> unat (- 1 :: 'a word)" using False by (simp add: word_unat_eq_iff)
  then have "unat w \<noteq> 2 ^ LENGTH('a) - 1" by (simp add: unsigned_minus_1_eq_mask mask_eq_exp_minus_1)
  with lt have "Suc (unat w) < 2 ^ LENGTH('a)" by linarith
  then show ?thesis
    using False by (simp add: sat_succ_def unat_word_ariths)
qed

lemma sat_succ_le: "w \<le> sat_succ w"
  for w :: "'a::len word"
proof -
  have "unat w < 2 ^ LENGTH('a)" by (rule unsigned_less)
  then have "unat w \<le> 2 ^ LENGTH('a) - 1" by linarith
  then have "unat w \<le> unat (sat_succ w)" by (simp add: sat_succ_unat)
  then show ?thesis by (simp add: word_le_nat_alt)
qed

section \<open>Results\<close>

text \<open>Rust's \<open>Result<T, E>\<close>: \<open>Inl\<close> is \<open>Err\<close>, \<open>Inr\<close> is \<open>Ok\<close>.\<close>

type_synonym ('e, 'a) result = "'e + 'a"

text \<open>The operator \<open>?\<close> over a value: run the rest on success, pass the error on otherwise.\<close>

definition rbind :: "('e, 'a) result \<Rightarrow> ('a \<Rightarrow> ('e, 'b) result) \<Rightarrow> ('e, 'b) result" where
  "rbind r f = (case r of Inl e \<Rightarrow> Inl e | Inr a \<Rightarrow> f a)"

lemma rbind_simps [simp]:
  "rbind (Inl e) f = Inl e"
  "rbind (Inr a) f = f a"
  by (simp_all add: rbind_def)

lemma rbind_Inr_iff: "rbind r f = Inr b \<longleftrightarrow> (\<exists>a. r = Inr a \<and> f a = Inr b)"
  by (cases r) auto

text \<open>\<open>Option::ok_or\<close> and \<open>Result::map\<close>.\<close>

definition ok_or :: "'e \<Rightarrow> 'a option \<Rightarrow> ('e, 'a) result" where
  "ok_or e x = (case x of None \<Rightarrow> Inl e | Some a \<Rightarrow> Inr a)"

lemma ok_or_simps [simp]: "ok_or e None = Inl e" "ok_or e (Some a) = Inr a"
  by (simp_all add: ok_or_def)

section \<open>Lists: Rust's iterator and vector functions\<close>

text \<open>\<open>Iterator::position\<close>: the index of the first element that satisfies \<open>p\<close>.\<close>

fun position :: "('a \<Rightarrow> bool) \<Rightarrow> 'a list \<Rightarrow> nat option" where
  "position p [] = None"
| "position p (x # xs) = (if p x then Some 0 else map_option Suc (position p xs))"

text \<open>\<open>Vec::remove\<close> at an index in range (the callers only pass one \<open>position\<close> found).\<close>

definition remove_at :: "nat \<Rightarrow> 'a list \<Rightarrow> 'a list" where
  "remove_at i xs = take i xs @ drop (Suc i) xs"

text \<open>
  \<open>iter_mut().find(p)\<close> followed by a mutation of the element found: the first element that
  satisfies \<open>p\<close> is replaced by its image.
\<close>

fun update_first :: "('a \<Rightarrow> bool) \<Rightarrow> ('a \<Rightarrow> 'a) \<Rightarrow> 'a list \<Rightarrow> 'a list" where
  "update_first p f [] = []"
| "update_first p f (x # xs) = (if p x then f x # xs else x # update_first p f xs)"

lemma position_None [simp]: "position p xs = None \<longleftrightarrow> (\<forall>x \<in> set xs. \<not> p x)"
  by (induction xs) auto

lemma position_SomeD:
  "position p xs = Some i \<Longrightarrow> i < length xs \<and> p (xs ! i) \<and> (\<forall>j < i. \<not> p (xs ! j))"
proof (induction xs arbitrary: i)
  case Nil
  then show ?case by simp
next
  case (Cons x xs)
  then show ?case
    by (cases i) (auto split: if_splits simp: less_Suc_eq_0_disj nth_Cons')
qed

lemma position_split:
  assumes "position p xs = Some i"
  shows "xs = take i xs @ xs ! i # drop (Suc i) xs \<and> p (xs ! i) \<and> (\<forall>x \<in> set (take i xs). \<not> p x)"
proof -
  have "i < length xs" "p (xs ! i)" "\<forall>j < i. \<not> p (xs ! j)"
    using position_SomeD [OF assms] by auto
  then show ?thesis
    by (auto simp: id_take_nth_drop [symmetric] in_set_conv_nth)
qed

lemma length_remove_at [simp]: "i < length xs \<Longrightarrow> length (remove_at i xs) = length xs - 1"
  by (simp add: remove_at_def)

lemma set_remove_at: "set (remove_at i xs) \<subseteq> set xs"
  by (auto simp: remove_at_def dest: in_set_takeD in_set_dropD)

lemma map_remove_at: "map f (remove_at i xs) = remove_at i (map f xs)"
  by (simp add: remove_at_def take_map drop_map)

lemma distinct_remove_at: "distinct xs \<Longrightarrow> distinct (remove_at i xs)"
  by (simp add: remove_at_def set_take_disj_set_drop_if_distinct)

lemma remove_at_position_filter:
  assumes "position p xs = Some i" and "distinct (map f xs)"
  shows "remove_at i xs = filter (\<lambda>x. f x \<noteq> f (xs ! i)) xs"
proof -
  let ?a = "take i xs" and ?x = "xs ! i" and ?b = "drop (Suc i) xs"
  have eq: "xs = ?a @ ?x # ?b" using position_split [OF assms(1)] by simp
  have "distinct (map f (?a @ ?x # ?b))" using assms(2) eq by simp
  then have "f ?x \<notin> f ` set ?a" "f ?x \<notin> f ` set ?b" by auto
  then have "filter (\<lambda>x. f x \<noteq> f ?x) ?a = ?a" "filter (\<lambda>x. f x \<noteq> f ?x) ?b = ?b"
    by (simp_all add: filter_id_conv) (metis imageI)+
  then have "filter (\<lambda>x. f x \<noteq> f ?x) (?a @ ?x # ?b) = ?a @ ?b" by simp
  then show ?thesis using eq by (simp add: remove_at_def)
qed

lemma length_update_first [simp]: "length (update_first p f xs) = length xs"
  by (induction xs) auto

lemma map_update_first:
  "(\<And>x. p x \<Longrightarrow> g (f x) = g x) \<Longrightarrow> map g (update_first p f xs) = map g xs"
  by (induction xs) auto

lemma set_update_first:
  "y \<in> set (update_first p f xs) \<Longrightarrow> y \<in> set xs \<or> (\<exists>x \<in> set xs. p x \<and> y = f x)"
  by (induction xs) (auto split: if_splits)

lemma update_first_split:
  "List.find p xs = Some x \<Longrightarrow>
     \<exists>as bs. xs = as @ x # bs \<and> update_first p f xs = as @ f x # bs \<and> (\<forall>a \<in> set as. \<not> p a)"
proof (induction xs)
  case Nil
  then show ?case by simp
next
  case (Cons y ys)
  show ?case
  proof (cases "p y")
    case True
    with Cons.prems show ?thesis by (intro exI [of _ "[]"] exI [of _ ys]) auto
  next
    case False
    with Cons.prems have "List.find p ys = Some x" by simp
    then obtain as bs where "ys = as @ x # bs" "update_first p f ys = as @ f x # bs"
        "\<forall>a \<in> set as. \<not> p a"
      using Cons.IH by blast
    with False show ?thesis by (intro exI [of _ "y # as"] exI [of _ bs]) auto
  qed
qed

lemma find_SomeD: "List.find p xs = Some x \<Longrightarrow> x \<in> set xs \<and> p x"
  by (induction xs) (auto split: if_splits)

lemma find_distinct:
  assumes key: "\<And>y. p y \<Longrightarrow> f y = f x" and "p x"
  shows "distinct (map f xs) \<Longrightarrow> x \<in> set xs \<Longrightarrow> List.find p xs = Some x"
proof (induction xs)
  case Nil
  then show ?case by simp
next
  case (Cons y ys)
  show ?case
  proof (cases "p y")
    case True
    then have "f y = f x" by (rule key)
    with Cons.prems have "y = x" by (auto simp: image_iff)
    with \<open>p x\<close> show ?thesis by simp
  next
    case False
    with Cons \<open>p x\<close> show ?thesis by auto
  qed
qed

section \<open>Transactions\<close>

text \<open>
  The contract between the state holder and the operations it runs under its lock: a failed
  operation has not touched the state, a successful one keeps the invariant. The persistence
  layer relies on the first law (it writes only after success), every caller on the second.
\<close>

locale transaction =
  fixes op :: "'s \<Rightarrow> ('e, 'r) result \<times> 's"
    and inv :: "'s \<Rightarrow> bool"
  assumes err_unchanged: "op s = (Inl e, s') \<Longrightarrow> s' = s"
    and ok_keeps: "inv s \<Longrightarrow> op s = (Inr r, s') \<Longrightarrow> inv s'"
begin

lemma keeps: "inv s \<Longrightarrow> inv (snd (op s))"
proof (cases "op s")
  case (Pair r s')
  then show "inv s \<Longrightarrow> inv (snd (op s))"
    using err_unchanged [of s _ s'] ok_keeps [of s _ s'] by (cases r) auto
qed

lemma changed_ok: "snd (op s) \<noteq> s \<Longrightarrow> \<exists>r. fst (op s) = Inr r"
proof (cases "op s")
  case (Pair r s')
  then show "snd (op s) \<noteq> s \<Longrightarrow> \<exists>r. fst (op s) = Inr r"
    using err_unchanged [of s _ s'] by (cases r) auto
qed

end

section \<open>Step relations\<close>

text \<open>The reachable states of a step relation, and the invariant rule.\<close>

inductive reach :: "('s \<Rightarrow> bool) \<Rightarrow> ('s \<Rightarrow> 's \<Rightarrow> bool) \<Rightarrow> 's \<Rightarrow> bool"
  for init :: "'s \<Rightarrow> bool" and step :: "'s \<Rightarrow> 's \<Rightarrow> bool" where
  reach_init: "init s \<Longrightarrow> reach init step s"
| reach_step: "reach init step s \<Longrightarrow> step s t \<Longrightarrow> reach init step t"

locale inductive_invariant =
  fixes init :: "'s \<Rightarrow> bool"
    and step :: "'s \<Rightarrow> 's \<Rightarrow> bool"
    and inv :: "'s \<Rightarrow> bool"
  assumes inv_init: "init s \<Longrightarrow> inv s"
    and inv_step: "inv s \<Longrightarrow> step s t \<Longrightarrow> inv t"
begin

lemma reach_inv: "reach init step s \<Longrightarrow> inv s"
  by (induction rule: reach.induct) (auto intro: inv_init inv_step)

end

locale safety = inductive_invariant +
  fixes bad :: "'a \<Rightarrow> bool"
  assumes inv_safe: "inv s \<Longrightarrow> \<not> bad s"
begin

lemma never_bad: "reach init step s \<Longrightarrow> \<not> bad s"
  by (auto dest: reach_inv inv_safe)

end

end
