(* ===== verification/Text.thy ===== *)
theory Text
  imports Prelude "HOL-Library.Char_ord" "HOL-Library.List_Lexorder"
begin

text \<open>
  Rust's \<open>String\<close> and \<open>&str\<close>: a \<^typ>\<open>string\<close> is the list of UTF-8 bytes, so \<open>length\<close> is
  \<open>str::len\<close> and the order of \<open>List_Lexorder\<close> over \<open>Char_ord\<close> is \<open>Ord for str\<close>. The theory
  holds the functions of the standard library the code uses on strings (characters and their
  boundaries, trimming, lines, splitting, decimal and hexadecimal digits) and their laws.
\<close>

section \<open>Characters of a UTF-8 string\<close>

text \<open>A continuation byte has the top bits 10; any other byte starts a character.\<close>

definition is_cont :: "char \<Rightarrow> bool" where
  "is_cont c \<longleftrightarrow> digit7 c \<and> \<not> digit6 c"

text \<open>\<open>str::is_char_boundary\<close>.\<close>

definition is_char_boundary :: "string \<Rightarrow> nat \<Rightarrow> bool" where
  "is_char_boundary s i \<longleftrightarrow>
     i = 0 \<or> (if i < length s then \<not> is_cont (s ! i) else i = length s)"

text \<open>\<open>str::chars\<close>: each character as the bytes that encode it.\<close>

function chars :: "string \<Rightarrow> string list" where
  "chars [] = []"
| "chars (c # cs) = (c # takeWhile is_cont cs) # chars (dropWhile is_cont cs)"
  by pat_completeness auto
termination
  by (relation "measure length") (auto simp: less_Suc_eq_le length_dropWhile_le)

definition char_count :: "string \<Rightarrow> nat" where
  "char_count s = length (chars s)"

text \<open>The byte sequences that encode one Unicode scalar value.\<close>

fun wf_char :: "string \<Rightarrow> bool" where
  "wf_char [a] = (of_char a < (128::nat))"
| "wf_char [a, b] = ((194::nat) \<le> of_char a \<and> of_char a \<le> (223::nat) \<and> is_cont b)"
| "wf_char [a, b, c] =
     ((224::nat) \<le> of_char a \<and> of_char a \<le> (239::nat) \<and> is_cont b \<and> is_cont c \<and>
      (of_char a = (224::nat) \<longrightarrow> (160::nat) \<le> of_char b) \<and>
      (of_char a = (237::nat) \<longrightarrow> of_char b < (160::nat)))"
| "wf_char [a, b, c, d] =
     ((240::nat) \<le> of_char a \<and> of_char a \<le> (244::nat) \<and> is_cont b \<and> is_cont c \<and> is_cont d \<and>
      (of_char a = (240::nat) \<longrightarrow> (144::nat) \<le> of_char b) \<and>
      (of_char a = (244::nat) \<longrightarrow> of_char b < (144::nat)))"
| "wf_char _ = False"

definition valid_utf8 :: "string \<Rightarrow> bool" where
  "valid_utf8 s \<longleftrightarrow> list_all wf_char (chars s)"

lemma concat_chars [simp]: "concat (chars s) = s"
  by (induction s rule: chars.induct) auto

lemma chars_eq_Nil [simp]: "chars s = [] \<longleftrightarrow> s = []"
  by (cases s) auto

lemma takeWhile_append_stop:
  "ys = [] \<or> \<not> p (hd ys) \<Longrightarrow> takeWhile p (xs @ ys) = takeWhile p xs"
  by (induction xs) (auto simp: takeWhile_eq_Nil_iff)

lemma dropWhile_append_stop:
  "ys = [] \<or> \<not> p (hd ys) \<Longrightarrow> dropWhile p (xs @ ys) = dropWhile p xs @ ys"
  by (induction xs) (auto simp: dropWhile_eq_self_iff)

lemma chars_append:
  "b = [] \<or> \<not> is_cont (hd b) \<Longrightarrow> chars (a @ b) = chars a @ chars b"
proof (induction a rule: chars.induct)
  case 1
  then show ?case by simp
next
  case (2 c cs)
  then show ?case by (simp add: takeWhile_append_stop dropWhile_append_stop)
qed

text \<open>Cutting a string at a character boundary splits its characters.\<close>

lemma chars_split:
  assumes "is_char_boundary s i"
  shows "chars s = chars (take i s) @ chars (drop i s)"
proof (cases "i = 0")
  case True
  then show ?thesis by simp
next
  case False
  have "drop i s = [] \<or> \<not> is_cont (hd (drop i s))"
    using assms False by (auto simp: is_char_boundary_def hd_drop_conv_nth split: if_splits)
  then have "chars (take i s @ drop i s) = chars (take i s) @ chars (drop i s)"
    by (rule chars_append)
  then show ?thesis by simp
qed

lemma valid_utf8_append [simp]:
  "b = [] \<or> \<not> is_cont (hd b) \<Longrightarrow> valid_utf8 (a @ b) \<longleftrightarrow> valid_utf8 a \<and> valid_utf8 b"
  by (simp add: valid_utf8_def chars_append)

lemma valid_utf8_split:
  "valid_utf8 s \<Longrightarrow> is_char_boundary s i \<Longrightarrow> valid_utf8 (take i s) \<and> valid_utf8 (drop i s)"
  by (simp add: valid_utf8_def chars_split [of s i])

lemma is_cont_range: "is_cont c \<Longrightarrow> (128::nat) \<le> of_char c \<and> of_char c < (192::nat)"
proof (cases c)
  case (Char b0 b1 b2 b3 b4 b5 b6 b7)
  have bounds: "of_bool b0 \<le> (1::nat)" "of_bool b1 \<le> (1::nat)" "of_bool b2 \<le> (1::nat)"
    "of_bool b3 \<le> (1::nat)" "of_bool b4 \<le> (1::nat)" "of_bool b5 \<le> (1::nat)"
    by simp_all
  assume "is_cont c"
  then show ?thesis using bounds Char by (simp add: is_cont_def of_char_def)
qed

lemma wf_char_not_cont: "wf_char (a # bs) \<Longrightarrow> \<not> is_cont a"
  by (cases "a # bs" rule: wf_char.cases) (auto dest!: is_cont_range)

lemma valid_utf8_hd: "valid_utf8 s \<Longrightarrow> s = [] \<or> \<not> is_cont (hd s)"
  by (cases s) (auto simp: valid_utf8_def dest: wf_char_not_cont)

lemma wf_char_length: "wf_char bs \<Longrightarrow> 1 \<le> length bs \<and> length bs \<le> 4"
  by (cases bs rule: wf_char.cases) auto

lemma boundary_0 [simp]: "is_char_boundary s 0"
  by (simp add: is_char_boundary_def)

lemma boundary_length [simp]: "is_char_boundary s (length s)"
  by (simp add: is_char_boundary_def)

section \<open>Trimming\<close>

text \<open>The encodings of the characters with the Unicode property \<open>White_Space\<close>.\<close>

definition white_space :: "string list" where
  "white_space =
     [[CHR 0x09], [CHR 0x0A], [CHR 0x0B], [CHR 0x0C], [CHR 0x0D], [CHR 0x20],
      [CHR 0xC2, CHR 0x85], [CHR 0xC2, CHR 0xA0], [CHR 0xE1, CHR 0x9A, CHR 0x80],
      [CHR 0xE2, CHR 0x80, CHR 0x80], [CHR 0xE2, CHR 0x80, CHR 0x81],
      [CHR 0xE2, CHR 0x80, CHR 0x82], [CHR 0xE2, CHR 0x80, CHR 0x83],
      [CHR 0xE2, CHR 0x80, CHR 0x84], [CHR 0xE2, CHR 0x80, CHR 0x85],
      [CHR 0xE2, CHR 0x80, CHR 0x86], [CHR 0xE2, CHR 0x80, CHR 0x87],
      [CHR 0xE2, CHR 0x80, CHR 0x88], [CHR 0xE2, CHR 0x80, CHR 0x89],
      [CHR 0xE2, CHR 0x80, CHR 0x8A], [CHR 0xE2, CHR 0x80, CHR 0xA8],
      [CHR 0xE2, CHR 0x80, CHR 0xA9], [CHR 0xE2, CHR 0x80, CHR 0xAF],
      [CHR 0xE2, CHR 0x81, CHR 0x9F], [CHR 0xE3, CHR 0x80, CHR 0x80]]"

definition is_ws :: "string \<Rightarrow> bool" where
  "is_ws c \<longleftrightarrow> c \<in> set white_space"

definition trim_start :: "string \<Rightarrow> string" where
  "trim_start s = concat (dropWhile is_ws (chars s))"

definition trim_end :: "string \<Rightarrow> string" where
  "trim_end s = concat (rev (dropWhile is_ws (rev (chars s))))"

definition trim :: "string \<Rightarrow> string" where
  "trim s = trim_end (trim_start s)"

text \<open>\<open>trim_end_matches(c)\<close> for an ASCII character.\<close>

definition trim_end_matches :: "char \<Rightarrow> string \<Rightarrow> string" where
  "trim_end_matches c s = rev (dropWhile (\<lambda>x. x = c) (rev s))"

section \<open>Prefixes, suffixes, splitting, lines\<close>

fun strip_prefix :: "string \<Rightarrow> string \<Rightarrow> string option" where
  "strip_prefix [] s = Some s"
| "strip_prefix (p # ps) [] = None"
| "strip_prefix (p # ps) (c # cs) = (if p = c then strip_prefix ps cs else None)"

definition starts_with :: "string \<Rightarrow> string \<Rightarrow> bool" where
  "starts_with p s \<longleftrightarrow> strip_prefix p s \<noteq> None"

definition strip_suffix :: "string \<Rightarrow> string \<Rightarrow> string option" where
  "strip_suffix p s = map_option rev (strip_prefix (rev p) (rev s))"

lemma strip_prefix_Some: "strip_prefix p s = Some r \<longleftrightarrow> s = p @ r"
  by (induction p s rule: strip_prefix.induct) auto

lemma starts_with_iff: "starts_with p s \<longleftrightarrow> (\<exists>r. s = p @ r)"
  by (simp add: starts_with_def strip_prefix_Some)

text \<open>\<open>str::split_once\<close> with an ASCII character.\<close>

fun split_once :: "char \<Rightarrow> string \<Rightarrow> (string \<times> string) option" where
  "split_once c [] = None"
| "split_once c (x # xs) =
     (if x = c then Some ([], xs)
      else map_option (\<lambda>(a, b). (x # a, b)) (split_once c xs))"

lemma split_once_None: "split_once c s = None \<longleftrightarrow> c \<notin> set s"
  by (induction s) auto

lemma split_once_Some: "split_once c s = Some (a, b) \<longleftrightarrow> s = a @ c # b \<and> c \<notin> set a"
proof (induction s arbitrary: a)
  case Nil
  then show ?case by simp
next
  case (Cons x xs)
  show ?case
  proof (cases "x = c")
    case True
    then show ?thesis by (cases a) auto
  next
    case False
    then show ?thesis by (cases a) (auto simp: Cons.IH)
  qed
qed

text \<open>\<open>str::split_inclusive\<close> and \<open>str::lines\<close>.\<close>

fun split_inclusive :: "char \<Rightarrow> string \<Rightarrow> string list" where
  "split_inclusive c [] = []"
| "split_inclusive c (x # xs) =
     (if x = c then [x] # split_inclusive c xs
      else (case split_inclusive c xs of [] \<Rightarrow> [[x]] | l # ls \<Rightarrow> (x # l) # ls))"

abbreviation newline :: char where "newline \<equiv> CHR 0x0A"
abbreviation carriage_return :: char where "carriage_return \<equiv> CHR 0x0D"

definition strip_eol :: "string \<Rightarrow> string" where
  "strip_eol l =
     (case strip_suffix [newline] l of None \<Rightarrow> l
      | Some l' \<Rightarrow> (case strip_suffix [carriage_return] l' of None \<Rightarrow> l' | Some l'' \<Rightarrow> l''))"

definition lines :: "string \<Rightarrow> string list" where
  "lines s = map strip_eol (split_inclusive newline s)"

lemma concat_split_inclusive [simp]: "concat (split_inclusive c s) = s"
  by (induction c s rule: split_inclusive.induct) (auto split: list.splits)

text \<open>\<open>[T]::join\<close>.\<close>

fun join :: "string \<Rightarrow> string list \<Rightarrow> string" where
  "join sep [] = []"
| "join sep [x] = x"
| "join sep (x # y # xs) = x @ sep @ join sep (y # xs)"

section \<open>Numbers\<close>

definition digits10 :: string where "digits10 = ''0123456789''"

text \<open>\<open>Display\<close> for unsigned integers.\<close>

fun dec :: "nat \<Rightarrow> string" where
  "dec n = (if n < 10 then [digits10 ! n] else dec (n div 10) @ [digits10 ! (n mod 10)])"

declare dec.simps [simp del]

text \<open>\<open>Display\<close> for signed integers.\<close>

definition dec_int :: "int \<Rightarrow> string" where
  "dec_int i = (if i < 0 then CHR ''-'' # dec (nat (- i)) else dec (nat i))"

definition digit_value :: "char \<Rightarrow> nat option" where
  "digit_value c = position (\<lambda>d. d = c) digits10"

fun digits_value :: "nat \<Rightarrow> string \<Rightarrow> nat option" where
  "digits_value acc [] = Some acc"
| "digits_value acc (c # cs) =
     (case digit_value c of None \<Rightarrow> None | Some d \<Rightarrow> digits_value (10 * acc + d) cs)"

text \<open>\<open>FromStr\<close> for an unsigned integer with the given largest value.\<close>

definition parse_uint :: "nat \<Rightarrow> string \<Rightarrow> nat option" where
  "parse_uint limit s =
     (let ds = (case s of [] \<Rightarrow> [] | c # cs \<Rightarrow> if c = CHR ''+'' then cs else s)
      in if ds = [] then None
         else case digits_value 0 ds of None \<Rightarrow> None
              | Some n \<Rightarrow> if n \<le> limit then Some n else None)"

abbreviation u64_max :: nat where "u64_max \<equiv> 2 ^ 64 - 1"
abbreviation u32_max :: nat where "u32_max \<equiv> 2 ^ 32 - 1"
abbreviation u16_max :: nat where "u16_max \<equiv> 2 ^ 16 - 1"

text \<open>The format \<open>{:08x}\<close> of a value below \<open>2 ^ 32\<close>.\<close>

fun hex_pad :: "nat \<Rightarrow> nat \<Rightarrow> string" where
  "hex_pad 0 n = []"
| "hex_pad (Suc k) n = hex_pad k (n div 16) @ [''0123456789abcdef'' ! (n mod 16)]"

lemma digits10_nth: "d < 10 \<Longrightarrow> digit_value (digits10 ! d) = Some d"
proof -
  assume "d < 10"
  then have "d \<in> {0, 1, 2, 3, 4, 5, 6, 7, 8, 9}" by auto
  then show ?thesis by (auto simp: digit_value_def digits10_def)
qed

lemma digits10_mem: "d < 10 \<Longrightarrow> digits10 ! d \<in> set digits10"
  by (rule nth_mem) (simp add: digits10_def)

lemma digits_value_append:
  "digits_value acc (xs @ ys) =
     (case digits_value acc xs of None \<Rightarrow> None | Some n \<Rightarrow> digits_value n ys)"
  by (induction acc xs rule: digits_value.induct) (auto split: option.splits)

lemma digits_value_dec: "digits_value 0 (dec n) = Some n"
proof (induction n rule: dec.induct)
  case (1 n)
  show ?case
  proof (cases "n < 10")
    case True
    then show ?thesis by (simp add: dec.simps [of n] digits10_nth)
  next
    case False
    with 1 have "digits_value 0 (dec (n div 10)) = Some (n div 10)" by simp
    with False show ?thesis
      by (simp add: dec.simps [of n] digits_value_append digits10_nth)
  qed
qed

lemma dec_inject [simp]: "dec m = dec n \<longleftrightarrow> m = n"
  by (metis digits_value_dec option.inject)

lemma dec_nonempty [simp]: "dec n \<noteq> []"
  by (subst dec.simps) simp

lemma dec_digits: "set (dec n) \<subseteq> set digits10"
proof (induction n rule: dec.induct)
  case (1 n)
  then show ?case
    by (cases "n < 10") (auto simp: dec.simps [of n] digits10_mem)
qed

lemma dec_no_colon: "CHR '':'' \<notin> set (dec n)"
  using dec_digits [of n] by (auto simp: digits10_def)

lemma dec_no_plus: "CHR ''+'' \<notin> set (dec n)"
  using dec_digits [of n] by (auto simp: digits10_def)

lemma parse_uint_dec: "parse_uint limit (dec n) = (if n \<le> limit then Some n else None)"
proof (cases "dec n")
  case Nil
  then show ?thesis by simp
next
  case (Cons c cs)
  then have "c \<noteq> CHR ''+''" using dec_no_plus [of n] by auto
  then show ?thesis
    using digits_value_dec [of n] Cons by (simp add: parse_uint_def)
qed

lemma parse_uint_bound: "parse_uint limit s = Some n \<Longrightarrow> n \<le> limit"
  by (auto simp: parse_uint_def Let_def split: option.splits if_splits list.splits)

lemma length_hex_pad [simp]: "length (hex_pad k n) = k"
  by (induction k arbitrary: n) auto

end
