(* ===== verification/Ordmap.thy ===== *)
theory Ordmap
  imports Text
begin

text \<open>
  Rust's \<open>BTreeMap<K, V>\<close> as an association list in strictly increasing key order, which is
  the order its iterators produce and in which the state is written to disk. The locale
  \<open>ordered_map\<close> is the contract the components rely on; it is interpreted on these functions.
\<close>

type_synonym ('k, 'v) btree = "('k \<times> 'v) list"

fun bm_get :: "('k, 'v) btree \<Rightarrow> 'k \<Rightarrow> 'v option" where
  "bm_get [] k = None"
| "bm_get ((k', v) # m) k = (if k = k' then Some v else bm_get m k)"

fun bm_insert :: "'k::linorder \<Rightarrow> 'v \<Rightarrow> ('k, 'v) btree \<Rightarrow> ('k, 'v) btree" where
  "bm_insert k v [] = [(k, v)]"
| "bm_insert k v ((k', v') # m) =
     (if k < k' then (k, v) # (k', v') # m
      else if k = k' then (k, v) # m
      else (k', v') # bm_insert k v m)"

fun bm_remove :: "'k \<Rightarrow> ('k, 'v) btree \<Rightarrow> ('k, 'v) btree" where
  "bm_remove k [] = []"
| "bm_remove k ((k', v) # m) = (if k = k' then m else (k', v) # bm_remove k m)"

definition bm_contains :: "('k, 'v) btree \<Rightarrow> 'k \<Rightarrow> bool" where
  "bm_contains m k \<longleftrightarrow> bm_get m k \<noteq> None"

abbreviation bm_keys :: "('k, 'v) btree \<Rightarrow> 'k list" where "bm_keys \<equiv> map fst"
abbreviation bm_values :: "('k, 'v) btree \<Rightarrow> 'v list" where "bm_values \<equiv> map snd"

definition bm_wf :: "('k::linorder, 'v) btree \<Rightarrow> bool" where
  "bm_wf m \<longleftrightarrow> sorted_wrt (<) (bm_keys m)"

section \<open>The contract\<close>

text \<open>
  A finite map with an iteration order: what a lookup returns after an insertion or a removal,
  that both keep the representation, and that the entries are exactly the lookups, in key
  order.
\<close>

locale ordered_map =
  fixes get :: "'m \<Rightarrow> 'k::linorder \<Rightarrow> 'v option"
    and ins :: "'k \<Rightarrow> 'v \<Rightarrow> 'm \<Rightarrow> 'm"
    and del :: "'k \<Rightarrow> 'm \<Rightarrow> 'm"
    and entries :: "'m \<Rightarrow> ('k \<times> 'v) list"
    and wf :: "'m \<Rightarrow> bool"
  assumes get_ins: "wf m \<Longrightarrow> get (ins k v m) k' = (if k' = k then Some v else get m k')"
    and get_del: "wf m \<Longrightarrow> get (del k m) k' = (if k' = k then None else get m k')"
    and wf_ins: "wf m \<Longrightarrow> wf (ins k v m)"
    and wf_del: "wf m \<Longrightarrow> wf (del k m)"
    and entries_sorted: "wf m \<Longrightarrow> sorted_wrt (<) (map fst (entries m))"
    and entries_get: "wf m \<Longrightarrow> (k, v) \<in> set (entries m) \<longleftrightarrow> get m k = Some v"
begin

lemma distinct_keys: "wf m \<Longrightarrow> distinct (map fst (entries m))"
  using entries_sorted by (simp add: strict_sorted_iff)

lemma keys_get: "wf m \<Longrightarrow> k \<in> fst ` set (entries m) \<longleftrightarrow> get m k \<noteq> None"
  using entries_get by (force simp: image_iff)

lemma entries_ins:
  "wf m \<Longrightarrow> set (entries (ins k v m)) = insert (k, v) {e \<in> set (entries m). fst e \<noteq> k}"
  by (auto simp: entries_get wf_ins get_ins split: if_splits)

lemma entries_del: "wf m \<Longrightarrow> set (entries (del k m)) = {e \<in> set (entries m). fst e \<noteq> k}"
  by (auto simp: entries_get wf_del get_del split: if_splits)

lemma size_entries: "wf m \<Longrightarrow> length (entries m) = card (fst ` set (entries m))"
  by (metis distinct_card distinct_keys length_map list.set_map)

lemma size_ins:
  assumes "wf m"
  shows "length (entries (ins k v m)) =
    (if get m k = None then Suc (length (entries m)) else length (entries m))"
proof -
  have "fst ` set (entries (ins k v m)) = insert k (fst ` set (entries m))"
    by (auto simp: entries_ins [OF assms] image_iff)
  then show ?thesis
    using assms keys_get [OF assms, of k]
    by (simp add: size_entries [OF assms] size_entries [OF wf_ins [OF assms]] card_insert_if)
qed

lemma ball_ins:
  "wf m \<Longrightarrow> (\<forall>e \<in> set (entries m). P e) \<Longrightarrow> P (k, v) \<Longrightarrow>
     \<forall>e \<in> set (entries (ins k v m)). P e"
  by (auto simp: entries_ins)

lemma ball_del:
  "wf m \<Longrightarrow> (\<forall>e \<in> set (entries m). P e) \<Longrightarrow> \<forall>e \<in> set (entries (del k m)). P e"
  by (auto simp: entries_del)

end

section \<open>The representation meets the contract\<close>

lemma bm_wf_simps [simp]:
  "bm_wf []"
  "bm_wf ((k, v) # m) \<longleftrightarrow> (\<forall>e \<in> set m. k < fst e) \<and> bm_wf m"
  by (auto simp: bm_wf_def)

lemma bm_get_None: "(\<forall>e \<in> set m. k \<noteq> fst e) \<longleftrightarrow> bm_get m k = None"
  by (induction m k rule: bm_get.induct) auto

lemma bm_get_insert [simp]:
  "bm_get (bm_insert k v m) k' = (if k' = k then Some v else bm_get m k')"
  by (induction k v m rule: bm_insert.induct) auto

lemma set_bm_insert: "set (bm_insert k v m) \<subseteq> insert (k, v) (set m)"
  by (induction k v m rule: bm_insert.induct) auto

lemma bm_wf_insert [simp]: "bm_wf m \<Longrightarrow> bm_wf (bm_insert k v m)"
proof (induction k v m rule: bm_insert.induct)
  case (1 k v)
  then show ?case by simp
next
  case (2 k v k' v' m)
  then show ?case
    using set_bm_insert [of k v m] by (fastforce simp: order.strict_trans)
qed

lemma set_bm_remove: "set (bm_remove k m) \<subseteq> set m"
  by (induction k m rule: bm_remove.induct) auto

lemma bm_wf_remove [simp]: "bm_wf m \<Longrightarrow> bm_wf (bm_remove k m)"
proof (induction k m rule: bm_remove.induct)
  case (1 k)
  then show ?case by simp
next
  case (2 k k' v m)
  then show ?case using set_bm_remove [of k m] by auto
qed

lemma bm_get_remove [simp]:
  "bm_wf m \<Longrightarrow> bm_get (bm_remove k m) k' = (if k' = k then None else bm_get m k')"
proof (induction k m rule: bm_remove.induct)
  case (1 k)
  then show ?case by simp
next
  case (2 k j v m)
  have "k = j \<Longrightarrow> bm_get m k = None"
    using 2 by (auto simp flip: bm_get_None)
  with 2 show ?case by auto
qed

lemma bm_get_entry: "bm_wf m \<Longrightarrow> (k, v) \<in> set m \<longleftrightarrow> bm_get m k = Some v"
  by (induction m k rule: bm_get.induct) force+

interpretation bm: ordered_map bm_get bm_insert bm_remove "\<lambda>m. m" bm_wf
  by unfold_locales (auto simp: bm_get_entry bm_wf_def [symmetric] simp flip: bm_wf_def)

lemma bm_get_mem: "bm_get m k = Some v \<Longrightarrow> (k, v) \<in> set m"
  by (induction m k rule: bm_get.induct) (auto split: if_splits)

lemma bm_remove_absent: "bm_get m k = None \<Longrightarrow> bm_remove k m = m"
  by (induction k m rule: bm_remove.induct) (auto split: if_splits)

lemma bm_insert_same: "bm_wf m \<Longrightarrow> bm_get m k = Some v \<Longrightarrow> bm_insert k v m = m"
proof (induction k v m rule: bm_insert.induct)
  case (1 k v)
  then show ?case by simp
next
  case (2 k v j w m)
  then show ?case using bm_get_mem [of m k v] by (auto split: if_splits)
qed

text \<open>Inserting the entries of a map one by one, in order, rebuilds it.\<close>

lemma bm_insert_last:
  "(\<forall>e \<in> set m. fst e < k) \<Longrightarrow> bm_insert k v m = m @ [(k, v)]"
  by (induction k v m rule: bm_insert.induct) auto

lemma bm_wf_append:
  "bm_wf (m @ m') \<longleftrightarrow> bm_wf m \<and> bm_wf m' \<and> (\<forall>e \<in> set m. \<forall>e' \<in> set m'. fst e < fst e')"
  by (auto simp: bm_wf_def sorted_wrt_append)

end
