(* ===== verification/Protocol.thy ===== *)
theory Protocol
  imports Ordmap
begin

text \<open>
  The wire types of \<open>crates/protocol\<close>: targets, children, events, cells, requests and results,
  the error codes and the small functions over them. The bounds table and the functions
  that apply it are in the theory Bounds. A JSON value (\<open>serde_json::Value\<close>) is a type
  parameter: the code only carries it.
\<close>

section \<open>Targets\<close>

datatype target_kind = OpencodeSession | PiSession | Mcp | Cli

fun target_kind_as_str :: "target_kind \<Rightarrow> string" where
  "target_kind_as_str OpencodeSession = ''opencode-session''"
| "target_kind_as_str PiSession = ''pi-session''"
| "target_kind_as_str Mcp = ''mcp''"
| "target_kind_as_str Cli = ''cli''"

definition target_kind_parse :: "string \<Rightarrow> target_kind option" where
  "target_kind_parse value =
     List.find (\<lambda>kind. target_kind_as_str kind = value) [OpencodeSession, PiSession, Mcp, Cli]"

record target =
  t_kind :: target_kind
  t_id :: string

definition target_display :: "target \<Rightarrow> string" where
  "target_display t = target_kind_as_str (t_kind t) @ '':'' @ t_id t"

definition target_key :: "target \<Rightarrow> string" where
  "target_key t = target_display t"

definition TARGET_ID :: nat where "TARGET_ID = 256"

definition target_is_valid :: "target \<Rightarrow> bool" where
  "target_is_valid t \<longleftrightarrow> 1 \<le> char_count (t_id t) \<and> char_count (t_id t) \<le> TARGET_ID"

lemma target_kind_no_colon: "CHR '':'' \<notin> set (target_kind_as_str k)"
  by (cases k) auto

lemma target_kind_as_str_inject [simp]:
  "target_kind_as_str k = target_kind_as_str k' \<longleftrightarrow> k = k'"
  by (cases k; cases k') auto

lemma append_sep_inject:
  "x \<notin> set a \<Longrightarrow> x \<notin> set a' \<Longrightarrow> a @ x # b = a' @ x # b' \<longleftrightarrow> a = a' \<and> b = b'"
proof (induction a arbitrary: a')
  case Nil
  then show ?case by (cases a') auto
next
  case (Cons y ys)
  then show ?case by (cases a') auto
qed

lemma target_key_inject [simp]: "target_key t = target_key t' \<longleftrightarrow> t = t'"
  by (cases t; cases t')
    (auto simp: target_key_def target_display_def append_sep_inject target_kind_no_colon)

section \<open>Errors\<close>

datatype error_code =
  InvalidRequest | Unauthorized | NotFound | Busy | KernelUnavailable | UnsupportedHost
  | DepthExceeded | LimitExceeded | Internal

record rpc_error =
  code :: error_code
  message :: string

definition rpc_error_new :: "error_code \<Rightarrow> string \<Rightarrow> rpc_error" where
  "rpc_error_new c m = \<lparr>code = c, message = m\<rparr>"

text \<open>The snake case names \<open>serde\<close> gives the error codes, and \<open>Display for RpcError\<close>.\<close>

fun error_code_name :: "error_code \<Rightarrow> string" where
  "error_code_name InvalidRequest = ''invalid_request''"
| "error_code_name Unauthorized = ''unauthorized''"
| "error_code_name NotFound = ''not_found''"
| "error_code_name Busy = ''busy''"
| "error_code_name KernelUnavailable = ''kernel_unavailable''"
| "error_code_name UnsupportedHost = ''unsupported_host''"
| "error_code_name DepthExceeded = ''depth_exceeded''"
| "error_code_name LimitExceeded = ''limit_exceeded''"
| "error_code_name Internal = ''internal''"

definition rpc_error_display :: "rpc_error \<Rightarrow> string" where
  "rpc_error_display e = error_code_name (code e) @ '': '' @ message e"

type_synonym 'a rpc_result = "(rpc_error, 'a) result"

lemma code_new [simp]: "code (rpc_error_new c m) = c"
  by (simp add: rpc_error_new_def)

lemma message_new [simp]: "message (rpc_error_new c m) = m"
  by (simp add: rpc_error_new_def)

section \<open>Hosts\<close>

datatype host_name = Host_Opencode | Host_Pi | Host_Mcp | Host_Cli

text \<open>The snake case names \<open>serde\<close> gives the hosts; \<open>host_name\<close> of the registry reads them back.\<close>

fun host_name_str :: "host_name \<Rightarrow> string" where
  "host_name_str Host_Opencode = ''opencode''"
| "host_name_str Host_Pi = ''pi''"
| "host_name_str Host_Mcp = ''mcp''"
| "host_name_str Host_Cli = ''cli''"

record host_info =
  h_name :: host_name
  h_version :: "string option"
  h_supports_children :: bool

section \<open>Children\<close>

datatype child_status = Pending | Running | Failed | Deleted

record child_info =
  c_id :: string
  c_name :: string
  c_task :: string
  c_model :: "string option"
  c_status :: child_status
  c_parent :: target
  c_session :: "target option"
  c_session_dir :: string
  c_depth :: u32
  c_created_at :: u64

definition is_deleted :: "child_info \<Rightarrow> bool" where
  "is_deleted c \<longleftrightarrow> c_status c = Deleted"

definition bound_session :: "child_info \<Rightarrow> target option" where
  "bound_session c =
     (case c_status c of
        Running \<Rightarrow> c_session c
      | Pending \<Rightarrow> None
      | Failed \<Rightarrow> None
      | Deleted \<Rightarrow> None)"

text \<open>The life of a child goes upwards in this order: \<open>Pending < Running < Failed < Deleted\<close>.\<close>

fun status_rank :: "child_status \<Rightarrow> nat" where
  "status_rank Pending = 0"
| "status_rank Running = 1"
| "status_rank Failed = 2"
| "status_rank Deleted = 3"

instantiation child_status :: linorder
begin

definition less_eq_child_status :: "child_status \<Rightarrow> child_status \<Rightarrow> bool" where
  "less_eq_child_status a b \<longleftrightarrow> status_rank a \<le> status_rank b"

definition less_child_status :: "child_status \<Rightarrow> child_status \<Rightarrow> bool" where
  "less_child_status a b \<longleftrightarrow> status_rank a < status_rank b"

instance
proof
  fix x y :: child_status
  show "x \<le> y \<Longrightarrow> y \<le> x \<Longrightarrow> x = y"
    by (cases x; cases y) (auto simp: less_eq_child_status_def)
qed (auto simp: less_eq_child_status_def less_child_status_def)

end

lemma status_le_simps [simp]:
  "Pending \<le> s" "s \<le> Deleted" "Running \<le> s \<longleftrightarrow> s \<noteq> Pending"
  "Failed \<le> s \<longleftrightarrow> s = Failed \<or> s = Deleted" "Deleted \<le> s \<longleftrightarrow> s = Deleted"
  by (cases s; simp add: less_eq_child_status_def)+

lemma bound_session_Some:
  "bound_session c = Some t \<longleftrightarrow> c_status c = Running \<and> c_session c = Some t"
  by (auto simp: bound_session_def split: child_status.splits)

section \<open>Events\<close>

datatype role = Role_Parent | Role_Child

record message_from =
  mf_role :: role
  mf_name :: "string option"
  mf_child_id :: "string option"

record child_spawn_payload =
  sp_child :: child_info
  sp_prompt :: string

record agent_message_payload =
  am_from :: message_from
  am_message :: string

record bash_finished_payload =
  bf_handle_id :: string
  bf_pid :: u32
  bf_exit_code :: "i32 option"
  bf_command :: string

record kernel_exited_payload =
  ke_pid :: u32
  ke_exit_code :: "i32 option"
  ke_signal :: "i32 option"

datatype event_body =
  ChildSpawn child_spawn_payload
  | AgentMessage agent_message_payload
  | BashFinished bash_finished_payload
  | KernelExited kernel_exited_payload

fun event_body_kind :: "event_body \<Rightarrow> string" where
  "event_body_kind (ChildSpawn _) = ''child.spawn''"
| "event_body_kind (AgentMessage _) = ''agent.message''"
| "event_body_kind (BashFinished _) = ''bash.finished''"
| "event_body_kind (KernelExited _) = ''kernel.exited''"

record event =
  e_id :: string
  e_target :: target
  e_body :: event_body
  e_actionable :: bool
  e_at :: u64
  e_text :: string

definition event_kind :: "event \<Rightarrow> string" where
  "event_kind e = event_body_kind (e_body e)"

datatype sse_frame =
  Subscribed target
  | Events target "event list"
  | Heartbeat u64

section \<open>Cells\<close>

datatype cell_status = Cell_Ok | Cell_Error | Cell_Timeout | Cell_Interrupted

fun cell_status_as_str :: "cell_status \<Rightarrow> string" where
  "cell_status_as_str Cell_Ok = ''ok''"
| "cell_status_as_str Cell_Error = ''error''"
| "cell_status_as_str Cell_Timeout = ''timeout''"
| "cell_status_as_str Cell_Interrupted = ''interrupted''"

record cell_error =
  ename :: string
  evalue :: string
  traceback :: string

record cell_result =
  cr_status :: cell_status
  cr_stdout :: string
  cr_stderr :: string
  cr_result :: "string option"
  cr_error :: "cell_error option"
  cr_execution_count :: u64
  cr_duration_ms :: u64
  cr_truncated :: bool

definition cell_result_empty :: "cell_status \<Rightarrow> u64 \<Rightarrow> u64 \<Rightarrow> cell_result" where
  "cell_result_empty status execution_count duration_ms =
     \<lparr>cr_status = status, cr_stdout = [], cr_stderr = [], cr_result = None, cr_error = None,
      cr_execution_count = execution_count, cr_duration_ms = duration_ms,
      cr_truncated = False\<rparr>"

section \<open>Kernel protocol\<close>

record handle_info =
  hi_handle_id :: string
  hi_pid :: u32
  hi_command :: string
  hi_running :: bool

datatype 'v to_kernel =
  Execute string string u64
  | Interrupt
  | HostResponse string "'v option" "rpc_error option"
  | Shutdown

datatype 'v from_kernel =
  Ready u32 string u32
  | ExecuteResult string cell_result
  | HostRequest string string 'v
  | Handles "handle_info list"
  | Log string string

datatype kernel_state = Absent | Starting | Idle | Kernel_Busy | Dead

record kernel_status =
  ks_state :: kernel_state
  ks_pid :: "u32 option"
  ks_execution_count :: u64
  ks_started_at :: "u64 option"
  ks_cwd :: string
  ks_handles :: "handle_info list"

record skill_info =
  sk_name :: string
  sk_description :: string
  sk_path :: string
  sk_python :: "string option"
  sk_hidden :: bool

section \<open>Method parameters and results\<close>

record spawn_params =
  spawn_task :: string
  spawn_name :: string
  spawn_model :: "string option"

record delete_subagent_params =
  del_child_id :: "string option"
  del_name :: "string option"

record agent_message_params =
  msg_message :: string
  msg_receiver_role :: role
  msg_receiver_name :: "string option"

record bash_finished_params =
  fin_handle_id :: string
  fin_pid :: u32
  fin_exit_code :: "i32 option"
  fin_command :: string

record register_params =
  reg_target :: target
  reg_cwd :: string
  reg_host :: host_info
  reg_model :: "string option"

record execute_params =
  ex_target :: target
  ex_code :: string
  ex_timeout_sec :: "u64 option"

record register_result =
  rr_target :: target
  rr_depth :: u32
  rr_parent :: "target option"
  rr_child :: "child_info option"

record health_result =
  hr_ok :: bool
  hr_name :: string
  hr_version :: string
  hr_protocol :: u32
  hr_pid :: u32
  hr_started_at :: u64

text \<open>The requests of \<open>POST /rpc\<close>, with the fields of each variant's parameter struct in order.\<close>

datatype request =
  Health
  | TargetRegister register_params
  | KernelExecute execute_params
  | KernelInterrupt target
  | KernelRestart target
  | KernelStatus target
  | ChildrenList target
  | ChildrenBind target string target
  | ChildrenFail target string string
  | ChildrenDelete target string
  | EventsAck target "string list"
  | EventsList target
  | SkillsList "target option"

text \<open>The requests of a kernel to its daemon.\<close>

datatype host_call =
  Call_Spawn spawn_params
  | Call_ListSubagents
  | Call_DeleteSubagent delete_subagent_params
  | Call_AgentMessage agent_message_params
  | Call_BashFinished bash_finished_params
  | Call_Withdraw string
  | Call_SkillsList

fun host_call_method :: "host_call \<Rightarrow> string" where
  "host_call_method (Call_Spawn _) = ''rlm.spawn''"
| "host_call_method Call_ListSubagents = ''rlm.list_subagents''"
| "host_call_method (Call_DeleteSubagent _) = ''rlm.delete_subagent''"
| "host_call_method (Call_AgentMessage _) = ''agent_message.send''"
| "host_call_method (Call_BashFinished _) = ''notice.bash_finished''"
| "host_call_method (Call_Withdraw _) = ''notice.withdraw''"
| "host_call_method Call_SkillsList = ''skills.list''"

section \<open>Constants and names\<close>

definition PROTOCOL_VERSION :: u32 where "PROTOCOL_VERSION = 1"
definition DAEMON_NAME :: string where "DAEMON_NAME = ''recurse''"
definition DEFAULT_PORT :: u16 where "DEFAULT_PORT = 18791"
definition KERNEL_PROTOCOL_VERSION :: u32 where "KERNEL_PROTOCOL_VERSION = 1"

definition ascii_lower_digit :: "char \<Rightarrow> bool" where
  "ascii_lower_digit c \<longleftrightarrow>
     CHR ''a'' \<le> c \<and> c \<le> CHR ''z'' \<or> CHR ''0'' \<le> c \<and> c \<le> CHR ''9''"

text \<open>The closure \<open>lower_digit\<close> on a character, given as its encoding.\<close>

fun lower_digit :: "string \<Rightarrow> bool" where
  "lower_digit [c] = ascii_lower_digit c"
| "lower_digit _ = False"

definition is_valid_name :: "string \<Rightarrow> bool" where
  "is_valid_name name =
     (case chars name of
        [] \<Rightarrow> False
      | first # rest \<Rightarrow>
          length name \<le> 63 \<and> lower_digit first \<and>
          list_all (\<lambda>c. lower_digit c \<or> c = ''-'') rest)"

end
