(* ===== verification/Bounds.thy ===== *)
theory Bounds
  imports Protocol
begin

text \<open>
  \<open>crates/protocol/src/bounds.rs\<close>: the bounds table, the two clipping helpers with their
  search for a character boundary, and \<open>CellResult::enforce_bounds\<close> of \<open>cell.rs\<close>. The locale
  \<open>clipper\<close> is what the callers rely on; both helpers are instances of it.
\<close>

section \<open>The table\<close>

definition RPC_BODY :: nat where "RPC_BODY = 1024 * 1024"
definition CELL_CODE :: nat where "CELL_CODE = 256 * 1024"
definition CELL_STREAM :: nat where "CELL_STREAM = 64 * 1024"
definition CELL_RESULT :: nat where "CELL_RESULT = 16 * 1024"
definition TRACEBACK :: nat where "TRACEBACK = 16 * 1024"
definition EVENT_TEXT :: nat where "EVENT_TEXT = 64 * 1024"
definition QUEUED_EVENTS :: nat where "QUEUED_EVENTS = 256"
definition CHILDREN_PER_PARENT :: nat where "CHILDREN_PER_PARENT = 16"
definition REGISTERED_TARGETS :: nat where "REGISTERED_TARGETS = 1024"
definition SSE_FRAME :: nat where "SSE_FRAME = 1024 * 1024"
definition TASK :: nat where "TASK = 32 * 1024"
definition MESSAGE :: nat where "MESSAGE = 32 * 1024"
definition SKILL_DESCRIPTION :: nat where "SKILL_DESCRIPTION = 1024"
definition MAX_TIMEOUT_SEC :: u64 where "MAX_TIMEOUT_SEC = 3600"

text \<open>The ellipsis U+2026 takes three bytes.\<close>

definition ellipsis :: string where
  "ellipsis = [CHR 0xE2, CHR 0x80, CHR 0xA6]"

definition HEAD_MARKER :: string where
  "HEAD_MARKER = ''['' @ ellipsis @ '' truncated '' @ ellipsis @ '']'' @ [newline]"

definition TAIL_MARKER :: string where
  "TAIL_MARKER = [newline] @ ''['' @ ellipsis @ '' truncated '' @ ellipsis @ '']''"

lemma marker_length [simp]: "length HEAD_MARKER = 20" "length TAIL_MARKER = 20"
  by (simp_all add: HEAD_MARKER_def TAIL_MARKER_def ellipsis_def)

lemma marker_valid [simp]: "valid_utf8 HEAD_MARKER" "valid_utf8 TAIL_MARKER"
  by code_simp+

lemma tail_marker_hd: "TAIL_MARKER \<noteq> []" "\<not> is_cont (hd TAIL_MARKER)"
  by (simp_all add: TAIL_MARKER_def is_cont_def)

section \<open>The boundary searches\<close>

text \<open>
  The loop \<open>while !text.is_char_boundary(start) { start += 1 }\<close>. The index never exceeds the
  length, where every string has a boundary; the guard on the length says so to the
  termination proof and changes nothing below it.
\<close>

function boundary_up :: "string \<Rightarrow> nat \<Rightarrow> nat" where
  "boundary_up str start =
     (if start < length str \<and> \<not> is_char_boundary str start
      then boundary_up str (start + 1) else start)"
  by pat_completeness auto
termination
  by (relation "measure (\<lambda>(str, start). length str - start)") auto

text \<open>The loop \<open>while !text.is_char_boundary(end) { end -= 1 }\<close>; index 0 is a boundary.\<close>

function boundary_down :: "string \<Rightarrow> nat \<Rightarrow> nat" where
  "boundary_down str stop =
     (if is_char_boundary str stop then stop else boundary_down str (stop - 1))"
  by pat_completeness auto
termination
  by (relation "measure snd") (auto simp: is_char_boundary_def)

declare boundary_up.simps [simp del] boundary_down.simps [simp del]

definition clip_tail :: "string \<Rightarrow> nat \<Rightarrow> string \<times> bool" where
  "clip_tail str limit =
     (if length str \<le> limit then (str, False)
      else
        let keep = limit - length HEAD_MARKER;
            start = boundary_up str (length str - keep);
            tail = drop start str
        in (HEAD_MARKER @ tail, True))"

definition clip_head :: "string \<Rightarrow> nat \<Rightarrow> string \<times> bool" where
  "clip_head str limit =
     (if length str \<le> limit then (str, False)
      else
        let stop = boundary_down str (limit - length TAIL_MARKER)
        in (take stop str @ TAIL_MARKER, True))"

lemma boundary_up_spec:
  "start \<le> length str \<Longrightarrow>
     start \<le> boundary_up str start \<and> boundary_up str start \<le> length str \<and>
     is_char_boundary str (boundary_up str start)"
proof (induction str start rule: boundary_up.induct)
  case (1 str start)
  show ?case
  proof (cases "start < length str \<and> \<not> is_char_boundary str start")
    case True
    with 1 show ?thesis by (simp add: boundary_up.simps [of str start])
  next
    case False
    with "1.prems" show ?thesis
      by (cases "start = length str")
        (auto simp: boundary_up.simps [of str start] boundary_up.simps [of str "length str"])
  qed
qed

lemma boundary_down_spec:
  "boundary_down str stop \<le> stop \<and> is_char_boundary str (boundary_down str stop)"
proof (induction str stop rule: boundary_down.induct)
  case (1 str stop)
  then show ?case
    by (cases "is_char_boundary str stop") (auto simp: boundary_down.simps [of str stop])
qed

text \<open>
  Neither search skips a boundary it could have stopped at: the clipped text is the longest
  the marker leaves room for.
\<close>

lemma boundary_up_first:
  "start \<le> i \<Longrightarrow> i \<le> length str \<Longrightarrow> is_char_boundary str i \<Longrightarrow> boundary_up str start \<le> i"
proof (induction str start rule: boundary_up.induct)
  case (1 str start)
  show ?case
  proof (cases "start < length str \<and> \<not> is_char_boundary str start")
    case True
    with "1.prems" have "start + 1 \<le> i" by (cases "start = i") auto
    with 1 True show ?thesis by (simp add: boundary_up.simps [of str start])
  next
    case False
    then show ?thesis using "1.prems" by (auto simp: boundary_up.simps [of str start])
  qed
qed

lemma boundary_down_last:
  "i \<le> stop \<Longrightarrow> is_char_boundary str i \<Longrightarrow> i \<le> boundary_down str stop"
proof (induction str stop rule: boundary_down.induct)
  case (1 str stop)
  show ?case
  proof (cases "is_char_boundary str stop")
    case True
    then show ?thesis using "1.prems" by (simp add: boundary_down.simps [of str stop])
  next
    case False
    with "1.prems" have "i \<le> stop - 1" by (cases "i = stop") auto
    with 1 False show ?thesis by (simp add: boundary_down.simps [of str stop])
  qed
qed

section \<open>The contract of a clipping helper\<close>

locale clipper =
  fixes clip :: "string \<Rightarrow> nat \<Rightarrow> string \<times> bool"
    and room :: nat
  assumes fits: "length s \<le> n \<Longrightarrow> clip s n = (s, False)"
    and cut_flag: "n < length s \<Longrightarrow> snd (clip s n)"
    and cut_length: "room \<le> n \<Longrightarrow> n < length s \<Longrightarrow> length (fst (clip s n)) \<le> n"
    and cut_valid: "valid_utf8 s \<Longrightarrow> valid_utf8 (fst (clip s n))"
begin

lemma flag_iff: "snd (clip s n) \<longleftrightarrow> n < length s"
  using fits [of s n] cut_flag [of n s] by (cases "length s \<le> n") auto

lemma clip_length: "room \<le> n \<Longrightarrow> length (fst (clip s n)) \<le> n"
  using fits [of s n] cut_length [of n s] by (cases "length s \<le> n") auto

lemma clip_id: "\<not> snd (clip s n) \<Longrightarrow> fst (clip s n) = s"
  using fits [of s n] by (auto simp: flag_iff)

lemma clip_again: "room \<le> n \<Longrightarrow> clip (fst (clip s n)) n = (fst (clip s n), False)"
  by (rule fits) (rule clip_length)

end

lemma clip_tail_cut:
  assumes "limit < length str"
  shows "\<exists>start. clip_tail str limit = (HEAD_MARKER @ drop start str, True) \<and>
           length str - (limit - 20) \<le> start \<and> start \<le> length str \<and>
           is_char_boundary str start"
  using assms boundary_up_spec [of "length str - (limit - 20)" str]
  by (auto simp: clip_tail_def Let_def)

lemma clip_head_cut:
  assumes "limit < length str"
  shows "\<exists>stop. clip_head str limit = (take stop str @ TAIL_MARKER, True) \<and>
           stop \<le> limit - 20 \<and> is_char_boundary str stop"
  using assms boundary_down_spec [of str "limit - 20"]
  by (auto simp: clip_head_def Let_def)

lemma clip_tail_valid: "valid_utf8 s \<Longrightarrow> valid_utf8 (fst (clip_tail s n))"
proof (cases "length s \<le> n")
  case True
  then show "valid_utf8 s \<Longrightarrow> ?thesis" by (simp add: clip_tail_def)
next
  case False
  assume s: "valid_utf8 s"
  from False obtain i where i: "clip_tail s n = (HEAD_MARKER @ drop i s, True)"
    "is_char_boundary s i" using clip_tail_cut [of n s] by auto
  with s have "valid_utf8 (drop i s)" by (blast dest: valid_utf8_split)
  then show ?thesis using i valid_utf8_hd [of "drop i s"] by simp
qed

lemma clip_head_valid: "valid_utf8 s \<Longrightarrow> valid_utf8 (fst (clip_head s n))"
proof (cases "length s \<le> n")
  case True
  then show "valid_utf8 s \<Longrightarrow> ?thesis" by (simp add: clip_head_def)
next
  case False
  assume s: "valid_utf8 s"
  from False obtain i where i: "clip_head s n = (take i s @ TAIL_MARKER, True)"
    "is_char_boundary s i" using clip_head_cut [of n s] by auto
  with s have "valid_utf8 (take i s)" by (blast dest: valid_utf8_split)
  with i show ?thesis by (simp add: tail_marker_hd)
qed

interpretation tail: clipper clip_tail 20
proof
  fix s n
  show "length s \<le> n \<Longrightarrow> clip_tail s n = (s, False)" by (simp add: clip_tail_def)
  show "n < length s \<Longrightarrow> snd (clip_tail s n)" using clip_tail_cut by fastforce
  show "20 \<le> n \<Longrightarrow> n < length s \<Longrightarrow> length (fst (clip_tail s n)) \<le> n"
    using clip_tail_cut [of n s] by auto
  show "valid_utf8 s \<Longrightarrow> valid_utf8 (fst (clip_tail s n))" by (rule clip_tail_valid)
qed

interpretation head: clipper clip_head 20
proof
  fix s n
  show "length s \<le> n \<Longrightarrow> clip_head s n = (s, False)" by (simp add: clip_head_def)
  show "n < length s \<Longrightarrow> snd (clip_head s n)" using clip_head_cut by fastforce
  show "20 \<le> n \<Longrightarrow> n < length s \<Longrightarrow> length (fst (clip_head s n)) \<le> n"
    using clip_head_cut [of n s] by auto
  show "valid_utf8 s \<Longrightarrow> valid_utf8 (fst (clip_head s n))" by (rule clip_head_valid)
qed

text \<open>
  What is kept of a text: all of it when it fits, and otherwise the marker and the longest suffix (or
  prefix) between character boundaries that still fits. UTF-8 stays UTF-8.
\<close>

definition keeps_tail :: "nat \<Rightarrow> string \<Rightarrow> string \<Rightarrow> bool" where
  "keeps_tail n s s' \<longleftrightarrow>
     (if length s \<le> n then s' = s
      else \<exists>k. s' = HEAD_MARKER @ drop k s \<and> length s' \<le> n \<and> is_char_boundary s k \<and>
        (\<forall>j < k. is_char_boundary s j \<longrightarrow> n < length (HEAD_MARKER @ drop j s))) \<and>
     (valid_utf8 s \<longrightarrow> valid_utf8 s')"

definition keeps_head :: "nat \<Rightarrow> string \<Rightarrow> string \<Rightarrow> bool" where
  "keeps_head n s s' \<longleftrightarrow>
     (if length s \<le> n then s' = s
      else \<exists>k. s' = take k s @ TAIL_MARKER \<and> length s' \<le> n \<and> is_char_boundary s k \<and>
        (\<forall>j \<le> length s. k < j \<longrightarrow> is_char_boundary s j \<longrightarrow> n < length (take j s @ TAIL_MARKER))) \<and>
     (valid_utf8 s \<longrightarrow> valid_utf8 s')"

lemma clip_tail_keeps:
  assumes "20 \<le> n"
  shows "keeps_tail n s (fst (clip_tail s n))"
proof (cases "length s \<le> n")
  case True
  then show ?thesis by (simp add: keeps_tail_def tail.fits)
next
  case False
  define k where "k = boundary_up s (length s - (n - 20))"
  have k: "k \<le> length s" "is_char_boundary s k"
    using boundary_up_spec [of "length s - (n - 20)" s] by (simp_all add: k_def)
  have cut: "fst (clip_tail s n) = HEAD_MARKER @ drop k s"
    using False by (simp add: clip_tail_def k_def Let_def)
  have "n < length (HEAD_MARKER @ drop j s)" if "j < k" "is_char_boundary s j" for j
  proof -
    have "j < length s - (n - 20)"
      using that k boundary_up_first [of "length s - (n - 20)" j s] unfolding k_def by (meson leD leI less_le_trans less_imp_le)
    then show ?thesis using assms by simp
  qed
  then show ?thesis
    using False cut k(2) tail.clip_length [OF assms, of s] clip_tail_valid [of s n]
    unfolding keeps_tail_def by metis
qed

lemma clip_head_keeps:
  assumes "20 \<le> n"
  shows "keeps_head n s (fst (clip_head s n))"
proof (cases "length s \<le> n")
  case True
  then show ?thesis by (simp add: keeps_head_def head.fits)
next
  case False
  define k where "k = boundary_down s (n - 20)"
  have k: "is_char_boundary s k" using boundary_down_spec by (simp add: k_def)
  have cut: "fst (clip_head s n) = take k s @ TAIL_MARKER"
    using False by (simp add: clip_head_def k_def Let_def)
  have "n < length (take j s @ TAIL_MARKER)" if "j \<le> length s" "k < j" "is_char_boundary s j" for j
    using that boundary_down_last [of j "n - 20" s] assms by (cases "j \<le> n - 20") (auto simp: k_def)
  then show ?thesis
    using False cut k head.clip_length [OF assms, of s] clip_head_valid [of s n]
    unfolding keeps_head_def by metis
qed

section \<open>Cell results\<close>

text \<open>The bounds every cell result meets once \<open>CellResult::enforce_bounds\<close> has run.\<close>

definition clip_error :: "cell_error \<Rightarrow> cell_error \<times> bool" where
  "clip_error e =
     (let (tb, k) = clip_tail (traceback e) TRACEBACK;
          (ev, k') = clip_head (evalue e) CELL_RESULT
      in (e\<lparr>traceback := tb, evalue := ev\<rparr>, k \<or> k'))"

definition enforce_bounds :: "cell_result \<Rightarrow> cell_result" where
  "enforce_bounds r =
     (let (out, k1) = clip_tail (cr_stdout r) CELL_STREAM;
          (err, k2) = clip_tail (cr_stderr r) CELL_STREAM;
          (res, k3) = (case cr_result r of None \<Rightarrow> (None, False)
                       | Some t \<Rightarrow> let (t', k) = clip_head t CELL_RESULT in (Some t', k));
          (er, k4) = (case cr_error r of None \<Rightarrow> (None, False)
                      | Some e \<Rightarrow> let (e', k) = clip_error e in (Some e', k))
      in r\<lparr>cr_stdout := out, cr_stderr := err, cr_result := res, cr_error := er,
           cr_truncated := cr_truncated r \<or> k1 \<or> k2 \<or> k3 \<or> k4\<rparr>)"

definition within_bounds :: "cell_result \<Rightarrow> bool" where
  "within_bounds r \<longleftrightarrow>
     length (cr_stdout r) \<le> CELL_STREAM \<and> length (cr_stderr r) \<le> CELL_STREAM \<and>
     (\<forall>t \<in> set_option (cr_result r). length t \<le> CELL_RESULT) \<and>
     (\<forall>e \<in> set_option (cr_error r).
        length (traceback e) \<le> TRACEBACK \<and> length (evalue e) \<le> CELL_RESULT)"

lemma bounds_room [simp]: "20 \<le> CELL_STREAM" "20 \<le> CELL_RESULT" "20 \<le> TRACEBACK"
  "20 \<le> EVENT_TEXT" "20 \<le> MESSAGE"
  by (simp_all add: CELL_STREAM_def CELL_RESULT_def TRACEBACK_def EVENT_TEXT_def MESSAGE_def)

lemma enforce_bounds_fields:
  "cr_stdout (enforce_bounds r) = fst (clip_tail (cr_stdout r) CELL_STREAM)"
  "cr_stderr (enforce_bounds r) = fst (clip_tail (cr_stderr r) CELL_STREAM)"
  "cr_result (enforce_bounds r) = map_option (\<lambda>t. fst (clip_head t CELL_RESULT)) (cr_result r)"
  "cr_error (enforce_bounds r) = map_option (\<lambda>e. fst (clip_error e)) (cr_error r)"
  "cr_status (enforce_bounds r) = cr_status r"
  "cr_execution_count (enforce_bounds r) = cr_execution_count r"
  "cr_duration_ms (enforce_bounds r) = cr_duration_ms r"
  by (auto simp: enforce_bounds_def Let_def split: prod.splits option.splits)

lemma clip_error_fields:
  "traceback (fst (clip_error e)) = fst (clip_tail (traceback e) TRACEBACK)"
  "evalue (fst (clip_error e)) = fst (clip_head (evalue e) CELL_RESULT)"
  "ename (fst (clip_error e)) = ename e"
  "snd (clip_error e) \<longleftrightarrow> TRACEBACK < length (traceback e) \<or> CELL_RESULT < length (evalue e)"
  by (simp_all add: clip_error_def Let_def split_beta tail.flag_iff head.flag_iff)

lemma enforce_bounds_truncated:
  "cr_truncated (enforce_bounds r) \<longleftrightarrow> cr_truncated r \<or> \<not> within_bounds r"
proof -
  have "snd (clip_error e) \<longleftrightarrow>
      \<not> (length (traceback e) \<le> TRACEBACK \<and> length (evalue e) \<le> CELL_RESULT)" for e
    by (auto simp: clip_error_fields)
  moreover have "cr_truncated (enforce_bounds r) \<longleftrightarrow> cr_truncated r \<or>
      snd (clip_tail (cr_stdout r) CELL_STREAM) \<or> snd (clip_tail (cr_stderr r) CELL_STREAM) \<or>
      (\<exists>t \<in> set_option (cr_result r). snd (clip_head t CELL_RESULT)) \<or>
      (\<exists>e \<in> set_option (cr_error r). snd (clip_error e))"
    by (auto simp: enforce_bounds_def Let_def split: prod.splits option.splits)
  ultimately show ?thesis
    by (auto simp: within_bounds_def tail.flag_iff head.flag_iff not_le)
qed

lemma within_bounds_enforce: "within_bounds (enforce_bounds r)"
  by (auto simp: within_bounds_def enforce_bounds_fields clip_error_fields
      tail.clip_length head.clip_length)

lemma clip_error_fit:
  "length (traceback e) \<le> TRACEBACK \<Longrightarrow> length (evalue e) \<le> CELL_RESULT \<Longrightarrow>
     fst (clip_error e) = e"
  by (simp add: clip_error_def tail.fits head.fits)

lemma enforce_bounds_fit: "within_bounds r \<Longrightarrow> enforce_bounds r = r"
proof -
  assume r: "within_bounds r"
  have "cr_result (enforce_bounds r) = cr_result r" "cr_error (enforce_bounds r) = cr_error r"
    "cr_stdout (enforce_bounds r) = cr_stdout r" "cr_stderr (enforce_bounds r) = cr_stderr r"
    using r by (auto simp: within_bounds_def enforce_bounds_fields head.fits tail.fits
        clip_error_fit intro!: option.map_ident_strong)
  moreover have "cr_truncated (enforce_bounds r) = cr_truncated r"
    using r by (simp add: enforce_bounds_truncated)
  ultimately show ?thesis by (simp add: enforce_bounds_fields(5,6,7))
qed

text \<open>What is kept of an error: its name, the end of its traceback and the head of its value.\<close>

definition keeps_error :: "cell_error \<Rightarrow> cell_error \<Rightarrow> bool" where
  "keeps_error e e' \<longleftrightarrow>
     ename e' = ename e \<and> keeps_tail TRACEBACK (traceback e) (traceback e') \<and>
     keeps_head CELL_RESULT (evalue e) (evalue e')"

lemma enforce_bounds_keeps:
  "keeps_tail CELL_STREAM (cr_stdout r) (cr_stdout (enforce_bounds r))"
  "keeps_tail CELL_STREAM (cr_stderr r) (cr_stderr (enforce_bounds r))"
  "rel_option (keeps_head CELL_RESULT) (cr_result r) (cr_result (enforce_bounds r))"
  "rel_option keeps_error (cr_error r) (cr_error (enforce_bounds r))"
  by (simp_all add: enforce_bounds_fields clip_error_fields clip_tail_keeps clip_head_keeps keeps_error_def
      option.rel_map option.rel_refl)

end
