(* ===== verification/Registry.thy ===== *)
theory Registry
  imports Bounds
begin

text \<open>
  \<open>crates/daemon/src/registry.rs\<close>: target registrations and the child registry, one function per
  method. A method that takes \<open>&mut self\<close> returns the result and the registry after it. What the
  code takes from its environment is a parameter: the time \<open>now\<close>, and the record \<open>runtime\<close>
  with the randomly seeded hash behind new child ids and the \<open>Debug\<close> rendering of a string in
  one error message.
\<close>

unbundle bit_operations_syntax

record runtime =
  rt_hash_one :: "u64 \<Rightarrow> u64 \<Rightarrow> u64"
  rt_debug :: "string \<Rightarrow> string"

record target_record =
  tr_target :: target
  tr_cwd :: string
  tr_host :: host_info
  tr_model :: "string option"

record registry =
  targets :: "(string, target_record) btree"
  children :: "child_info list"
  sequences :: "(string, u64) btree"

definition registry_default :: registry where
  "registry_default = \<lparr>targets = [], children = [], sequences = []\<rparr>"

definition invalid :: "string \<Rightarrow> rpc_error" where
  "invalid m = rpc_error_new InvalidRequest m"

definition not_found :: "string \<Rightarrow> rpc_error" where
  "not_found m = rpc_error_new NotFound m"

definition limit :: "string \<Rightarrow> rpc_error" where
  "limit m = rpc_error_new LimitExceeded m"

definition host_name :: "host_info \<Rightarrow> string" where
  "host_name h = host_name_str (h_name h)"

fun status_name :: "child_status \<Rightarrow> string" where
  "status_name Pending = ''pending''"
| "status_name Running = ''running''"
| "status_name Failed = ''failed''"
| "status_name Deleted = ''deleted''"

lemma error_codes [simp]:
  "code (invalid m) = InvalidRequest" "code (not_found m) = NotFound"
  "code (limit m) = LimitExceeded"
  by (simp_all add: invalid_def not_found_def limit_def)

section \<open>Lookups\<close>

definition record_of :: "registry \<Rightarrow> target \<Rightarrow> target_record option" where
  "record_of r t = bm_get (targets r) (target_key t)"

definition binding :: "registry \<Rightarrow> target \<Rightarrow> child_info option" where
  "binding r t = List.find (\<lambda>c. bound_session c = Some t) (children r)"

definition describe :: "registry \<Rightarrow> target \<Rightarrow> register_result" where
  "describe r t =
     (let child = binding r t
      in \<lparr>rr_target = t,
          rr_depth = (case child of None \<Rightarrow> 0 | Some c \<Rightarrow> c_depth c),
          rr_parent = map_option c_parent child,
          rr_child = child\<rparr>)"

definition depth :: "registry \<Rightarrow> target \<Rightarrow> u32" where
  "depth r t = (case binding r t of None \<Rightarrow> 0 | Some c \<Rightarrow> c_depth c)"

definition children_of :: "registry \<Rightarrow> target \<Rightarrow> child_info list" where
  "children_of r parent = filter (\<lambda>c. c_parent c = parent) (children r)"

definition live_children :: "registry \<Rightarrow> target \<Rightarrow> child_info list" where
  "live_children r parent =
     filter (\<lambda>c. c_parent c = parent \<and> \<not> is_deleted c) (children r)"

definition running_child_named :: "registry \<Rightarrow> target \<Rightarrow> string \<Rightarrow> child_info option" where
  "running_child_named r parent name =
     List.find (\<lambda>c. c_name c = name \<and> c_status c = Running) (live_children r parent)"

text \<open>\<open>child_mut\<close>: the entry a mutation goes to, and the registry after it.\<close>

definition is_child :: "target \<Rightarrow> string \<Rightarrow> child_info \<Rightarrow> bool" where
  "is_child parent child_id c \<longleftrightarrow> c_parent c = parent \<and> c_id c = child_id"

definition child_mut :: "registry \<Rightarrow> target \<Rightarrow> string \<Rightarrow> child_info rpc_result" where
  "child_mut r parent child_id =
     ok_or (not_found (''no child '' @ child_id @ '' for '' @ target_display parent))
       (List.find (is_child parent child_id) (children r))"

definition put_child :: "registry \<Rightarrow> target \<Rightarrow> string \<Rightarrow> child_info \<Rightarrow> registry" where
  "put_child r parent child_id child =
     r\<lparr>children := update_first (is_child parent child_id) (\<lambda>_. child) (children r)\<rparr>"

section \<open>Registration\<close>

definition new_record :: "register_params \<Rightarrow> target_record" where
  "new_record params =
     \<lparr>tr_target = reg_target params, tr_cwd = reg_cwd params, tr_host = reg_host params,
      tr_model = reg_model params\<rparr>"

definition register :: "registry \<Rightarrow> register_params \<Rightarrow> register_result rpc_result \<times> registry" where
  "register r params =
     (let key = target_key (reg_target params)
      in if \<not> bm_contains (targets r) key \<and> REGISTERED_TARGETS \<le> length (targets r)
         then (Inl (limit (''at most '' @ dec REGISTERED_TARGETS @
                           '' targets may be registered'')), r)
         else
           let r' = r\<lparr>targets := bm_insert key (new_record params) (targets r)\<rparr>
           in (Inr (describe r' (reg_target params)), r'))"

section \<open>Admission\<close>

text \<open>
  \<open>new_child_id\<close>: the first of the ids \<open>c_\<close> and eight hexadecimal digits, over the salts of a
  \<open>u64\<close>, that no child has. The empty string is the \<open>unwrap_or_default\<close> of a search without
  result.
\<close>

definition child_id_of :: "(u64 \<Rightarrow> u64) \<Rightarrow> nat \<Rightarrow> string" where
  "child_id_of hash salt = ''c_'' @ hex_pad 8 (unat (hash (of_nat salt) AND 0xffffffff))"

function find_child_id :: "(u64 \<Rightarrow> u64) \<Rightarrow> child_info list \<Rightarrow> nat \<Rightarrow> string" where
  "find_child_id hash cs salt =
     (if salt < 2 ^ 64 then
        let id = child_id_of hash salt
        in if list_all (\<lambda>c. c_id c \<noteq> id) cs then id else find_child_id hash cs (salt + 1)
      else [])"
  by pat_completeness auto
termination
  by (relation "measure (\<lambda>(hash, cs, salt). 2 ^ 64 - salt)") auto

declare find_child_id.simps [simp del]

definition new_child_id :: "runtime \<Rightarrow> registry \<Rightarrow> u64 \<Rightarrow> string" where
  "new_child_id rt r now = find_child_id (rt_hash_one rt now) (children r) 0"

definition check_admission :: "runtime \<Rightarrow> registry \<Rightarrow> target \<Rightarrow> spawn_params \<Rightarrow> unit rpc_result" where
  "check_admission rt r parent params =
     (if CHILDREN_PER_PARENT \<le> length (live_children r parent)
      then Inl (limit (''at most '' @ dec CHILDREN_PER_PARENT @
                       '' children per parent; delete one first''))
      else if \<not> is_valid_name (spawn_name params)
      then Inl (invalid (''child name '' @ rt_debug rt (spawn_name params) @
                         '' must match ^[a-z0-9][a-z0-9-]{0,62}$''))
      else if list_ex (\<lambda>c. c_name c = spawn_name params) (live_children r parent)
      then Inl (invalid (''a child named '' @ spawn_name params @ '' already exists''))
      else if trim (spawn_task params) = []
      then Inl (invalid ''task must not be empty'')
      else if TASK < length (spawn_task params)
      then Inl (limit ''task exceeds 32 KiB'')
      else Inr ())"

definition admit ::
  "runtime \<Rightarrow> registry \<Rightarrow> target \<Rightarrow> spawn_params \<Rightarrow> u32 \<Rightarrow> u64 \<Rightarrow>
     child_info rpc_result \<times> registry" where
  "admit rt r parent params max_depth now =
     (case record_of r parent of
        None \<Rightarrow> (Inl (not_found (''target '' @ target_display parent @ '' is not registered'')), r)
      | Some rec \<Rightarrow>
          if \<not> h_supports_children (tr_host rec)
          then (Inl (rpc_error_new UnsupportedHost
                  (''this host ('' @ host_name (tr_host rec) @
                   '') cannot create child sessions'')), r)
          else
            let d = sat_succ (depth r parent)
            in if max_depth < d
               then (Inl (rpc_error_new DepthExceeded
                       (''children may not spawn children (RECURSE_MAX_DEPTH='' @
                        dec (unat max_depth) @ '')'')), r)
               else (case check_admission rt r parent params of
                       Inl e \<Rightarrow> (Inl e, r)
                     | Inr _ \<Rightarrow>
                         let child =
                           \<lparr>c_id = new_child_id rt r now, c_name = spawn_name params,
                            c_task = spawn_task params,
                            c_model = (case spawn_model params of
                                         Some m \<Rightarrow> Some m | None \<Rightarrow> tr_model rec),
                            c_status = Pending, c_parent = parent, c_session = None,
                            c_session_dir = tr_cwd rec, c_depth = d, c_created_at = now\<rparr>
                         in (Inr child, r\<lparr>children := children r @ [child]\<rparr>)))"

section \<open>The life of a child\<close>

definition registry_bind ::
  "registry \<Rightarrow> target \<Rightarrow> string \<Rightarrow> target \<Rightarrow> child_info rpc_result \<times> registry" where
  "registry_bind r parent child_id session =
     (if session = parent
      then (Inl (invalid ''a child session cannot be its parent''), r)
      else
        case Option.bind (binding r session)
               (\<lambda>other. if c_id other \<noteq> child_id then Some other else None) of
          Some other \<Rightarrow>
            (Inl (invalid (''session '' @ target_display session @
                           '' is already bound to child '' @ c_id other)), r)
        | None \<Rightarrow>
            (case child_mut r parent child_id of
               Inl e \<Rightarrow> (Inl e, r)
             | Inr child \<Rightarrow>
                 let refused = (Inl (invalid (''child '' @ child_id @ '' is '' @
                                  status_name (c_status child) @ '' and cannot be bound'')), r)
                 in case c_status child of
                      Pending \<Rightarrow>
                        let child' = child\<lparr>c_status := Running, c_session := Some session\<rparr>
                        in (Inr child', put_child r parent child_id child')
                    | Running \<Rightarrow>
                        if c_session child = Some session then (Inr child, r) else refused
                    | Failed \<Rightarrow> refused
                    | Deleted \<Rightarrow> refused))"

definition registry_fail :: "registry \<Rightarrow> target \<Rightarrow> string \<Rightarrow> child_info rpc_result \<times> registry" where
  "registry_fail r parent child_id =
     (case child_mut r parent child_id of
        Inl e \<Rightarrow> (Inl e, r)
      | Inr child \<Rightarrow>
          let refused = (Inl (invalid (''child '' @ child_id @ '' is '' @
                           status_name (c_status child) @ '' and cannot fail to start'')), r)
          in case c_status child of
               Pending \<Rightarrow>
                 let child' = child\<lparr>c_status := Failed\<rparr>
                 in (Inr child', put_child r parent child_id child')
             | Failed \<Rightarrow> (Inr child, r)
             | Running \<Rightarrow> refused
             | Deleted \<Rightarrow> refused)"

definition selected_child :: "registry \<Rightarrow> target \<Rightarrow> delete_subagent_params \<Rightarrow> string rpc_result" where
  "selected_child r parent selector =
     (case (del_child_id selector, del_name selector) of
        (Some child_id, _) \<Rightarrow> Inr child_id
      | (None, Some name) \<Rightarrow>
          ok_or (not_found (''no child named '' @ name))
            (map_option c_id (List.find (\<lambda>c. c_name c = name) (live_children r parent)))
      | (None, None) \<Rightarrow> Inl (invalid ''delete needs child_id or name''))"

definition registry_delete ::
  "registry \<Rightarrow> target \<Rightarrow> delete_subagent_params \<Rightarrow> child_info rpc_result \<times> registry" where
  "registry_delete r parent selector =
     (case selected_child r parent selector of
        Inl e \<Rightarrow> (Inl e, r)
      | Inr child_id \<Rightarrow>
          (case child_mut r parent child_id of
             Inl e \<Rightarrow> (Inl e, r)
           | Inr child \<Rightarrow>
               let child' = child\<lparr>c_status := Deleted\<rparr>
               in (Inr child', put_child r parent child_id child')))"

definition next_sequence :: "registry \<Rightarrow> string \<Rightarrow> u64 \<times> registry" where
  "next_sequence r sender =
     (let n = sat_succ (case bm_get (sequences r) sender of None \<Rightarrow> 0 | Some n \<Rightarrow> n)
      in (n, r\<lparr>sequences := bm_insert sender n (sequences r)\<rparr>))"

end
