(* ===== verification/Registry_Inv.thy ===== *)
theory Registry_Inv
  imports Registry "HOL-Library.Sublist"
begin

text \<open>
  What the registry promises: the transitions a child can make (\<open>child_trans\<close>), the limits of
  the protocol that hold of every registry (\<open>registry_limits\<close>: names, depths, counts, the map
  of targets), the identity of children and sessions (\<open>registry_ids\<close>), and that every method
  keeps them. Each method is an instance of the locale \<open>transaction\<close>.
\<close>

section \<open>Transitions of one child\<close>

inductive child_trans :: "child_info \<Rightarrow> child_info \<Rightarrow> bool" where
  stay: "child_trans c c"
| start: "c_status c = Pending \<Longrightarrow> s \<noteq> c_parent c \<Longrightarrow>
     child_trans c (c\<lparr>c_status := Running, c_session := Some s\<rparr>)"
| fails: "c_status c = Pending \<Longrightarrow> child_trans c (c\<lparr>c_status := Failed\<rparr>)"
| delete: "child_trans c (c\<lparr>c_status := Deleted\<rparr>)"

inductive_cases child_transE: "child_trans c c'"
inductive_simps child_trans_iff: "child_trans c c'"

lemma child_trans_status: "child_trans c c' \<Longrightarrow> c_status c \<le> c_status c'"
  by (erule child_transE) auto

lemma child_trans_identity:
  "child_trans c c' \<Longrightarrow>
     c_id c' = c_id c \<and> c_name c' = c_name c \<and> c_parent c' = c_parent c \<and>
     c_task c' = c_task c \<and> c_depth c' = c_depth c \<and> c_created_at c' = c_created_at c"
  by (erule child_transE) auto

lemma child_trans_deleted: "child_trans c c' \<Longrightarrow> is_deleted c \<Longrightarrow> is_deleted c'"
  using child_trans_status [of c c'] by (simp add: is_deleted_def)

abbreviation children_trans :: "child_info list \<Rightarrow> child_info list \<Rightarrow> bool" where
  "children_trans \<equiv> list_all2 child_trans"

lemma children_trans_refl [simp, intro]: "children_trans cs cs"
  by (simp add: list_all2_refl child_trans.stay)

lemma children_trans_map:
  "children_trans cs cs' \<Longrightarrow> (\<And>c c'. child_trans c c' \<Longrightarrow> f c' = f c) \<Longrightarrow> map f cs' = map f cs"
  by (induction rule: list_all2_induct) auto

section \<open>Limits\<close>

definition child_ok :: "nat \<Rightarrow> child_info \<Rightarrow> bool" where
  "child_ok max_depth c \<longleftrightarrow>
     is_valid_name (c_name c) \<and>
     trim (c_task c) \<noteq> [] \<and> length (c_task c) \<le> TASK \<and>
     1 \<le> unat (c_depth c) \<and> unat (c_depth c) \<le> max_depth \<and>
     (c_status c = Pending \<or> c_status c = Failed \<longrightarrow> c_session c = None) \<and>
     (c_status c = Running \<longrightarrow> c_session c \<noteq> None) \<and>
     c_session c \<noteq> Some (c_parent c)"

definition targets_ok :: "registry \<Rightarrow> bool" where
  "targets_ok r \<longleftrightarrow>
     bm_wf (targets r) \<and> bm_wf (sequences r) \<and>
     (\<forall>(k, rec) \<in> set (targets r). k = target_key (tr_target rec)) \<and>
     length (targets r) \<le> REGISTERED_TARGETS"

definition registry_limits :: "nat \<Rightarrow> registry \<Rightarrow> bool" where
  "registry_limits max_depth r \<longleftrightarrow>
     targets_ok r \<and>
     (\<forall>c \<in> set (children r). child_ok max_depth c) \<and>
     (\<forall>p. distinct (map c_name (live_children r p))) \<and>
     (\<forall>p. length (live_children r p) \<le> CHILDREN_PER_PARENT)"

lemma child_ok_trans: "child_trans c c' \<Longrightarrow> child_ok d c \<Longrightarrow> child_ok d c'"
  by (erule child_transE) (auto simp: child_ok_def)

lemma subseq_distinct: "subseq xs ys \<Longrightarrow> distinct ys \<Longrightarrow> distinct xs"
  by (induction rule: list_emb.induct) (auto dest: list_emb_set)

text \<open>Transitions never add a live name: the live names afterwards are a subsequence.\<close>

lemma subseq_skip_or_keep:
  "subseq xs ys \<Longrightarrow> (P \<Longrightarrow> Q) \<Longrightarrow> subseq (if P then x # xs else xs) (if Q then x # ys else ys)"
  by auto

lemma live_names_trans:
  assumes "children_trans cs cs'"
  shows "subseq (map c_name (filter (\<lambda>c. c_parent c = p \<and> \<not> is_deleted c) cs'))
                (map c_name (filter (\<lambda>c. c_parent c = p \<and> \<not> is_deleted c) cs))"
  using assms
proof (induction rule: list_all2_induct)
  case Nil
  show ?case by simp
next
  case (Cons c cs c' cs')
  have c: "c_parent c' = c_parent c" "c_name c' = c_name c" "is_deleted c \<Longrightarrow> is_deleted c'"
    using child_trans_identity [OF Cons(1)] child_trans_deleted [OF Cons(1)] by auto
  have step: "map c_name (filter P (x # xs)) =
      (if P x then c_name x # map c_name (filter P xs) else map c_name (filter P xs))" for P x xs
    by simp
  show ?case
    unfolding step c(2) by (rule subseq_skip_or_keep [OF Cons.IH]) (use c in auto)
qed

lemma registry_limits_trans:
  assumes "registry_limits d r" and "children_trans (children r) cs'"
  shows "registry_limits d (r\<lparr>children := cs'\<rparr>)"
proof -
  have "child_ok d c'" if "c' \<in> set cs'" for c'
  proof -
    from that obtain i where i: "i < length cs'" "c' = cs' ! i" by (metis in_set_conv_nth)
    then have "child_trans (children r ! i) c'" "i < length (children r)"
      using list_all2_nthD2 [OF assms(2)] list_all2_lengthD [OF assms(2)] by auto
    then show ?thesis
      using assms(1) nth_mem by (metis child_ok_trans registry_limits_def)
  qed
  moreover have "targets_ok (r\<lparr>children := cs'\<rparr>)"
    using assms by (auto simp: registry_limits_def targets_ok_def)
  moreover have "distinct (map c_name (live_children (r\<lparr>children := cs'\<rparr>) p))"
    "length (live_children (r\<lparr>children := cs'\<rparr>) p) \<le> CHILDREN_PER_PARENT" for p
    using assms(1) live_names_trans [OF assms(2), of p]
      list_emb_length [OF live_names_trans [OF assms(2), of p]]
    by (auto simp: registry_limits_def live_children_def intro: subseq_distinct order_trans)
  ultimately show ?thesis by (simp add: registry_limits_def)
qed

section \<open>Identity of children and sessions\<close>

definition registry_ids :: "registry \<Rightarrow> bool" where
  "registry_ids r \<longleftrightarrow>
     distinct (map c_id (children r)) \<and>
     (\<forall>c \<in> set (children r). \<forall>c' \<in> set (children r).
        bound_session c \<noteq> None \<and> bound_session c = bound_session c' \<longrightarrow> c = c')"

abbreviation registry_inv :: "nat \<Rightarrow> registry \<Rightarrow> bool" where
  "registry_inv d r \<equiv> registry_limits d r \<and> registry_ids r"

lemma registry_limits_default: "registry_limits d registry_default"
  by (simp add: registry_limits_def targets_ok_def registry_default_def live_children_def)

lemma registry_ids_default: "registry_ids registry_default"
  by (simp add: registry_ids_def registry_default_def)

lemma binding_bound:
  assumes "registry_ids r" and "c \<in> set (children r)" and "bound_session c = Some t"
  shows "binding r t = Some c"
proof -
  have "List.find (\<lambda>c. bound_session c = Some t) (children r) \<noteq> None"
    using assms(2,3) by (auto simp: find_None_iff)
  then obtain c' where c': "binding r t = Some c'" by (auto simp: binding_def)
  then have "c' \<in> set (children r)" "bound_session c' = Some t"
    by (auto simp: binding_def dest: find_SomeD)
  with assms have "c' = c" unfolding registry_ids_def by (metis option.distinct(1))
  with c' show ?thesis by simp
qed

lemma binding_SomeD:
  "binding r t = Some c \<Longrightarrow> c \<in> set (children r) \<and> c_status c = Running \<and> c_session c = Some t"
  by (auto simp: binding_def bound_session_Some dest!: find_SomeD)

lemma child_mutD:
  "child_mut r parent cid = Inr c \<Longrightarrow>
     List.find (is_child parent cid) (children r) = Some c \<and>
     c \<in> set (children r) \<and> c_parent c = parent \<and> c_id c = cid"
  by (cases "List.find (is_child parent cid) (children r)")
    (auto simp: child_mut_def is_child_def dest: find_SomeD)

text \<open>Replacing a child by one of its successors is a transition of the whole list.\<close>

lemma put_child_trans:
  assumes "child_mut r parent cid = Inr c" and "child_trans c c'"
  shows "\<exists>as bs. children r = as @ c # bs \<and> put_child r parent cid c' = r\<lparr>children := as @ c' # bs\<rparr>"
    and "children_trans (children r) (children (put_child r parent cid c'))"
proof -
  from update_first_split [of "is_child parent cid" "children r" c "\<lambda>_. c'"]
  obtain as bs where *: "children r = as @ c # bs"
    "update_first (is_child parent cid) (\<lambda>_. c') (children r) = as @ c' # bs"
    using child_mutD [OF assms(1)] by auto
  then show "\<exists>as bs. children r = as @ c # bs \<and>
      put_child r parent cid c' = r\<lparr>children := as @ c' # bs\<rparr>"
    by (metis put_child_def)
  show "children_trans (children r) (children (put_child r parent cid c'))"
    using * assms(2) by (auto simp: put_child_def intro!: list_all2_appendI)
qed

lemma put_child_limits:
  "child_mut r parent cid = Inr c \<Longrightarrow> child_trans c c' \<Longrightarrow> registry_limits d r \<Longrightarrow>
     registry_limits d (put_child r parent cid c')"
  using registry_limits_trans put_child_trans(2) by (fastforce simp: put_child_def)

lemma put_child_ids:
  assumes r: "registry_ids r" and c: "child_mut r parent cid = Inr c" "child_trans c c'"
    and fresh: "\<And>x t. bound_session c' = Some t \<Longrightarrow> x \<in> set (children r) \<Longrightarrow>
      bound_session x = Some t \<Longrightarrow> x = c"
  shows "registry_ids (put_child r parent cid c')"
proof -
  obtain as bs where *: "children r = as @ c # bs"
    "put_child r parent cid c' = r\<lparr>children := as @ c' # bs\<rparr>"
    using put_child_trans(1) [OF c] by blast
  have "c_id c' = c_id c" using child_trans_identity [OF c(2)] by simp
  moreover have "c \<notin> set as" "c \<notin> set bs"
    using r * by (auto simp: registry_ids_def)
  ultimately have ids: "distinct (map c_id (as @ c' # bs))"
    using r * by (simp add: registry_ids_def)
  have "x = y"
    if xy: "x \<in> set (as @ c' # bs)" "y \<in> set (as @ c' # bs)"
      "bound_session x = Some t" "bound_session y = Some t" for x y t
  proof -
    have old: "z \<in> set (children r) \<and> z \<noteq> c" if "z \<in> set (as @ c' # bs)" "z \<noteq> c'" for z
      using that * \<open>c \<notin> set as\<close> \<open>c \<notin> set bs\<close> by auto
    show ?thesis
    proof (cases "x = c' \<or> y = c'")
      case True
      then show ?thesis using xy fresh [of t] old by metis
    next
      case False
      then have "x \<in> set (children r)" "y \<in> set (children r)" using xy old by blast+
      then show ?thesis
        using r xy(3,4) unfolding registry_ids_def by (metis option.distinct(1))
    qed
  qed
  note unique = this
  have cs: "children (put_child r parent cid c') = as @ c' # bs" using * by simp
  show ?thesis
    unfolding registry_ids_def cs
  proof (intro conjI ballI impI)
    fix x y
    assume "x \<in> set (as @ c' # bs)" "y \<in> set (as @ c' # bs)"
      "bound_session x \<noteq> None \<and> bound_session x = bound_session y"
    then show "x = y" using unique by (metis not_None_eq)
  qed (rule ids)
qed

section \<open>Every method keeps the invariant\<close>

text \<open>The shape of a successful call of each method.\<close>

lemma register_OkD:
  "register r params = (Inr x, r') \<Longrightarrow>
     r' = r\<lparr>targets := bm_insert (target_key (reg_target params)) (new_record params) (targets r)\<rparr> \<and>
     (bm_contains (targets r) (target_key (reg_target params)) \<or>
      length (targets r) < REGISTERED_TARGETS) \<and>
     x = describe r' (reg_target params)"
  by (auto simp: register_def Let_def split: if_splits)

lemma registry_bind_OkD:
  "registry_bind r p cid t = (Inr c', r') \<Longrightarrow>
     \<exists>c. child_mut r p cid = Inr c \<and> t \<noteq> p \<and>
       (\<forall>x. binding r t = Some x \<longrightarrow> c_id x = cid) \<and>
       (c_status c = Pending \<and> c' = c\<lparr>c_status := Running, c_session := Some t\<rparr> \<and>
          r' = put_child r p cid c'
        \<or> c_status c = Running \<and> c_session c = Some t \<and> c' = c \<and> r' = r)"
  by (auto simp: registry_bind_def Let_def split: if_splits option.splits sum.splits
      child_status.splits bind_splits)

lemma registry_fail_OkD:
  "registry_fail r p cid = (Inr c', r') \<Longrightarrow>
     \<exists>c. child_mut r p cid = Inr c \<and>
       (c_status c = Pending \<and> c' = c\<lparr>c_status := Failed\<rparr> \<and> r' = put_child r p cid c'
        \<or> c_status c = Failed \<and> c' = c \<and> r' = r)"
  by (auto simp: registry_fail_def Let_def split: sum.splits child_status.splits)

lemma registry_delete_OkD:
  "registry_delete r p sel = (Inr c', r') \<Longrightarrow>
     \<exists>cid c. selected_child r p sel = Inr cid \<and> child_mut r p cid = Inr c \<and>
       c' = c\<lparr>c_status := Deleted\<rparr> \<and> r' = put_child r p cid c'"
  by (auto simp: registry_delete_def Let_def split: sum.splits)

lemma check_admission_OkD:
  "check_admission rt r p params = Inr u \<Longrightarrow>
     length (live_children r p) < CHILDREN_PER_PARENT \<and> is_valid_name (spawn_name params) \<and>
     spawn_name params \<notin> set (map c_name (live_children r p)) \<and>
     trim (spawn_task params) \<noteq> [] \<and> length (spawn_task params) \<le> TASK"
  by (auto simp: check_admission_def list_ex_iff split: if_splits)

lemma admit_OkD:
  "admit rt r p params md now = (Inr c, r') \<Longrightarrow>
     r' = r\<lparr>children := children r @ [c]\<rparr> \<and> check_admission rt r p params = Inr () \<and>
     c_id c = new_child_id rt r now \<and> c_name c = spawn_name params \<and>
     c_task c = spawn_task params \<and> c_status c = Pending \<and> c_parent c = p \<and>
     c_session c = None \<and> c_depth c = sat_succ (depth r p) \<and> c_depth c \<le> md \<and>
     c_created_at c = now \<and>
     (\<exists>rec. record_of r p = Some rec \<and> h_supports_children (tr_host rec) \<and>
        c_session_dir c = tr_cwd rec)"
  by (auto simp: admit_def Let_def not_less split: if_splits option.splits sum.splits)

text \<open>A failed call leaves the registry as it was.\<close>

lemma register_Err: "register r params = (Inl e, r') \<Longrightarrow> r' = r"
  by (auto simp: register_def Let_def split: if_splits)

lemma registry_bind_Err: "registry_bind r p cid t = (Inl e, r') \<Longrightarrow> r' = r"
  by (auto simp: registry_bind_def Let_def split: if_splits option.splits sum.splits
      child_status.splits)

lemma registry_fail_Err: "registry_fail r p cid = (Inl e, r') \<Longrightarrow> r' = r"
  by (auto simp: registry_fail_def Let_def split: sum.splits child_status.splits)

lemma registry_delete_Err: "registry_delete r p sel = (Inl e, r') \<Longrightarrow> r' = r"
  by (auto simp: registry_delete_def Let_def split: sum.splits)

lemma admit_Err: "admit rt r p params md now = (Inl e, r') \<Longrightarrow> r' = r"
  by (auto simp: admit_def Let_def split: if_splits option.splits sum.splits)

lemmas method_Err =
  register_Err registry_bind_Err registry_fail_Err registry_delete_Err admit_Err

text \<open>Successful calls.\<close>

lemma register_limits:
  assumes "registry_limits d r" and "register r params = (Inr x, r')"
  shows "registry_limits d r'"
proof -
  let ?k = "target_key (reg_target params)"
  let ?rec = "new_record params"
  note rec = register_OkD [OF assms(2)]
  have wf: "bm_wf (targets r)" and keys: "\<forall>(k, rec) \<in> set (targets r). k = target_key (tr_target rec)"
    and len: "length (targets r) \<le> REGISTERED_TARGETS"
    using assms(1) by (auto simp: registry_limits_def targets_ok_def)
  have "\<forall>(k, rec) \<in> set (bm_insert ?k ?rec (targets r)). k = target_key (tr_target rec)"
    by (rule bm.ball_ins [OF wf keys]) (simp add: new_record_def)
  moreover have "length (bm_insert ?k ?rec (targets r)) \<le> REGISTERED_TARGETS"
    using rec len by (auto simp: bm.size_ins [OF wf] bm_contains_def)
  ultimately show ?thesis
    using assms(1) rec wf
    by (auto simp: registry_limits_def targets_ok_def live_children_def)
qed

lemma register_ids: "registry_ids r \<Longrightarrow> register r params = (Inr x, r') \<Longrightarrow> registry_ids r'"
  using register_OkD by (fastforce simp: registry_ids_def)

lemma registry_bind_keeps:
  assumes "registry_bind r p cid t = (Inr c', r')"
  shows "registry_limits d r \<Longrightarrow> registry_limits d r'"
    and "registry_ids r \<Longrightarrow> registry_ids r'"
    and "children_trans (children r) (children r')"
proof -
  obtain c where c: "child_mut r p cid = Inr c" "t \<noteq> p"
    "\<forall>x. binding r t = Some x \<longrightarrow> c_id x = cid"
    "c_status c = Pending \<and> c' = c\<lparr>c_status := Running, c_session := Some t\<rparr> \<and>
       r' = put_child r p cid c' \<or> r' = r"
    using registry_bind_OkD [OF assms] by blast
  have parent: "c_parent c = p" "c_id c = cid" "c \<in> set (children r)"
    using child_mutD [OF c(1)] by auto
  show "registry_limits d r \<Longrightarrow> registry_limits d r'"
    using c parent by (auto intro: put_child_limits child_trans.start)
  show "children_trans (children r) (children r')"
    using c parent by (auto intro: put_child_trans(2) child_trans.start)
  show "registry_ids r'" if ids: "registry_ids r"
  proof -
    have "x = c" if "x \<in> set (children r)" "bound_session x = Some t" for x
    proof -
      have "c_id x = c_id c" using binding_bound [OF ids that] c(3) parent by simp
      then show ?thesis
        using ids that(1) parent(3) by (metis registry_ids_def distinct_map inj_onD)
    qed
    note unique = this
    have "child_trans c (c\<lparr>c_status := Running, c_session := Some t\<rparr>)"
      if "c_status c = Pending" using that c(2) parent(1) by (auto intro: child_trans.start)
    note put = put_child_ids [OF ids c(1) this]
    from c(4) show ?thesis
    proof
      assume "c_status c = Pending \<and> c' = c\<lparr>c_status := Running, c_session := Some t\<rparr> \<and>
        r' = put_child r p cid c'"
      then show ?thesis using put unique by (simp add: bound_session_Some)
    qed (use ids in simp)
  qed
qed

lemma registry_fail_keeps:
  assumes "registry_fail r p cid = (Inr c', r')"
  shows "registry_limits d r \<Longrightarrow> registry_limits d r'"
    and "registry_ids r \<Longrightarrow> registry_ids r'"
    and "children_trans (children r) (children r')"
  using registry_fail_OkD [OF assms]
  by (auto intro: put_child_limits put_child_ids put_child_trans(2) child_trans.fails
      simp: bound_session_Some)

lemma registry_delete_keeps:
  assumes "registry_delete r p sel = (Inr c', r')"
  shows "registry_limits d r \<Longrightarrow> registry_limits d r'"
    and "registry_ids r \<Longrightarrow> registry_ids r'"
    and "children_trans (children r) (children r')"
  using registry_delete_OkD [OF assms]
  by (auto intro: put_child_limits put_child_ids put_child_trans(2) child_trans.delete
      simp: bound_session_Some)

text \<open>Admission appends one pending child.\<close>

lemma find_child_id_spec:
  "find_child_id hash cs salt \<noteq> [] \<Longrightarrow> \<forall>c \<in> set cs. c_id c \<noteq> find_child_id hash cs salt"
proof (induction hash cs salt rule: find_child_id.induct)
  case (1 hash cs salt)
  then show ?case
    by (auto simp: find_child_id.simps [of hash cs salt] Let_def list_all_iff split: if_splits)
qed

lemma admit_limits:
  assumes "registry_limits d r" and "admit rt r p params md now = (Inr c, r')" and "unat md = d"
  shows "registry_limits d r'"
proof -
  note a = admit_OkD [OF assms(2)]
  note adm = check_admission_OkD [of rt r p params "()"]
  have "c_depth c \<le> md" using a by blast
  then have "unat (c_depth c) \<le> d" using assms(3) by (simp add: word_le_nat_alt)
  moreover have "1 \<le> unat (c_depth c)" using a by (simp add: sat_succ_unat)
  ultimately have "child_ok d c" using a adm by (simp add: child_ok_def)
  moreover have "live_children r' q =
      live_children r q @ (if q = p then [c] else [])" for q
    using a by (auto simp: live_children_def is_deleted_def)
  ultimately show ?thesis
    using a adm assms(1) by (auto simp: registry_limits_def targets_ok_def)
qed

lemma admit_ids:
  assumes "registry_ids r" and "admit rt r p params md now = (Inr c, r')"
    and "new_child_id rt r now \<noteq> []"
  shows "registry_ids r'"
proof -
  note a = admit_OkD [OF assms(2)]
  have "c_id c \<notin> set (map c_id (children r))"
    using find_child_id_spec assms(3) a by (force simp: new_child_id_def)
  moreover have none: "bound_session c = None" using a by (simp add: bound_session_def)
  moreover have cs: "children r' = children r @ [c]" using a by simp
  ultimately have "distinct (map c_id (children r'))"
    using assms(1) by (simp add: registry_ids_def)
  moreover have "x = y" if "x \<in> set (children r')" "y \<in> set (children r')"
    "bound_session x \<noteq> None" "bound_session x = bound_session y" for x y
  proof -
    have "x \<in> set (children r)" "y \<in> set (children r)" using that cs none by auto
    then show ?thesis using that(3,4) assms(1) unfolding registry_ids_def by blast
  qed
  ultimately show ?thesis unfolding registry_ids_def by blast
qed

interpretation reg_register: transaction "\<lambda>r. register r params" "registry_inv d"
  for params d
  by unfold_locales (auto dest: register_Err intro: register_limits register_ids)

interpretation reg_bind: transaction "\<lambda>r. registry_bind r p cid t" "registry_inv d"
  for p cid t d
  by unfold_locales (auto dest: registry_bind_Err registry_bind_keeps)

interpretation reg_fail: transaction "\<lambda>r. registry_fail r p cid" "registry_inv d"
  for p cid d
  by unfold_locales (auto dest: registry_fail_Err registry_fail_keeps)

interpretation reg_delete: transaction "\<lambda>r. registry_delete r p sel" "registry_inv d"
  for p sel d
  by unfold_locales (auto dest: registry_delete_Err registry_delete_keeps)

interpretation reg_admit: transaction "\<lambda>r. admit rt r p params md now" "registry_limits (unat md)"
  for rt p params md now
  by unfold_locales (auto dest: admit_Err intro: admit_limits)

end
