(* ===== verification/Queue.thy ===== *)
theory Queue
  imports Bounds
begin

text \<open>
  \<open>crates/daemon/src/queue.rs\<close>: the per-target replay-until-ack event queue, one function per
  method of \<open>EventQueue\<close>, its drop policy, its file form, and its invariant \<open>queue_inv\<close>. The
  locale \<open>replay_queue\<close> states what listeners and handlers rely on.
\<close>

record queued_event =
  qe_event :: event
  qe_delivered :: bool

abbreviation qe_id :: "queued_event \<Rightarrow> string" where "qe_id q \<equiv> e_id (qe_event q)"

type_synonym event_queue = "(string, queued_event list) btree"
type_synonym queue_file = "queued_event list"

definition queue_default :: event_queue where
  "queue_default = []"

text \<open>\<open>entry(key).or_default()\<close>.\<close>

definition entry_or_default :: "event_queue \<Rightarrow> string \<Rightarrow> queued_event list" where
  "entry_or_default q key = (case bm_get q key of None \<Rightarrow> [] | Some es \<Rightarrow> es)"

definition file_step :: "event_queue \<Rightarrow> queued_event \<Rightarrow> event_queue" where
  "file_step q queued =
     (let key = target_key (e_target (qe_event queued))
      in bm_insert key (entry_or_default q key @ [queued]) q)"

definition from_file :: "queue_file \<Rightarrow> event_queue" where
  "from_file events = foldl file_step queue_default events"

definition to_file :: "event_queue \<Rightarrow> queue_file" where
  "to_file q = concat (bm_values q)"

text \<open>The overflow loop of \<open>push\<close>: while over the bound, drop the oldest event that is not
  actionable, or the oldest one.\<close>

function drop_overflow :: "queued_event list \<Rightarrow> queued_event list" where
  "drop_overflow queue =
     (if QUEUED_EVENTS < length queue then
        let drop_at = (case position (\<lambda>q. \<not> e_actionable (qe_event q)) queue of
                         None \<Rightarrow> 0 | Some i \<Rightarrow> i)
        in drop_overflow (remove_at drop_at queue)
      else queue)"
  by pat_completeness auto
termination
  by (relation "measure length")
    (auto simp: QUEUED_EVENTS_def remove_at_def dest: position_SomeD split: option.splits)

declare drop_overflow.simps [simp del]

definition push :: "event_queue \<Rightarrow> event \<Rightarrow> string \<times> event_queue" where
  "push q event =
     (let id = e_id event;
          key = target_key (e_target event);
          queue = entry_or_default q key
      in if list_ex (\<lambda>queued. qe_id queued = id) queue
         then (id, bm_insert key queue q)
         else (id, bm_insert key
                     (drop_overflow (queue @ [\<lparr>qe_event = event, qe_delivered = False\<rparr>])) q))"

definition list_events :: "event_queue \<Rightarrow> target \<Rightarrow> event list" where
  "list_events q t =
     (case bm_get q (target_key t) of None \<Rightarrow> [] | Some queue \<Rightarrow> map qe_event queue)"

definition ack :: "event_queue \<Rightarrow> target \<Rightarrow> string list \<Rightarrow> nat \<times> event_queue" where
  "ack q t ids =
     (case bm_get q (target_key t) of
        None \<Rightarrow> (0, q)
      | Some queue \<Rightarrow>
          let kept = filter (\<lambda>queued. qe_id queued \<notin> set ids) queue;
              acked = length queue - length kept
          in (acked, if kept = [] then bm_remove (target_key t) q
                     else bm_insert (target_key t) kept q))"

definition withdraw :: "event_queue \<Rightarrow> target \<Rightarrow> string \<Rightarrow> bool \<times> event_queue" where
  "withdraw q t eid =
     (case bm_get q (target_key t) of
        None \<Rightarrow> (False, q)
      | Some queue \<Rightarrow>
          (case position (\<lambda>queued. qe_id queued = eid \<and> \<not> qe_delivered queued) queue of
             None \<Rightarrow> (False, q)
           | Some index \<Rightarrow> (True, bm_insert (target_key t) (remove_at index queue) q)))"

definition hand_out :: "event_queue \<Rightarrow> target \<Rightarrow> string set \<Rightarrow> event list \<times> event_queue" where
  "hand_out q t seen =
     (case bm_get q (target_key t) of
        None \<Rightarrow> ([], q)
      | Some queue \<Rightarrow>
          (map qe_event (filter (\<lambda>queued. qe_id queued \<notin> seen) queue),
           bm_insert (target_key t)
             (map (\<lambda>queued. if qe_id queued \<notin> seen then queued\<lparr>qe_delivered := True\<rparr>
                            else queued) queue) q))"

section \<open>The queue of one target\<close>

text \<open>The queue of a target with the delivery marks: what every operation is specified over.\<close>

definition queue_of :: "event_queue \<Rightarrow> target \<Rightarrow> queued_event list" where
  "queue_of q t = entry_or_default q (target_key t)"

lemma list_events_queue_of: "list_events q t = map qe_event (queue_of q t)"
  by (simp add: list_events_def queue_of_def entry_or_default_def split: option.splits)

lemma queue_of_insert [simp]:
  "queue_of (bm_insert (target_key t) es q) t' = (if t' = t then es else queue_of q t')"
  by (simp add: queue_of_def entry_or_default_def)

lemma queue_of_remove [simp]:
  "bm_wf q \<Longrightarrow> queue_of (bm_remove (target_key t) q) t' = (if t' = t then [] else queue_of q t')"
  by (simp add: queue_of_def entry_or_default_def)

lemma queue_of_default [simp]: "queue_of queue_default t = []"
  by (simp add: queue_of_def entry_or_default_def queue_default_def)

text \<open>What a push does to the queue of its target, as one function of that queue.\<close>

definition add_event :: "event \<Rightarrow> queued_event list \<Rightarrow> queued_event list" where
  "add_event event es =
     (if e_id event \<in> set (map qe_id es) then es
      else drop_overflow (es @ [\<lparr>qe_event = event, qe_delivered = False\<rparr>]))"

lemma push_spec: "push q e = (e_id e, bm_insert (target_key (e_target e))
    (add_event e (queue_of q (e_target e))) q)"
proof -
  have "list_ex (\<lambda>x. qe_id x = e_id e) es \<longleftrightarrow> e_id e \<in> set (map qe_id es)" for es
    by (induction es) auto
  then show ?thesis by (simp add: push_def add_event_def queue_of_def Let_def)
qed

lemma queue_of_push:
  "queue_of (snd (push q e)) t = (if t = e_target e then add_event e (queue_of q t) else queue_of q t)"
  by (simp add: push_spec)

lemma push_id [simp]: "fst (push q e) = e_id e"
  by (simp add: push_spec)

lemma queue_of_ack:
  assumes "bm_wf q"
  shows "queue_of (snd (ack q t ids)) t' =
    (if t' = t then filter (\<lambda>x. qe_id x \<notin> set ids) (queue_of q t) else queue_of q t')"
proof (cases "bm_get q (target_key t)")
  case None
  then have "queue_of q t = []" by (simp add: queue_of_def entry_or_default_def)
  with None show ?thesis by (simp add: ack_def)
next
  case (Some es)
  then have "queue_of q t = es" by (simp add: queue_of_def entry_or_default_def)
  with Some assms show ?thesis by (simp add: ack_def Let_def)
qed

lemma ack_count:
  "fst (ack q t ids) = length (filter (\<lambda>x. qe_id x \<in> set ids) (queue_of q t))"
proof -
  have "length (filter (\<lambda>x. qe_id x \<in> set ids) es) =
      length es - length (filter (\<lambda>x. qe_id x \<notin> set ids) es)" for es :: "queued_event list"
    using sum_length_filter_compl [of "\<lambda>x. qe_id x \<in> set ids" es] by simp
  then show ?thesis
    by (simp add: ack_def queue_of_def entry_or_default_def Let_def split: option.splits)
qed

lemma queue_of_hand_out:
  "queue_of (snd (hand_out q t seen)) t' =
    (if t' = t then map (\<lambda>x. if qe_id x \<notin> seen then x\<lparr>qe_delivered := True\<rparr> else x) (queue_of q t)
     else queue_of q t')"
proof (cases "bm_get q (target_key t)")
  case None
  then have "queue_of q t = []" by (simp add: queue_of_def entry_or_default_def)
  with None show ?thesis by (simp add: hand_out_def)
next
  case (Some es)
  then have "queue_of q t = es" by (simp add: queue_of_def entry_or_default_def)
  with Some show ?thesis by (simp add: hand_out_def)
qed

lemma hand_out_events:
  "fst (hand_out q t seen) = map qe_event (filter (\<lambda>x. qe_id x \<notin> seen) (queue_of q t))"
  by (simp add: hand_out_def queue_of_def entry_or_default_def split: option.splits)

definition withdraw_from :: "string \<Rightarrow> queued_event list \<Rightarrow> queued_event list" where
  "withdraw_from eid es =
     (case position (\<lambda>x. qe_id x = eid \<and> \<not> qe_delivered x) es of
        None \<Rightarrow> es | Some i \<Rightarrow> remove_at i es)"

lemma queue_of_withdraw:
  "queue_of (snd (withdraw q t eid)) t' =
    (if t' = t then withdraw_from eid (queue_of q t) else queue_of q t')"
proof (cases "bm_get q (target_key t)")
  case None
  then have "queue_of q t = []" by (simp add: queue_of_def entry_or_default_def)
  with None show ?thesis by (simp add: withdraw_def withdraw_from_def)
next
  case (Some es)
  then have "queue_of q t = es" by (simp add: queue_of_def entry_or_default_def)
  with Some show ?thesis
    by (auto simp: withdraw_def withdraw_from_def simp del: position_None split: option.splits)
qed

lemma withdraw_result:
  "fst (withdraw q t eid) \<longleftrightarrow> (\<exists>x \<in> set (queue_of q t). qe_id x = eid \<and> \<not> qe_delivered x)"
  by (auto simp: withdraw_def queue_of_def entry_or_default_def split: option.splits
      dest!: position_SomeD) (metis nth_mem)

section \<open>Overflow\<close>

text \<open>The index of the event the loop drops next.\<close>

definition victim :: "queued_event list \<Rightarrow> nat" where
  "victim es = (case position (\<lambda>q. \<not> e_actionable (qe_event q)) es of None \<Rightarrow> 0 | Some i \<Rightarrow> i)"

lemma victim_less: "es \<noteq> [] \<Longrightarrow> victim es < length es"
  by (auto simp: victim_def dest: position_SomeD split: option.splits)

lemma drop_overflow_step:
  "drop_overflow es =
     (if QUEUED_EVENTS < length es then drop_overflow (remove_at (victim es) es) else es)"
  by (simp add: drop_overflow.simps [of es] victim_def Let_def)

lemma drop_overflow_induct [case_names over fit]:
  assumes "\<And>es. QUEUED_EVENTS < length es \<Longrightarrow> P (remove_at (victim es) es) \<Longrightarrow> P es"
    and "\<And>es. length es \<le> QUEUED_EVENTS \<Longrightarrow> P es"
  shows "P es"
proof (induction es rule: drop_overflow.induct)
  case (1 es)
  then show ?case
    using assms by (cases "QUEUED_EVENTS < length es") (auto simp: victim_def not_less)
qed

lemma drop_overflow_length: "length (drop_overflow es) \<le> QUEUED_EVENTS"
proof (induction es rule: drop_overflow_induct)
  case (over es)
  then show ?case by (simp add: drop_overflow_step [of es])
next
  case (fit es)
  then show ?case by (simp add: drop_overflow_step [of es])
qed

lemma drop_overflow_fit: "length es \<le> QUEUED_EVENTS \<Longrightarrow> drop_overflow es = es"
  by (simp add: drop_overflow_step [of es])

lemma drop_overflow_set: "set (drop_overflow es) \<subseteq> set es"
proof (induction es rule: drop_overflow_induct)
  case (over es)
  then have "drop_overflow es = drop_overflow (remove_at (victim es) es)"
    by (simp only: drop_overflow_step [of es] if_True)
  also have "set \<dots> \<subseteq> set (remove_at (victim es) es)" by (rule over.IH)
  also have "\<dots> \<subseteq> set es" by (rule set_remove_at)
  finally show ?case .
next
  case (fit es)
  then show ?case by (simp add: drop_overflow_fit)
qed

lemma drop_overflow_distinct: "distinct (map f es) \<Longrightarrow> distinct (map f (drop_overflow es))"
proof (induction es rule: drop_overflow_induct)
  case (over es)
  then show ?case
    by (simp add: drop_overflow_step [of es] map_remove_at distinct_remove_at)
next
  case (fit es)
  then show ?case by (simp add: drop_overflow_fit)
qed

text \<open>One event over the bound costs exactly one event.\<close>

lemma drop_overflow_one:
  assumes "length es = Suc QUEUED_EVENTS"
  shows "drop_overflow es = remove_at (victim es) es"
proof -
  have "es \<noteq> []" using assms by auto
  then have "length (remove_at (victim es) es) = QUEUED_EVENTS"
    using assms victim_less [of es] by simp
  then have "drop_overflow (remove_at (victim es) es) = remove_at (victim es) es"
    by (simp add: drop_overflow_fit)
  then show ?thesis using assms by (simp add: drop_overflow_step [of es])
qed

section \<open>Invariant\<close>

definition queue_ok :: "target \<Rightarrow> queued_event list \<Rightarrow> bool" where
  "queue_ok t es \<longleftrightarrow>
     length es \<le> QUEUED_EVENTS \<and> distinct (map qe_id es) \<and>
     (\<forall>x \<in> set es. e_target (qe_event x) = t)"

definition entry_ok :: "string \<times> queued_event list \<Rightarrow> bool" where
  "entry_ok entry \<longleftrightarrow> (\<exists>t. fst entry = target_key t \<and> queue_ok t (snd entry))"

definition queue_inv :: "event_queue \<Rightarrow> bool" where
  "queue_inv q \<longleftrightarrow> bm_wf q \<and> (\<forall>entry \<in> set q. entry_ok entry)"

lemma entry_ok_key [simp]: "entry_ok (target_key t, es) \<longleftrightarrow> queue_ok t es"
  by (auto simp: entry_ok_def)

lemma queue_inv_wf: "queue_inv q \<Longrightarrow> bm_wf q"
  by (simp add: queue_inv_def)

lemma queue_ok_Nil [simp]: "queue_ok t []"
  by (simp add: queue_ok_def)

lemma queue_inv_queue_of: "queue_inv q \<Longrightarrow> queue_ok t (queue_of q t)"
proof (cases "bm_get q (target_key t)")
  case None
  then show ?thesis by (simp add: queue_of_def entry_or_default_def)
next
  case (Some es)
  assume "queue_inv q"
  then have "queue_ok t es"
    using bm_get_mem [OF Some] unfolding queue_inv_def by (metis entry_ok_key)
  with Some show ?thesis by (simp add: queue_of_def entry_or_default_def)
qed

lemma queue_inv_insert: "queue_inv q \<Longrightarrow> queue_ok t es \<Longrightarrow> queue_inv (bm_insert (target_key t) es q)"
  unfolding queue_inv_def
  by (intro conjI bm_wf_insert) (blast, rule bm.ball_ins, auto)

lemma queue_inv_remove: "queue_inv q \<Longrightarrow> queue_inv (bm_remove k q)"
  unfolding queue_inv_def
  by (intro conjI bm_wf_remove) (blast, rule bm.ball_del, auto)

lemma queue_inv_default: "queue_inv queue_default"
  by (simp add: queue_inv_def queue_default_def)

lemma add_event_ok: "queue_ok (e_target e) es \<Longrightarrow> queue_ok (e_target e) (add_event e es)"
  using drop_overflow_set [of "es @ [\<lparr>qe_event = e, qe_delivered = False\<rparr>]"]
  by (fastforce simp: queue_ok_def add_event_def drop_overflow_length intro!: drop_overflow_distinct)

lemma push_inv: "queue_inv q \<Longrightarrow> queue_inv (snd (push q e))"
  by (simp add: push_spec queue_inv_insert queue_inv_queue_of add_event_ok)

lemma queue_ok_filter: "queue_ok t es \<Longrightarrow> queue_ok t (filter P es)"
  by (auto simp: queue_ok_def distinct_map_filter intro: order_trans [OF length_filter_le])

lemma ack_inv:
  assumes "queue_inv q"
  shows "queue_inv (snd (ack q t ids))"
proof (cases "bm_get q (target_key t)")
  case None
  with assms show ?thesis by (simp add: ack_def)
next
  case (Some es)
  then have "queue_ok t es"
    using queue_inv_queue_of [OF assms, of t] by (simp add: queue_of_def entry_or_default_def)
  with Some assms show ?thesis
    by (simp add: ack_def Let_def queue_inv_remove queue_inv_insert queue_ok_filter)
qed

lemma withdraw_from_ok: "queue_ok t es \<Longrightarrow> queue_ok t (withdraw_from eid es)"
  using set_remove_at
  by (fastforce simp: withdraw_from_def queue_ok_def map_remove_at distinct_remove_at
      dest: position_SomeD split: option.splits)

lemma withdraw_inv:
  assumes "queue_inv q"
  shows "queue_inv (snd (withdraw q t eid))"
proof (cases "bm_get q (target_key t)")
  case None
  with assms show ?thesis by (simp add: withdraw_def)
next
  case (Some es)
  then have "queue_ok t es"
    using queue_inv_queue_of [OF assms, of t] by (simp add: queue_of_def entry_or_default_def)
  then have "queue_ok t (withdraw_from eid es)" by (rule withdraw_from_ok)
  with Some assms show ?thesis
    by (auto simp: withdraw_def withdraw_from_def queue_inv_insert simp del: position_None
        split: option.splits)
qed

lemma mark_ok:
  "queue_ok t es \<Longrightarrow>
     queue_ok t (map (\<lambda>x. if qe_id x \<notin> seen then x\<lparr>qe_delivered := True\<rparr> else x) es)"
proof -
  have "map qe_id (map (\<lambda>x. if qe_id x \<notin> seen then x\<lparr>qe_delivered := True\<rparr> else x) es) = map qe_id es"
    by simp
  then show "queue_ok t es \<Longrightarrow> ?thesis"
    unfolding queue_ok_def by (auto simp del: map_map)
qed

lemma hand_out_inv:
  assumes "queue_inv q"
  shows "queue_inv (snd (hand_out q t seen))"
proof (cases "bm_get q (target_key t)")
  case None
  with assms show ?thesis by (simp add: hand_out_def)
next
  case (Some es)
  then have "queue_ok t es"
    using queue_inv_queue_of [OF assms, of t] by (simp add: queue_of_def entry_or_default_def)
  with Some assms show ?thesis
    by (simp add: hand_out_def queue_inv_insert mark_ok)
qed

section \<open>The file form\<close>

lemma bm_insert_end:
  "(\<forall>e \<in> set m. fst e < k) \<Longrightarrow> bm_insert k v (m @ [(k, w)]) = m @ [(k, v)]"
  by (induction k v m rule: bm_insert.induct) auto

lemma bm_get_end: "(\<forall>e \<in> set m. fst e < k) \<Longrightarrow> bm_get (m @ [(k, w)]) k = Some w"
  for k :: "'k::linorder"
  by (induction m) auto

lemma bm_get_beyond: "(\<forall>e \<in> set m. fst e < k) \<Longrightarrow> bm_get m k = None"
  for k :: "'k::linorder"
  by (simp flip: bm_get_None) auto

lemma foldl_file_step_same:
  assumes "\<forall>e \<in> set m. fst e < target_key t" and "\<forall>x \<in> set es. e_target (qe_event x) = t"
  shows "foldl file_step (m @ [(target_key t, pre)]) es = m @ [(target_key t, pre @ es)]"
  using assms(2)
proof (induction es arbitrary: pre)
  case Nil
  then show ?case by simp
next
  case (Cons x es)
  then have "file_step (m @ [(target_key t, pre)]) x = m @ [(target_key t, pre @ [x])]"
    using assms(1)
    by (simp add: file_step_def entry_or_default_def Let_def bm_get_end bm_insert_end)
  with Cons show ?case by simp
qed

lemma foldl_file_step_new:
  assumes "\<forall>e \<in> set m. fst e < target_key t" and "\<forall>x \<in> set es. e_target (qe_event x) = t"
    and "es \<noteq> []"
  shows "foldl file_step m es = m @ [(target_key t, es)]"
proof -
  obtain x xs where es: "es = x # xs" using assms(3) by (cases es) auto
  then have "file_step m x = m @ [(target_key t, [x])]"
    using assms(1,2)
    by (simp add: file_step_def entry_or_default_def Let_def bm_get_beyond bm_insert_last)
  with es assms(1,2) show ?thesis by (simp add: foldl_file_step_same)
qed

lemma foldl_file_step:
  "bm_wf (m @ q) \<Longrightarrow> (\<forall>entry \<in> set q. entry_ok entry) \<Longrightarrow>
     foldl file_step m (concat (bm_values q)) = m @ filter (\<lambda>e. snd e \<noteq> []) q"
proof (induction q arbitrary: m)
  case Nil
  then show ?case by simp
next
  case (Cons e q)
  obtain t es where e: "e = (target_key t, es)" "queue_ok t es"
    using Cons.prems(2) by (cases e) (auto simp: entry_ok_def)
  show ?case
  proof (cases "es = []")
    case True
    with e Cons.prems show ?thesis by (simp add: Cons.IH bm_wf_append)
  next
    case False
    have "foldl file_step m es = m @ [(target_key t, es)]"
      using e Cons.prems False
      by (intro foldl_file_step_new) (auto simp: bm_wf_append queue_ok_def)
    moreover have "bm_wf ((m @ [(target_key t, es)]) @ q)"
      using Cons.prems(1) e by simp
    ultimately show ?thesis
      using e False Cons.prems(2) Cons.IH [of "m @ [(target_key t, es)]"] by simp
  qed
qed

lemma from_file_to_file: "queue_inv q \<Longrightarrow> from_file (to_file q) = filter (\<lambda>e. snd e \<noteq> []) q"
  using foldl_file_step [of "[]" q] by (simp add: from_file_def to_file_def queue_default_def queue_inv_def)

lemma queue_of_nonempty_part:
  "bm_wf q \<Longrightarrow> queue_of (filter (\<lambda>e. snd e \<noteq> []) q) t = queue_of q t"
proof (induction q)
  case Nil
  then show ?case by simp
next
  case (Cons e q)
  obtain k es where e: "e = (k, es)" by (cases e)
  have "bm_get q k = None" if "k = target_key t"
    using Cons.prems e by (auto simp flip: bm_get_None)
  with Cons e show ?case
    by (auto simp: queue_of_def entry_or_default_def split: option.splits)
qed

lemma queue_of_from_file: "queue_inv q \<Longrightarrow> queue_of (from_file (to_file q)) t = queue_of q t"
  by (simp add: from_file_to_file queue_of_nonempty_part queue_inv_wf)

lemma filter_inv: "queue_inv q \<Longrightarrow> queue_inv (filter P q)"
  by (auto simp: queue_inv_def bm_wf_def sorted_wrt_filter sorted_wrt_map)

lemma from_file_inv: "queue_inv q \<Longrightarrow> queue_inv (from_file (to_file q))"
  by (simp add: from_file_to_file filter_inv)

section \<open>What listeners and handlers rely on\<close>

text \<open>
  A queue that replays until acked: handing out returns what the caller has not seen and marks
  it, nothing else; only an ack (or a withdrawal, or overflow) takes events away.
\<close>

definition mark_delivered :: "string set \<Rightarrow> queued_event list \<Rightarrow> queued_event list" where
  "mark_delivered seen =
     map (\<lambda>x. if qe_id x \<notin> seen then x\<lparr>qe_delivered := True\<rparr> else x)"

locale replay_queue =
  fixes contents :: "'q \<Rightarrow> target \<Rightarrow> queued_event list"
    and hand :: "'q \<Rightarrow> target \<Rightarrow> string set \<Rightarrow> event list \<times> 'q"
    and acked :: "'q \<Rightarrow> target \<Rightarrow> string list \<Rightarrow> nat \<times> 'q"
    and ok :: "'q \<Rightarrow> bool"
  assumes contents_hand:
      "contents (snd (hand q t seen)) t' =
        (if t' = t then mark_delivered seen (contents q t) else contents q t')"
    and hand_events:
      "fst (hand q t seen) = map qe_event (filter (\<lambda>x. qe_id x \<notin> seen) (contents q t))"
    and contents_ack: "ok q \<Longrightarrow> contents (snd (acked q t ids)) t' =
        (if t' = t then filter (\<lambda>x. qe_id x \<notin> set ids) (contents q t) else contents q t')"
    and ok_hand: "ok q \<Longrightarrow> ok (snd (hand q t seen))"
    and ok_ack: "ok q \<Longrightarrow> ok (snd (acked q t ids))"
begin

lemma hand_ids: "e_id ` set (fst (hand q t seen)) = qe_id ` set (contents q t) - seen"
  by (auto simp: hand_events)

lemma hand_keeps_events:
  "map qe_event (contents (snd (hand q t seen)) t') = map qe_event (contents q t')"
  by (simp add: contents_hand mark_delivered_def)

lemma hand_again:
  "fst (hand (snd (hand q t seen)) t (seen \<union> e_id ` set (fst (hand q t seen)))) = []"
  by (auto simp: hand_events contents_hand mark_delivered_def filter_empty_conv)

lemma hand_delivers:
  "x \<in> set (contents (snd (hand q t seen)) t) \<Longrightarrow> qe_id x \<in> seen \<or> qe_delivered x"
  by (auto simp: contents_hand mark_delivered_def split: if_splits)

lemma ack_only:
  "ok q \<Longrightarrow> x \<in> set (contents (snd (acked q t ids)) t') \<longleftrightarrow>
     x \<in> set (contents q t') \<and> (t' = t \<longrightarrow> qe_id x \<notin> set ids)"
  by (auto simp: contents_ack)

end

interpretation eq: replay_queue queue_of hand_out ack queue_inv
  by unfold_locales
    (simp_all add: queue_of_hand_out hand_out_events queue_of_ack queue_inv_wf hand_out_inv ack_inv
      mark_delivered_def)

end
