(* ===== verification/State.thy ===== *)
theory State
  imports Registry_Inv Queue
begin

text \<open>
  \<open>crates/daemon/src/state.rs\<close> and \<open>store.rs\<close>: the core (registry and queue) behind one lock,
  the update function that persists on success and wakes listeners, and the file store under it.
  A JSON codec (\<open>serde_json\<close> on the two persisted types) is a parameter, as are the outcomes of
  the file system calls.
\<close>

section \<open>The store\<close>

text \<open>What \<open>read_to_string\<close> sees at a path.\<close>

datatype disk_read = Contents string | Missing | Unreadable string

type_synonym files = "string \<Rightarrow> disk_read"

text \<open>
  How a save can go: the temporary file cannot be written completely (it may be left in any
  state), it is written and cannot be renamed, or all went well.
\<close>

datatype save_outcome = Write_Failed string disk_read | Rename_Failed string | Saved

text \<open>\<open>Path::join\<close> for the paths used here.\<close>

definition path_join :: "string \<Rightarrow> string \<Rightarrow> string" where
  "path_join dir name =
     (if starts_with ''/'' name then name
      else if dir = [] \<or> last dir = CHR ''/'' then dir @ name
      else dir @ ''/'' @ name)"

definition store_load ::
  "(string \<Rightarrow> (string, 'a) result) \<Rightarrow> files \<Rightarrow> string \<Rightarrow> string \<Rightarrow> (string, 'a option) result" where
  "store_load from_str files dir name =
     (let path = path_join dir name
      in case files path of
           Contents txt \<Rightarrow>
             (case from_str txt of
                Inr value \<Rightarrow> Inr (Some value)
              | Inl error \<Rightarrow> Inl (''invalid state at '' @ path @ '': '' @ error @
                                  ''; refusing to overwrite''))
         | Missing \<Rightarrow> Inr None
         | Unreadable error \<Rightarrow> Inl (''read '' @ path @ '': '' @ error))"

definition temporary_path :: "string \<Rightarrow> string \<Rightarrow> nat \<Rightarrow> string" where
  "temporary_path dir name pid = path_join dir (name @ ''.'' @ dec pid @ ''.tmp'')"

definition store_save ::
  "('a \<Rightarrow> (string, string) result) \<Rightarrow> save_outcome \<Rightarrow> nat \<Rightarrow> string \<Rightarrow> string \<Rightarrow> 'a \<Rightarrow> files \<Rightarrow>
     (string, unit) result \<times> files" where
  "store_save to_vec outcome pid dir name value files =
     (let path = path_join dir name;
          temporary = temporary_path dir name pid
      in case to_vec value of
           Inl error \<Rightarrow> (Inl error, files)
         | Inr bytes \<Rightarrow>
             (case outcome of
                Write_Failed error partial \<Rightarrow>
                  (Inl (''write '' @ path @ '': '' @ error), files(temporary := partial))
              | Rename_Failed error \<Rightarrow>
                  (Inl (''write '' @ path @ '': '' @ error),
                   files(temporary := Contents (bytes @ [newline])))
              | Saved \<Rightarrow>
                  (Inr (), files(temporary := Missing, path := Contents (bytes @ [newline])))))"

section \<open>The core\<close>

record core =
  core_registry :: registry
  core_queue :: event_queue
  core_notify :: "(string, unit) btree"

definition core_default :: core where
  "core_default =
     \<lparr>core_registry = registry_default, core_queue = queue_default, core_notify = []\<rparr>"

definition enqueue :: "core \<Rightarrow> event \<Rightarrow> string \<times> core" where
  "enqueue c event =
     (let notify = bm_insert (target_key (e_target event)) () (core_notify c);
          (eid, queue) = push (core_queue c) event
      in (eid, c\<lparr>core_notify := notify, core_queue := queue\<rparr>))"

text \<open>The operations of the registry and the queue, as the closures of \<open>update\<close> reach them.\<close>

definition on_registry :: "(registry \<Rightarrow> 'r \<times> registry) \<Rightarrow> core \<Rightarrow> 'r \<times> core" where
  "on_registry f c = (let (x, r) = f (core_registry c) in (x, c\<lparr>core_registry := r\<rparr>))"

definition on_queue :: "(event_queue \<Rightarrow> 'r \<times> event_queue) \<Rightarrow> core \<Rightarrow> 'r \<times> core" where
  "on_queue f c = (let (x, q) = f (core_queue c) in (x, c\<lparr>core_queue := q\<rparr>))"

section \<open>The state\<close>

record codecs =
  enc_registry :: "registry \<Rightarrow> (string, string) result"
  dec_registry :: "string \<Rightarrow> (string, registry) result"
  enc_queue :: "queue_file \<Rightarrow> (string, string) result"
  dec_queue :: "string \<Rightarrow> (string, queue_file) result"

record state =
  st_core :: core
  st_dir :: string
  st_files :: files
  st_changes :: "string list"
  st_log :: "string list"

definition REGISTRY_FILE :: string where "REGISTRY_FILE = ''registry.json''"
definition EVENTS_FILE :: string where "EVENTS_FILE = ''events.json''"

definition unwrap_or :: "'a \<Rightarrow> 'a option \<Rightarrow> 'a" where
  "unwrap_or d x = (case x of None \<Rightarrow> d | Some a \<Rightarrow> a)"

definition state_load :: "codecs \<Rightarrow> files \<Rightarrow> string \<Rightarrow> (string, state) result" where
  "state_load codec files dir =
     rbind (store_load (dec_registry codec) files dir REGISTRY_FILE) (\<lambda>registry.
     rbind (store_load (dec_queue codec) files dir EVENTS_FILE) (\<lambda>file.
       Inr \<lparr>st_core = \<lparr>core_registry = unwrap_or registry_default registry,
                        core_queue = from_file (unwrap_or [] file), core_notify = []\<rparr>,
            st_dir = dir, st_files = files, st_changes = [], st_log = []\<rparr>))"

definition persist :: "codecs \<Rightarrow> nat \<Rightarrow> save_outcome \<times> save_outcome \<Rightarrow> core \<Rightarrow> state \<Rightarrow> state" where
  "persist codec pid io c st =
     (let (saved, files) =
            store_save (enc_registry codec) (fst io) pid (st_dir st) REGISTRY_FILE
              (core_registry c) (st_files st);
          (saved, files) =
            (case saved of
               Inl error \<Rightarrow> (Inl error, files)
             | Inr _ \<Rightarrow> store_save (enc_queue codec) (snd io) pid (st_dir st) EVENTS_FILE
                          (to_file (core_queue c)) files)
      in st\<lparr>st_files := files,
            st_log := st_log st @
              (case saved of Inl error \<Rightarrow> [''persist state: '' @ error] | Inr _ \<Rightarrow> [])\<rparr>)"

text \<open>
  \<open>State::update\<close>: the change runs on the core, the notifications are taken out of it, the core
  is persisted if the change succeeded, and each key is then sent to the listeners.
\<close>

definition update ::
  "codecs \<Rightarrow> nat \<Rightarrow> save_outcome \<times> save_outcome \<Rightarrow> (core \<Rightarrow> 'r rpc_result \<times> core) \<Rightarrow> state \<Rightarrow>
     'r rpc_result \<times> state" where
  "update codec pid io change st =
     (let (result, changed) = change (st_core st);
          notify = bm_keys (core_notify changed);
          c = changed\<lparr>core_notify := []\<rparr>;
          st' = st\<lparr>st_core := c\<rparr>;
          st'' = (case result of Inl _ \<Rightarrow> st' | Inr _ \<Rightarrow> persist codec pid io c st')
      in (result, st''\<lparr>st_changes := st_changes st'' @ notify\<rparr>))"

definition flush :: "codecs \<Rightarrow> nat \<Rightarrow> save_outcome \<times> save_outcome \<Rightarrow> state \<Rightarrow> state" where
  "flush codec pid io st = persist codec pid io (st_core st) st"

section \<open>Enqueueing\<close>

lemma enqueue_id [simp]: "fst (enqueue c e) = e_id e"
  by (simp add: enqueue_def Let_def split_beta)

lemma enqueue_fields [simp]:
  "core_registry (snd (enqueue c e)) = core_registry c"
  "core_queue (snd (enqueue c e)) = snd (push (core_queue c) e)"
  "core_notify (snd (enqueue c e)) = bm_insert (target_key (e_target e)) () (core_notify c)"
  by (simp_all add: enqueue_def Let_def split_beta)

lemma on_registry_simps [simp]:
  "fst (on_registry f c) = fst (f (core_registry c))"
  "core_registry (snd (on_registry f c)) = snd (f (core_registry c))"
  "core_queue (snd (on_registry f c)) = core_queue c"
  "core_notify (snd (on_registry f c)) = core_notify c"
  by (simp_all add: on_registry_def split_beta)

lemma on_queue_simps [simp]:
  "fst (on_queue f c) = fst (f (core_queue c))"
  "core_queue (snd (on_queue f c)) = snd (f (core_queue c))"
  "core_registry (snd (on_queue f c)) = core_registry c"
  "core_notify (snd (on_queue f c)) = core_notify c"
  by (simp_all add: on_queue_def split_beta)

section \<open>The invariant of the core\<close>

definition core_inv :: "(registry \<Rightarrow> bool) \<Rightarrow> core \<Rightarrow> bool" where
  "core_inv rinv c \<longleftrightarrow> rinv (core_registry c) \<and> queue_inv (core_queue c) \<and> bm_wf (core_notify c)"

lemma enqueue_inv: "core_inv rinv c \<Longrightarrow> core_inv rinv (snd (enqueue c e))"
  by (simp add: core_inv_def push_inv)

lemma core_inv_default: "rinv registry_default \<Longrightarrow> core_inv rinv core_default"
  by (simp add: core_inv_def core_default_def queue_inv_default)

text \<open>A transaction of the registry is one of the core.\<close>

locale registry_method = transaction op rinv
  for op :: "registry \<Rightarrow> (rpc_error, 'r) result \<times> registry" and rinv :: "registry \<Rightarrow> bool"

sublocale registry_method \<subseteq> core: transaction "on_registry op" "core_inv rinv"
proof
  fix s e s'
  assume "on_registry op s = (Inl e, s')"
  then have "op (core_registry s) = (Inl e, core_registry s')" "s' = s\<lparr>core_registry := core_registry s'\<rparr>"
    by (auto simp: on_registry_def split: prod.splits)
  with err_unchanged show "s' = s" by fastforce
next
  fix s r s'
  assume "core_inv rinv s" and "on_registry op s = (Inr r, s')"
  then have "op (core_registry s) = (Inr r, core_registry s')" "s' = s\<lparr>core_registry := core_registry s'\<rparr>"
    and "rinv (core_registry s)" "queue_inv (core_queue s)" "bm_wf (core_notify s)"
    by (auto simp: on_registry_def core_inv_def split: prod.splits)
  then show "core_inv rinv s'"
    using ok_keeps by (metis core.ext_inject core.surjective core.update_convs(1) core_inv_def)
qed

interpretation method_register: registry_method "\<lambda>r. register r params" "registry_inv d"
  for params d ..

interpretation method_bind: registry_method "\<lambda>r. registry_bind r p cid t" "registry_inv d"
  for p cid t d ..

interpretation method_fail: registry_method "\<lambda>r. registry_fail r p cid" "registry_inv d"
  for p cid d ..

interpretation method_delete: registry_method "\<lambda>r. registry_delete r p sel" "registry_inv d"
  for p sel d ..

interpretation method_admit: registry_method
  "\<lambda>r. admit rt r p params md now" "registry_limits (unat md)" for rt p params md now ..

section \<open>Paths of the state files\<close>

definition dir_prefix :: "string \<Rightarrow> string" where
  "dir_prefix dir = (if dir = [] \<or> last dir = CHR ''/'' then dir else dir @ ''/'')"

lemma path_join_relative: "\<not> starts_with ''/'' name \<Longrightarrow> path_join dir name = dir_prefix dir @ name"
  by (simp add: path_join_def dir_prefix_def)

lemma file_names_relative [simp]:
  "\<not> starts_with ''/'' REGISTRY_FILE" "\<not> starts_with ''/'' EVENTS_FILE"
  "\<not> starts_with ''/'' (REGISTRY_FILE @ x)" "\<not> starts_with ''/'' (EVENTS_FILE @ x)"
  by (simp_all add: starts_with_def REGISTRY_FILE_def EVENTS_FILE_def)

lemma state_paths_distinct [simp]:
  "path_join dir REGISTRY_FILE \<noteq> path_join dir EVENTS_FILE"
  "path_join dir EVENTS_FILE \<noteq> path_join dir REGISTRY_FILE"
  "path_join dir REGISTRY_FILE \<noteq> temporary_path dir REGISTRY_FILE pid"
  "path_join dir REGISTRY_FILE \<noteq> temporary_path dir EVENTS_FILE pid"
  "path_join dir EVENTS_FILE \<noteq> temporary_path dir REGISTRY_FILE pid"
  "path_join dir EVENTS_FILE \<noteq> temporary_path dir EVENTS_FILE pid"
  by (simp_all add: temporary_path_def path_join_relative)
    (simp_all add: REGISTRY_FILE_def EVENTS_FILE_def)

section \<open>Updates\<close>

lemma persist_core [simp]: "st_core (persist codec pid io c st) = st_core st"
  "st_dir (persist codec pid io c st) = st_dir st"
  "st_changes (persist codec pid io c st) = st_changes st"
  by (simp_all add: persist_def split_beta Let_def)

lemma update_result [simp]: "fst (update codec pid io change st) = fst (change (st_core st))"
  by (simp add: update_def split_beta Let_def)

lemma update_core [simp]:
  "st_core (snd (update codec pid io change st)) =
     snd (change (st_core st))\<lparr>core_notify := []\<rparr>"
  by (simp add: update_def split_beta Let_def split: sum.splits)

lemma update_dir [simp]: "st_dir (snd (update codec pid io change st)) = st_dir st"
  by (simp add: update_def split_beta Let_def split: sum.splits)

lemma update_files:
  "st_files (snd (update codec pid io change st)) =
     (case fst (change (st_core st)) of
        Inl _ \<Rightarrow> st_files st
      | Inr _ \<Rightarrow> st_files (persist codec pid io (snd (change (st_core st))\<lparr>core_notify := []\<rparr>) st))"
  by (simp add: update_def persist_def split_beta Let_def split: sum.splits)

lemma update_changes:
  "st_changes (snd (update codec pid io change st)) =
     st_changes st @ bm_keys (core_notify (snd (change (st_core st))))"
  by (simp add: update_def split_beta Let_def split: sum.splits)

text \<open>What is on disk after both saves went through.\<close>

lemma persist_saved:
  assumes "enc_registry codec (core_registry c) = Inr rb"
    and "enc_queue codec (to_file (core_queue c)) = Inr qb"
  shows "st_files (persist codec pid (Saved, Saved) c st) (path_join (st_dir st) REGISTRY_FILE) =
           Contents (rb @ [newline])"
    and "st_files (persist codec pid (Saved, Saved) c st) (path_join (st_dir st) EVENTS_FILE) =
           Contents (qb @ [newline])"
  using assms by (simp_all add: persist_def store_save_def Let_def)

text \<open>What was saved is loaded again, when the codec reads back what it wrote.\<close>

lemma saved_load:
  assumes "core_inv rinv c"
    and "files (path_join dir REGISTRY_FILE) = Contents (rb @ [newline])"
      "files (path_join dir EVENTS_FILE) = Contents (qb @ [newline])"
    and "dec_registry codec (rb @ [newline]) = Inr (core_registry c)"
      "dec_queue codec (qb @ [newline]) = Inr (to_file (core_queue c))"
  shows "\<exists>loaded. state_load codec files dir = Inr loaded \<and>
           core_registry (st_core loaded) = core_registry c \<and>
           (\<forall>t. queue_of (core_queue (st_core loaded)) t = queue_of (core_queue c) t) \<and>
           core_inv rinv (st_core loaded)"
proof -
  have "state_load codec files dir =
      Inr \<lparr>st_core = \<lparr>core_registry = core_registry c, core_queue = from_file (to_file (core_queue c)),
                        core_notify = []\<rparr>,
           st_dir = dir, st_files = files, st_changes = [], st_log = []\<rparr>"
    using assms by (simp add: state_load_def store_load_def unwrap_or_def)
  then show ?thesis
    using assms(1) by (auto simp: core_inv_def queue_of_from_file from_file_inv)
qed

text \<open>A save that fails, at whatever step, leaves the file it was for as it was.\<close>

lemma store_save_failed:
  assumes "store_save to_vec outcome pid dir name v files = (Inl e, files')"
    and "p \<noteq> temporary_path dir name pid"
  shows "files' p = files p"
  using assms by (auto simp: store_save_def Let_def split: sum.splits save_outcome.splits)

lemma core_inv_notify [simp]: "core_inv rinv (c\<lparr>core_notify := []\<rparr>) \<longleftrightarrow>
    rinv (core_registry c) \<and> queue_inv (core_queue c)"
  by (simp add: core_inv_def)

lemma core_invD:
  "core_inv rinv c \<Longrightarrow> rinv (core_registry c)" "core_inv rinv c \<Longrightarrow> queue_inv (core_queue c)"
  by (simp_all add: core_inv_def)

text \<open>The client side of the contract: what \<open>update\<close> makes of a transaction of the core.\<close>

locale core_change = transaction change "core_inv rinv"
  for change :: "core \<Rightarrow> (rpc_error, 'r) result \<times> core" and rinv :: "registry \<Rightarrow> bool"
begin

lemma update_failed:
  assumes "core_notify (st_core st) = []"
    and "fst (update codec pid io change st) = Inl e"
  shows "st_core (snd (update codec pid io change st)) = st_core st"
    and "st_files (snd (update codec pid io change st)) = st_files st"
    and "st_changes (snd (update codec pid io change st)) = st_changes st"
proof -
  have "snd (change (st_core st)) = st_core st"
    using assms(2) err_unchanged [of "st_core st" e] by (simp add: prod_eq_iff)
  then show "st_core (snd (update codec pid io change st)) = st_core st"
    and "st_files (snd (update codec pid io change st)) = st_files st"
    and "st_changes (snd (update codec pid io change st)) = st_changes st"
    using assms by (simp_all add: update_files update_changes)
qed

lemma update_keeps:
  "core_inv rinv (st_core st) \<Longrightarrow> core_inv rinv (st_core (snd (update codec pid io change st)))"
  using keeps [of "st_core st"] by (simp add: core_inv_def)

lemma update_reload:
  assumes inv: "core_inv rinv (st_core st)"
    and ok: "update codec pid (Saved, Saved) change st = (Inr r, st')"
    and reg: "enc_registry codec (core_registry (st_core st')) = Inr rb"
      "dec_registry codec (rb @ [newline]) = Inr (core_registry (st_core st'))"
    and que: "enc_queue codec (to_file (core_queue (st_core st'))) = Inr qb"
      "dec_queue codec (qb @ [newline]) = Inr (to_file (core_queue (st_core st')))"
  shows "\<exists>loaded. state_load codec (st_files st') (st_dir st') = Inr loaded \<and>
           core_registry (st_core loaded) = core_registry (st_core st') \<and>
           (\<forall>t. queue_of (core_queue (st_core loaded)) t = queue_of (core_queue (st_core st')) t) \<and>
           core_inv rinv (st_core loaded)"
proof -
  let ?c = "snd (change (st_core st))\<lparr>core_notify := []\<rparr>"
  have st': "st' = snd (update codec pid (Saved, Saved) change st)"
    and res: "fst (change (st_core st)) = Inr r"
    using ok update_result [of codec pid "(Saved, Saved)" change st] by (simp_all add: prod_eq_iff)
  have c: "st_core st' = ?c" and dir: "st_dir st' = st_dir st" by (simp_all add: st')
  have inv': "core_inv rinv (st_core st')"
    using update_keeps [OF inv] by (simp add: st')
  have files: "st_files st' = st_files (persist codec pid (Saved, Saved) ?c st)"
    using res by (simp add: st' update_files)
  have "st_files st' (path_join (st_dir st') REGISTRY_FILE) = Contents (rb @ [newline])"
    "st_files st' (path_join (st_dir st') EVENTS_FILE) = Contents (qb @ [newline])"
    using persist_saved [of codec ?c rb qb pid st] reg(1) que(1) by (simp_all add: files dir c)
  from saved_load [OF inv' this reg(2) que(2)] show ?thesis .
qed

end

sublocale registry_method \<subseteq> core_change "on_registry op" rinv ..

end
