(* ===== verification/Skills.thy ===== *)
theory Skills
  imports State
begin

text \<open>
  \<open>crates/daemon/src/skills.rs\<close>: the search path, the frontmatter of a \<open>SKILL.md\<close>, the loading of
  one skill directory and the discovery over all of them. The file system is the record
  \<open>skill_fs\<close>: which paths are directories, the entry paths a directory lists, what a file read
  returns, and \<open>to_string_lossy\<close> on a path.
\<close>

section \<open>Frontmatter\<close>

definition append_value :: "string \<Rightarrow> string \<Rightarrow> string" where
  "append_value v txt = (if v \<noteq> [] \<and> txt \<noteq> [] then v @ '' '' else v) @ txt"

definition quotes :: string where "quotes = [CHR 0x22, CHR 0x27]"

definition unquote :: "string \<Rightarrow> string" where
  "unquote v =
     (case List.map_filter (\<lambda>q. Option.bind (strip_prefix [q] v) (strip_suffix [q])) quotes of
        [] \<Rightarrow> v
      | inner # _ \<Rightarrow> inner)"

definition block_marker :: "string \<Rightarrow> bool" where
  "block_marker v \<longleftrightarrow> v = ''>'' \<or> v = ''|'' \<or> v = ''>-'' \<or> v = ''|-''"

definition indented :: "string \<Rightarrow> bool" where
  "indented l \<longleftrightarrow> l \<noteq> [] \<and> (hd l = CHR '' '' \<or> hd l = CHR 0x09)"

type_synonym field_map = "(string, string) btree"

fun frontmatter_fields :: "string list \<Rightarrow> field_map \<Rightarrow> string option \<Rightarrow> field_map option" where
  "frontmatter_fields [] fm last_key = None"
| "frontmatter_fields (l # ls) fm last_key =
     (if trim_end l = ''---'' then Some fm
      else if indented l then
        (case Option.bind last_key (\<lambda>k. map_option (Pair k) (bm_get fm k)) of
           None \<Rightarrow> frontmatter_fields ls fm last_key
         | Some (k, v) \<Rightarrow>
             frontmatter_fields ls (bm_insert k (append_value v (trim l)) fm) last_key)
      else
        (case split_once CHR '':'' l of
           None \<Rightarrow> frontmatter_fields ls fm last_key
         | Some (key, v) \<Rightarrow>
             let key = trim key;
                 v = unquote (trim v);
                 v = (if block_marker v then [] else v)
             in frontmatter_fields ls (bm_insert key v fm) (Some key)))"

definition frontmatter :: "string \<Rightarrow> field_map option" where
  "frontmatter txt =
     (case lines txt of
        [] \<Rightarrow> None
      | l # ls \<Rightarrow> if trim_end l \<noteq> ''---'' then None else frontmatter_fields ls [] None)"

section \<open>Discovery\<close>

record skill_fs =
  fs_is_dir :: "string \<Rightarrow> bool"
  fs_read_dir :: "string \<Rightarrow> string list option"
  fs_files :: files
  fs_lossy :: "string \<Rightarrow> string"

definition search_dirs :: "skill_fs \<Rightarrow> string option \<Rightarrow> string \<Rightarrow> string option \<Rightarrow> string list" where
  "search_dirs fs builtin config_dir cwd =
     filter (fs_is_dir fs)
       ((case builtin of None \<Rightarrow> [] | Some d \<Rightarrow> [d]) @ [path_join config_dir ''skills''] @
        (case cwd of None \<Rightarrow> [] | Some d \<Rightarrow> [path_join d ''.recurse/skills'']))"

text \<open>\<open>Path::file_name\<close> of a path that ends in a component.\<close>

definition file_name :: "string \<Rightarrow> string option" where
  "file_name path =
     (let name = rev (takeWhile (\<lambda>c. c \<noteq> CHR ''/'') (rev path))
      in if name = [] \<or> name = ''..'' then None else Some name)"

definition take_chars :: "nat \<Rightarrow> string \<Rightarrow> string" where
  "take_chars n s = concat (take n (chars s))"

definition skill_load :: "skill_fs \<Rightarrow> string \<Rightarrow> skill_info option" where
  "skill_load fs dir =
     (let path = path_join dir ''SKILL.md''
      in case fs_files fs path of
           Contents txt \<Rightarrow>
             Option.bind (frontmatter txt) (\<lambda>fm.
             Option.bind (map_option (fs_lossy fs) (file_name dir)) (\<lambda>fallback.
               let name = (case bm_get fm ''name'' of None \<Rightarrow> fallback | Some n \<Rightarrow> n)
               in if \<not> is_valid_name name then None
                  else Some
                    \<lparr>sk_name = name,
                     sk_description = (case bm_get fm ''description'' of
                                         None \<Rightarrow> [] | Some d \<Rightarrow> take_chars SKILL_DESCRIPTION d),
                     sk_path = fs_lossy fs path,
                     sk_python = (case bm_get fm ''python'' of
                                    None \<Rightarrow> None | Some v \<Rightarrow> if v = [] then None else Some v),
                     sk_hidden = (bm_get fm ''hidden'' = Some ''true'')\<rparr>))
         | Missing \<Rightarrow> None
         | Unreadable _ \<Rightarrow> None)"

definition dir_skills :: "skill_fs \<Rightarrow> string \<Rightarrow> skill_info list" where
  "dir_skills fs dir =
     (case fs_read_dir fs dir of
        None \<Rightarrow> []
      | Some entries \<Rightarrow> List.map_filter (skill_load fs) (sort entries))"

definition discover :: "skill_fs \<Rightarrow> string list \<Rightarrow> skill_info list" where
  "discover fs dirs =
     bm_values (fold (\<lambda>dir skills. fold (\<lambda>s. bm_insert (sk_name s) s) (dir_skills fs dir) skills) dirs [])"

section \<open>What discovery returns\<close>

text \<open>Every skill loaded, in the order of the search path.\<close>

definition loaded :: "skill_fs \<Rightarrow> string list \<Rightarrow> skill_info list" where
  "loaded fs dirs = concat (map (dir_skills fs) dirs)"

lemma discover_fold:
  "discover fs dirs = bm_values (fold (\<lambda>s. bm_insert (sk_name s) s) (loaded fs dirs) [])"
proof -
  have "fold (\<lambda>dir skills. fold (\<lambda>s. bm_insert (sk_name s) s) (dir_skills fs dir) skills) dirs m =
      fold (\<lambda>s. bm_insert (sk_name s) s) (concat (map (dir_skills fs) dirs)) m" for m
    by (induction dirs arbitrary: m) simp_all
  then show ?thesis by (simp add: discover_def loaded_def)
qed

lemma find_snoc:
  "List.find p (xs @ [x]) =
     (case List.find p xs of None \<Rightarrow> if p x then Some x else None | Some s \<Rightarrow> Some s)"
  by (induction xs) auto

text \<open>A map filled with \<open>insert\<close> holds the last value of each key, under that key.\<close>

lemma fold_insert_get:
  "bm_get (fold (\<lambda>s. bm_insert (f s) s) xs m) k =
     (case List.find (\<lambda>s. f s = k) (rev xs) of None \<Rightarrow> bm_get m k | Some s \<Rightarrow> Some s)"
proof (induction xs arbitrary: m)
  case (Cons x xs)
  have "List.find p (rev xs @ [x]) =
      (case List.find p (rev xs) of None \<Rightarrow> if p x then Some x else None | Some s \<Rightarrow> Some s)" for p
    by (rule find_snoc)
  then show ?case by (auto simp: Cons.IH split: option.splits)
qed simp

lemma fold_insert_wf:
  "bm_wf m \<Longrightarrow> \<forall>e \<in> set m. fst e = f (snd e) \<Longrightarrow>
     bm_wf (fold (\<lambda>s. bm_insert (f s) s) xs m) \<and>
     (\<forall>e \<in> set (fold (\<lambda>s. bm_insert (f s) s) xs m). fst e = f (snd e))"
proof (induction xs arbitrary: m)
  case (Cons x xs)
  have "\<forall>e \<in> set (bm_insert (f x) x m). fst e = f (snd e)"
    using set_bm_insert [of "f x" x m] Cons.prems(2) by auto
  then have "bm_wf (fold (\<lambda>s. bm_insert (f s) s) xs (bm_insert (f x) x m)) \<and>
      (\<forall>e \<in> set (fold (\<lambda>s. bm_insert (f s) s) xs (bm_insert (f x) x m)). fst e = f (snd e))"
    using Cons.prems(1) by (intro Cons.IH) simp_all
  then show ?case by simp
qed simp

lemma find_values:
  "bm_wf m \<Longrightarrow> \<forall>e \<in> set m. fst e = f (snd e) \<Longrightarrow>
     List.find (\<lambda>s. f s = k) (bm_values m) = bm_get m k"
  by (induction m) auto

lemma chars_take_chars [simp]: "chars (take_chars n s) = take n (chars s)"
proof (induction s arbitrary: n rule: chars.induct)
  case (2 c cs)
  show ?case
  proof (cases n)
    case (Suc k)
    let ?d = "dropWhile is_cont cs" and ?x = "concat (take k (chars (dropWhile is_cont cs)))"
    have "\<exists>r. ?d = ?x @ r"
      by (rule exI [of _ "concat (drop k (chars ?d))"])
        (metis append_take_drop_id concat_append concat_chars)
    then obtain r where r: "?d = ?x @ r" ..
    have "?x = [] \<or> \<not> is_cont (hd ?x)"
    proof (cases "?x = []")
      case False
      then have "?d \<noteq> []" "hd ?x = hd ?d" by (metis append_is_Nil_conv r, metis hd_append2 r)
      then show ?thesis using hd_dropWhile [of is_cont cs] by simp
    qed simp
    then have "takeWhile is_cont (takeWhile is_cont cs @ ?x) = takeWhile is_cont cs"
      and "dropWhile is_cont (takeWhile is_cont cs @ ?x) = ?x"
      by (auto simp: takeWhile_append_stop dropWhile_append_stop dest: set_takeWhileD)
    with 2 [of k] Suc show ?thesis by (simp add: take_chars_def)
  qed (simp add: take_chars_def)
qed (simp add: take_chars_def)

lemma skill_load_ok:
  assumes "skill_load fs dir = Some s"
  shows "is_valid_name (sk_name s)" "char_count (sk_description s) \<le> SKILL_DESCRIPTION"
    "sk_python s \<noteq> Some []"
  using assms
  by (auto simp: skill_load_def Let_def char_count_def split: disk_read.splits bind_splits
      if_splits option.splits)

lemma loaded_load: "s \<in> set (loaded fs dirs) \<Longrightarrow> \<exists>dir. skill_load fs dir = Some s"
  by (auto simp: loaded_def dir_skills_def List.map_filter_def split: option.splits)

text \<open>
  The skills a session sees are sorted by name without duplicates, their names are valid, their
  descriptions within the bound, and no entry point is empty.
\<close>

theorem discover_sorted_valid:
  "sorted_wrt (<) (map sk_name (discover fs dirs)) \<and>
   list_all (\<lambda>s. is_valid_name (sk_name s) \<and>
      char_count (sk_description s) \<le> SKILL_DESCRIPTION \<and> sk_python s \<noteq> Some [])
     (discover fs dirs)"
proof -
  let ?m = "fold (\<lambda>s. bm_insert (sk_name s) s) (loaded fs dirs) []"
  have wf: "bm_wf ?m" and keys: "\<forall>e \<in> set ?m. fst e = sk_name (snd e)"
    using fold_insert_wf [of "[]" sk_name "loaded fs dirs"] by auto
  have "map sk_name (bm_values ?m) = bm_keys ?m" using keys by (auto intro!: map_cong)
  then have "sorted_wrt (<) (map sk_name (discover fs dirs))"
    using wf unfolding discover_fold bm_wf_def by metis
  moreover have "\<exists>dir. skill_load fs dir = Some s" if listed: "s \<in> set (discover fs dirs)" for s
  proof -
    obtain k where "(k, s) \<in> set ?m" using listed by (auto simp: discover_fold)
    then have "bm_get ?m k = Some s" using bm_get_entry [OF wf] by blast
    then have "List.find (\<lambda>s. sk_name s = k) (rev (loaded fs dirs)) = Some s"
      by (auto simp: fold_insert_get split: option.splits)
    then show ?thesis using find_SomeD [of _ "rev (loaded fs dirs)" s] loaded_load by fastforce
  qed
  ultimately show ?thesis using skill_load_ok unfolding list_all_iff by blast
qed

text \<open>
  Later directories shadow earlier ones: for every name the skill listed is the one loaded last
  along the search path, and a name is listed exactly when some directory has a skill of that name.
\<close>

theorem discover_shadowing:
  "List.find (\<lambda>s. sk_name s = name) (discover fs dirs) =
     List.find (\<lambda>s. sk_name s = name) (rev (concat (map (dir_skills fs) dirs)))"
proof -
  let ?m = "fold (\<lambda>s. bm_insert (sk_name s) s) (loaded fs dirs) []"
  have "bm_wf ?m" "\<forall>e \<in> set ?m. fst e = sk_name (snd e)"
    using fold_insert_wf [of "[]" sk_name "loaded fs dirs"] by auto
  then have "List.find (\<lambda>s. sk_name s = name) (bm_values ?m) = bm_get ?m name"
    by (rule find_values)
  then show ?thesis
    by (simp add: discover_fold fold_insert_get loaded_def split: option.splits)
qed

section \<open>Frontmatter is read back\<close>

text \<open>
  Printable ASCII text without a blank at either end: the keys and values a frontmatter is written
  with. A value must not look quoted or like a block marker, a key has no colon.
\<close>

definition printable :: "char \<Rightarrow> bool" where
  "printable c \<longleftrightarrow> (32::nat) \<le> of_char c \<and> of_char c < (127::nat)"

definition plain :: "string \<Rightarrow> bool" where
  "plain s \<longleftrightarrow> s \<noteq> [] \<and> list_all printable s \<and> hd s \<noteq> CHR '' '' \<and> last s \<noteq> CHR '' ''"

definition plain_field :: "string \<times> string \<Rightarrow> bool" where
  "plain_field e \<longleftrightarrow>
     plain (fst e) \<and> CHR '':'' \<notin> set (fst e) \<and>
     plain (snd e) \<and> hd (snd e) \<notin> set quotes \<and> \<not> block_marker (snd e)"

definition render_field :: "string \<times> string \<Rightarrow> string" where
  "render_field e = fst e @ '': '' @ snd e"

definition render_frontmatter :: "field_map \<Rightarrow> string" where
  "render_frontmatter fm =
     ''---'' @ [newline] @ concat (map (\<lambda>e. render_field e @ [newline]) fm) @ ''---'' @ [newline]"

lemma printable_not_cont: "printable c \<Longrightarrow> \<not> is_cont c"
  by (auto simp: printable_def dest!: is_cont_range)

lemma printable_ws: "printable c \<Longrightarrow> is_ws [c] \<longleftrightarrow> c = CHR '' ''"
  by (auto simp: printable_def is_ws_def white_space_def)

lemma chars_ascii: "list_all printable s \<Longrightarrow> chars s = map (\<lambda>c. [c]) s"
proof (induction s rule: chars.induct)
  case (2 c cs)
  have "cs = [] \<or> \<not> is_cont (hd cs)" using 2(2) printable_not_cont by (cases cs) auto
  then have "takeWhile is_cont cs = []" "dropWhile is_cont cs = cs"
    by (cases cs; simp)+
  with 2 show ?case by simp
qed simp

lemma concat_singles [simp]: "concat (map (\<lambda>c. [c]) s) = s"
  by (induction s) auto

lemma trim_end_plain:
  assumes "list_all printable s" "s = [] \<or> last s \<noteq> CHR '' ''"
  shows "trim_end s = s"
proof (cases s rule: rev_cases)
  case (snoc t x)
  then have "\<not> is_ws [x]" using assms printable_ws by auto
  then have "dropWhile is_ws (rev (map (\<lambda>c. [c]) s)) = rev (map (\<lambda>c. [c]) s)" using snoc by simp
  then show ?thesis using assms(1) by (simp add: trim_end_def chars_ascii)
qed (simp add: trim_end_def)

lemma trim_start_plain:
  assumes "list_all printable s" "s \<noteq> []"
  shows "trim_start s = (if hd s = CHR '' '' then trim_start (tl s) else s)"
proof (cases s)
  case (Cons c cs)
  have "chars s = map (\<lambda>c. [c]) s" "chars cs = map (\<lambda>c. [c]) cs"
    using assms(1) Cons chars_ascii [of s] chars_ascii [of cs] by simp_all
  moreover have "is_ws [c] \<longleftrightarrow> c = CHR '' ''" using assms(1) Cons printable_ws by simp
  ultimately show ?thesis using Cons by (simp add: trim_start_def del: chars.simps)
qed (use assms(2) in simp)

lemma trim_plain:
  assumes "plain s"
  shows "trim s = s" "trim (CHR '' '' # s) = s"
  using assms trim_start_plain [of s] trim_start_plain [of "CHR '' '' # s"] trim_end_plain [of s]
  by (auto simp: plain_def trim_def printable_def)

lemma lines_cons:
  assumes "newline \<notin> set a" "a \<noteq> []" "last a \<noteq> carriage_return"
  shows "lines (a @ newline # rest) = a # lines rest"
proof -
  have "split_inclusive newline (a @ newline # rest) = (a @ [newline]) # split_inclusive newline rest"
    using assms(1) by (induction a) auto
  moreover have "strip_suffix [newline] (a @ [newline]) = Some a"
    by (simp add: strip_suffix_def)
  moreover have "strip_suffix [carriage_return] a = None"
    using assms(2,3) by (cases a rule: rev_cases) (simp_all add: strip_suffix_def)
  ultimately show ?thesis by (simp add: lines_def strip_eol_def)
qed

lemma plain_lines:
  assumes "list_all printable a" "a \<noteq> []"
  shows "lines (a @ newline # rest) = a # lines rest"
proof (rule lines_cons)
  have "printable (last a)" using assms by (simp add: list_all_iff)
  then show "last a \<noteq> carriage_return" by (auto simp: printable_def)
qed (use assms in \<open>auto simp: list_all_iff printable_def\<close>)

lemma unquote_plain: "v \<noteq> [] \<Longrightarrow> hd v \<notin> set quotes \<Longrightarrow> unquote v = v"
  by (cases v) (auto simp: unquote_def quotes_def List.map_filter_def)

lemma render_field_plain:
  assumes "plain_field e"
  shows "list_all printable (render_field e)" "render_field e \<noteq> []"
    "trim_end (render_field e) \<noteq> ''---''" "\<not> indented (render_field e)"
    "split_once CHR '':'' (render_field e) = Some (fst e, CHR '' '' # snd e)"
proof -
  show p: "list_all printable (render_field e)"
    using assms by (auto simp: plain_field_def plain_def render_field_def printable_def)
  show ne: "render_field e \<noteq> []" by (simp add: render_field_def)
  have "last (render_field e) \<noteq> CHR '' ''"
    using assms by (auto simp: plain_field_def plain_def render_field_def)
  then have "trim_end (render_field e) = render_field e" using p by (intro trim_end_plain) auto
  moreover have "CHR '':'' \<in> set (render_field e)" by (simp add: render_field_def)
  ultimately show "trim_end (render_field e) \<noteq> ''---''" by auto
  have "hd (render_field e) = hd (fst e)" "fst e \<noteq> []"
    using assms by (auto simp: render_field_def plain_field_def plain_def)
  moreover have "hd (fst e) \<noteq> CHR 0x09"
    using assms by (cases "fst e") (auto simp: plain_field_def plain_def printable_def)
  ultimately show "\<not> indented (render_field e)"
    using assms by (auto simp: indented_def plain_field_def plain_def)
  show "split_once CHR '':'' (render_field e) = Some (fst e, CHR '' '' # snd e)"
    using assms by (simp add: split_once_Some render_field_def plain_field_def)
qed

lemma frontmatter_fields_render:
  assumes "\<forall>e \<in> set es. plain_field e" and "bm_wf (done @ es)"
  shows "frontmatter_fields (map render_field es @ [''---'']) done lk = Some (done @ es)"
  using assms
proof (induction es arbitrary: "done" lk)
  case Nil
  have "trim_end ''---'' = ''---''" by (rule trim_end_plain) (simp_all add: printable_def)
  then show ?case by simp
next
  case (Cons e es)
  obtain k v where e: "e = (k, v)" by fastforce
  have pf: "plain_field (k, v)" using Cons.prems(1) e by simp
  note line = render_field_plain [OF pf]
  have kv: "plain k" "plain v" "hd v \<notin> set quotes" "\<not> block_marker v"
    using pf by (auto simp: plain_field_def)
  have wf: "bm_wf ((done @ [(k, v)]) @ es)" using Cons.prems(2) e by simp
  have ins: "bm_insert k v done = done @ [(k, v)]"
    using wf by (intro bm_insert_last) (simp add: bm_wf_append)
  have "v \<noteq> []" using kv(2) by (simp add: plain_def)
  then have "frontmatter_fields (render_field e # map render_field es @ [''---'']) done lk =
      frontmatter_fields (map render_field es @ [''---'']) (done @ [(k, v)]) (Some k)"
    using line kv by (simp add: e trim_plain unquote_plain ins)
  also have "\<dots> = Some ((done @ [(k, v)]) @ es)"
    by (rule Cons.IH) (use Cons.prems(1) wf in auto)
  finally show ?case by (simp add: e)
qed

text \<open>
  C35. A frontmatter written from a map of plain fields is read back as that map.
\<close>

theorem frontmatter_roundtrip:
  assumes "bm_wf fm" "\<forall>e \<in> set fm. plain_field e"
  shows "frontmatter (render_frontmatter fm @ body) = Some fm"
proof -
  have dash: "list_all printable ''---''" by (simp add: printable_def)
  have ls: "lines (concat (map (\<lambda>e. render_field e @ [newline]) es) @ rest) =
      map render_field es @ lines rest" if "\<forall>e \<in> set es. plain_field e" for es rest
    using that by (induction es) (simp_all add: plain_lines render_field_plain)
  have stop: "frontmatter_fields (xs @ ys) m lk = Some m'"
    if "frontmatter_fields xs m lk = Some m'" for xs ys m lk m'
    using that
    by (induction xs m lk rule: frontmatter_fields.induct)
      (auto simp: Let_def split: if_splits option.splits)
  have "lines (render_frontmatter fm @ body) = ''---'' # (map render_field fm @ [''---'']) @ lines body"
    using plain_lines [OF dash, of "concat (map (\<lambda>e. render_field e @ [newline]) fm) @ ''---'' @ newline # body"]
      plain_lines [OF dash, of body] ls [OF assms(2), of "''---'' @ newline # body"]
    by (simp add: render_frontmatter_def)
  moreover have "trim_end ''---'' = ''---''" by (rule trim_end_plain) (simp_all add: printable_def)
  moreover have "frontmatter_fields (map render_field fm @ [''---'']) [] None = Some fm"
    using frontmatter_fields_render [of fm "[]" None] assms by simp
  moreover have "frontmatter_fields ((map render_field fm @ [''---'']) @ lines body) [] None = Some fm"
    by (rule stop) fact
  ultimately show ?thesis by (simp add: frontmatter_def)
qed

theorem frontmatter_roundtrip_witness:
  "frontmatter (render_frontmatter [(''hidden'', ''true''), (''name'', ''core'')] @ ''# body'') =
     Some [(''hidden'', ''true''), (''name'', ''core'')]"
  by (rule frontmatter_roundtrip)
    (simp_all add: plain_field_def plain_def printable_def quotes_def block_marker_def
      less_char_def)

end
