(* ===== verification/Options.thy ===== *)
theory Options
  imports Skills
begin

text \<open>
  \<open>crates/daemon/src/options.rs\<close> and \<open>paths.rs\<close>: the daemon's options, their defaults, the
  environment variables that override them, and the dflt directories. The environment is a map
  from names to values (bytes); \<open>bundled\<close>, which looks around the executable, is a parameter.
\<close>

type_synonym environment = "string \<Rightarrow> string option"

record options =
  o_port :: u16
  o_token :: "string option"
  o_state_dir :: string
  o_config_dir :: string
  o_kernel_path :: "string option"
  o_skills_dir :: "string option"
  o_python :: string
  o_max_depth :: u32
  o_cell_timeout_sec :: u64
  o_idle_exit_sec :: u64
  o_log_to_stderr :: bool
  o_ready_timeout :: nat
  o_interrupt_grace :: nat
  o_shutdown_grace :: nat
  o_heartbeat :: nat

section \<open>Default directories\<close>

definition non_empty :: "string option \<Rightarrow> string option" where
  "non_empty v = (case v of None \<Rightarrow> None | Some d \<Rightarrow> if d = [] then None else Some d)"

definition home_dir :: "environment \<Rightarrow> string" where
  "home_dir vars = (case vars ''HOME'' of None \<Rightarrow> ''.'' | Some d \<Rightarrow> d)"

definition state_dir :: "environment \<Rightarrow> string" where
  "state_dir vars =
     (case non_empty (vars ''RECURSE_STATE_DIR'') of
        Some d \<Rightarrow> d
      | None \<Rightarrow>
          path_join
            (case non_empty (vars ''XDG_STATE_HOME'') of
               None \<Rightarrow> path_join (home_dir vars) ''.local/state''
             | Some d \<Rightarrow> d)
            ''recurse'')"

definition config_dir :: "environment \<Rightarrow> string" where
  "config_dir vars =
     (case non_empty (vars ''RECURSE_CONFIG_DIR'') of
        None \<Rightarrow> path_join (home_dir vars) ''.config/recurse''
      | Some d \<Rightarrow> d)"

section \<open>Options\<close>

text \<open>Durations are in seconds.\<close>

definition options_new ::
  "(string \<Rightarrow> string \<Rightarrow> string option) \<Rightarrow> environment \<Rightarrow> string \<Rightarrow> options" where
  "options_new bundled vars dir =
     \<lparr>o_port = DEFAULT_PORT, o_token = None, o_state_dir = dir,
      o_config_dir = path_join (home_dir vars) ''.config/recurse'',
      o_kernel_path = bundled ''python'' ''recurse_kernel'', o_skills_dir = bundled ''skills'' '''',
      o_python = ''python3'', o_max_depth = 1, o_cell_timeout_sec = 600, o_idle_exit_sec = 0,
      o_log_to_stderr = True, o_ready_timeout = 10, o_interrupt_grace = 5, o_shutdown_grace = 5,
      o_heartbeat = 15\<rparr>"

text \<open>A variable that is not UTF-8, or empty, counts as absent.\<close>

definition env_var :: "environment \<Rightarrow> string \<Rightarrow> string option" where
  "env_var vars name =
     (case vars name of
        None \<Rightarrow> None
      | Some v \<Rightarrow> if valid_utf8 v \<and> v \<noteq> [] then Some v else None)"

definition parse_env :: "environment \<Rightarrow> nat \<Rightarrow> string \<Rightarrow> nat \<Rightarrow> (string, nat) result" where
  "parse_env vars largest name dflt =
     (case env_var vars name of
        Some v \<Rightarrow> ok_or (name @ '' is not a valid number: '' @ v) (parse_uint largest v)
      | None \<Rightarrow> Inr dflt)"

definition from_env ::
  "(string \<Rightarrow> string \<Rightarrow> string option) \<Rightarrow> environment \<Rightarrow> (string, options) result" where
  "from_env bundled vars =
     (let opts = options_new bundled vars (state_dir vars)
      in rbind
        (case env_var vars ''RECURSE_DAEMON_PORT'' of
           None \<Rightarrow> Inr opts
         | Some port \<Rightarrow>
             (case parse_uint u16_max port of
                None \<Rightarrow> Inl (''RECURSE_DAEMON_PORT is not a port: '' @ port)
              | Some n \<Rightarrow> Inr (opts\<lparr>o_port := of_nat n\<rparr>)))
        (\<lambda>opts.
          let opts = opts\<lparr>o_token := env_var vars ''RECURSE_DAEMON_TOKEN'',
                          o_config_dir := config_dir vars\<rparr>;
              opts = (case env_var vars ''RECURSE_KERNEL_PATH'' of
                        None \<Rightarrow> opts | Some p \<Rightarrow> opts\<lparr>o_kernel_path := Some p\<rparr>);
              opts = (case env_var vars ''RECURSE_SKILLS_DIR'' of
                        None \<Rightarrow> opts | Some p \<Rightarrow> opts\<lparr>o_skills_dir := Some p\<rparr>);
              opts = (case env_var vars ''RECURSE_PYTHON'' of
                        None \<Rightarrow> opts | Some p \<Rightarrow> opts\<lparr>o_python := p\<rparr>)
          in rbind (parse_env vars u32_max ''RECURSE_MAX_DEPTH'' (unat (o_max_depth opts))) (\<lambda>d.
             rbind (parse_env vars u64_max ''RECURSE_CELL_TIMEOUT_SEC''
                      (unat (o_cell_timeout_sec opts))) (\<lambda>t.
             rbind (parse_env vars u64_max ''RECURSE_IDLE_EXIT_SEC''
                      (unat (o_idle_exit_sec opts))) (\<lambda>i.
               Inr (opts\<lparr>o_max_depth := of_nat d, o_cell_timeout_sec := of_nat t,
                         o_idle_exit_sec := of_nat i\<rparr>))))))"

definition skill_dirs :: "skill_fs \<Rightarrow> options \<Rightarrow> string option \<Rightarrow> string list" where
  "skill_dirs fs opts cwd = search_dirs fs (o_skills_dir opts) (o_config_dir opts) cwd"

section \<open>What the variables decide\<close>

lemma parse_env_result:
  "parse_env vars largest name dflt = Inr n \<Longrightarrow> dflt \<le> largest \<Longrightarrow> n \<le> largest"
  by (auto simp: parse_env_def ok_or_def split: option.splits dest: parse_uint_bound)

lemma parse_env_dec:
  "vars name = Some (dec n) \<Longrightarrow> n \<le> largest \<Longrightarrow> valid_utf8 (dec n) \<Longrightarrow>
     parse_env vars largest name dflt = Inr n"
  by (simp add: parse_env_def env_var_def parse_uint_dec)

lemma digit_ascii: "c \<in> set digits10 \<Longrightarrow> printable c"
  by (auto simp: digits10_def printable_def)

lemma printable_utf8: "list_all printable s \<Longrightarrow> valid_utf8 s"
  by (auto simp: valid_utf8_def chars_ascii list_all_iff printable_def)

lemma dec_utf8 [simp]: "valid_utf8 (dec n)"
  using dec_digits [of n] digit_ascii by (intro printable_utf8) (auto simp: list_all_iff)

text \<open>
  Decimal numbers in the environment reach the options unchanged: with the four numeric
  variables set to decimals within their types' ranges, \<open>from_env\<close> succeeds and the options hold
  exactly these numbers.
\<close>

theorem from_env_numbers:
  assumes "vars ''RECURSE_DAEMON_PORT'' = Some (dec p)" "p \<le> u16_max"
    and "vars ''RECURSE_MAX_DEPTH'' = Some (dec d)" "d \<le> u32_max"
    and "vars ''RECURSE_CELL_TIMEOUT_SEC'' = Some (dec t)" "t \<le> u64_max"
    and "vars ''RECURSE_IDLE_EXIT_SEC'' = Some (dec i)" "i \<le> u64_max"
  shows "\<exists>opts. from_env bundled vars = Inr opts \<and> unat (o_port opts) = p \<and>
    unat (o_max_depth opts) = d \<and> unat (o_cell_timeout_sec opts) = t \<and>
    unat (o_idle_exit_sec opts) = i \<and> o_token opts = env_var vars ''RECURSE_DAEMON_TOKEN''"
proof -
  have port: "env_var vars ''RECURSE_DAEMON_PORT'' = Some (dec p)" "parse_uint u16_max (dec p) = Some p"
    using assms(1,2) by (simp_all add: env_var_def parse_uint_dec)
  note nums = parse_env_dec [of vars, OF assms(3,4) dec_utf8] parse_env_dec [of vars, OF assms(5,6) dec_utf8]
    parse_env_dec [of vars, OF assms(7,8) dec_utf8]
  have "unat (of_nat p :: u16) = p" "unat (of_nat d :: u32) = d" "unat (of_nat t :: u64) = t"
    "unat (of_nat i :: u64) = i"
    using assms by (simp_all add: unsigned_of_nat take_bit_nat_eq_self)
  then show ?thesis
    by (simp add: from_env_def Let_def port [simplified] nums [simplified] split: option.splits)
qed

theorem from_env_numbers_witness:
  "\<exists>opts. from_env (\<lambda>_ _. None) (\<lambda>name. Some (dec 5)) = Inr opts \<and> unat (o_port opts) = 5"
  using from_env_numbers [of "\<lambda>name. Some (dec 5)" 5 5 5 5 "\<lambda>_ _. None"] by auto

end
