(* ===== verification/Notices.thy ===== *)
theory Notices
  imports Bounds
begin

text \<open>
  \<open>crates/daemon/src/events.rs\<close>: the event constructors with their deterministic ids and texts.
  The time an event is stamped with (\<open>now_ms\<close>) is a parameter.
\<close>

abbreviation quote_char :: char where "quote_char \<equiv> CHR 0x22"

definition new_event ::
  "string \<Rightarrow> target \<Rightarrow> event_body \<Rightarrow> bool \<Rightarrow> string \<Rightarrow> u64 \<Rightarrow> event" where
  "new_event eid target body actionable txt now =
     \<lparr>e_id = eid, e_target = target, e_body = body, e_actionable = actionable, e_at = now,
      e_text = fst (clip_head txt EVENT_TEXT)\<rparr>"

definition child_prompt :: "child_info \<Rightarrow> string" where
  "child_prompt child =
     c_task child @ [newline, newline] @ ''---'' @ [newline] @
     ''You are recurse child `'' @ c_name child @ ''` ('' @ c_id child @
     ''). When you have an answer, reply with `await agent_message.send(message, receiver_role='' @
     [quote_char] @ ''parent'' @ [quote_char] @ '')`.''"

definition child_spawn :: "child_info \<Rightarrow> u64 \<Rightarrow> event" where
  "child_spawn child now =
     new_event (''child.spawn:'' @ c_id child) (c_parent child)
       (ChildSpawn \<lparr>sp_child = child, sp_prompt = child_prompt child\<rparr>) False
       (''[recurse] spawning child '' @ c_name child @ '' ('' @ c_id child @ '')'') now"

definition message_to_parent :: "child_info \<Rightarrow> u64 \<Rightarrow> string \<Rightarrow> u64 \<Rightarrow> event" where
  "message_to_parent child sequence msg now =
     new_event (''agent.message:'' @ c_id child @ '':'' @ dec (unat sequence)) (c_parent child)
       (AgentMessage
          \<lparr>am_from = \<lparr>mf_role = Role_Child, mf_name = Some (c_name child),
                      mf_child_id = Some (c_id child)\<rparr>,
           am_message = msg\<rparr>) True
       (''[recurse] message from child '' @ c_name child @ '' ('' @ c_id child @ ''):'' @
        [newline, newline] @ msg) now"

definition message_to_child :: "target \<Rightarrow> target \<Rightarrow> u64 \<Rightarrow> string \<Rightarrow> u64 \<Rightarrow> event" where
  "message_to_child parent receiver sequence msg now =
     new_event (''agent.message:'' @ target_key parent @ '':'' @ dec (unat sequence)) receiver
       (AgentMessage
          \<lparr>am_from = \<lparr>mf_role = Role_Parent, mf_name = None, mf_child_id = None\<rparr>,
           am_message = msg\<rparr>) True
       (''[recurse] message from parent:'' @ [newline, newline] @ msg) now"

definition bash_finished :: "target \<Rightarrow> u32 \<Rightarrow> bash_finished_params \<Rightarrow> u64 \<Rightarrow> event" where
  "bash_finished owner kernel_pid params now =
     (let exit = (case fin_exit_code params of None \<Rightarrow> ''unknown'' | Some c \<Rightarrow> dec_int (sint c))
      in new_event (''bash.finished:'' @ dec (unat kernel_pid) @ '':'' @ fin_handle_id params) owner
           (BashFinished
              \<lparr>bf_handle_id = fin_handle_id params, bf_pid = fin_pid params,
               bf_exit_code = fin_exit_code params, bf_command = fin_command params\<rparr>) True
           (''[recurse] Background command finished: pid '' @ dec (unat (fin_pid params)) @
            '', exit '' @ exit @ '' ('' @ fin_command params @
            ''). Inspect the saved handle with poll(), output(), or tail() and continue the task.'')
           now)"

definition kernel_exited :: "target \<Rightarrow> u32 \<Rightarrow> i32 option \<Rightarrow> i32 option \<Rightarrow> u64 \<Rightarrow> event" where
  "kernel_exited owner pid exit_code signal now =
     (let how = (case (signal, exit_code) of
                   (Some s, _) \<Rightarrow> ''signal '' @ dec_int (sint s)
                 | (None, Some c) \<Rightarrow> ''exit code '' @ dec_int (sint c)
                 | (None, None) \<Rightarrow> ''unknown status'')
      in new_event (''kernel.exited:'' @ dec (unat pid)) owner
           (KernelExited \<lparr>ke_pid = pid, ke_exit_code = exit_code, ke_signal = signal\<rparr>) False
           (''[recurse] Python kernel '' @ dec (unat pid) @ '' exited ('' @ how @
            ''). Its state is gone; the next ipython call starts a fresh kernel.'') now)"

lemma new_event_fields [simp]:
  "e_id (new_event i t b a x n) = i" "e_target (new_event i t b a x n) = t"
  "e_body (new_event i t b a x n) = b" "e_actionable (new_event i t b a x n) = a"
  "e_at (new_event i t b a x n) = n"
  "e_text (new_event i t b a x n) = fst (clip_head x EVENT_TEXT)"
  by (simp_all add: new_event_def)

lemma event_ids:
  "e_id (child_spawn c n) = ''child.spawn:'' @ c_id c"
  "e_id (message_to_parent c s m n) = ''agent.message:'' @ c_id c @ '':'' @ dec (unat s)"
  "e_id (message_to_child p t s m n) = ''agent.message:'' @ target_key p @ '':'' @ dec (unat s)"
  "e_id (bash_finished t k fp n) = ''bash.finished:'' @ dec (unat k) @ '':'' @ fin_handle_id fp"
  "e_id (kernel_exited t k x y n) = ''kernel.exited:'' @ dec (unat k)"
  by (simp_all add: child_spawn_def message_to_parent_def message_to_child_def bash_finished_def
      kernel_exited_def Let_def)

lemma event_targets [simp]:
  "e_target (child_spawn c n) = c_parent c"
  "e_target (message_to_parent c s m n) = c_parent c"
  "e_target (message_to_child p t s m n) = t"
  "e_target (bash_finished t k fp n) = t"
  "e_target (kernel_exited t k x y n) = t"
  by (simp_all add: child_spawn_def message_to_parent_def message_to_child_def bash_finished_def
      kernel_exited_def Let_def)

lemma event_actionable [simp]:
  "\<not> e_actionable (child_spawn c n)"
  "e_actionable (message_to_parent c s m n)"
  "e_actionable (message_to_child p t s m n)"
  "e_actionable (bash_finished t k fp n)"
  "\<not> e_actionable (kernel_exited t k x y n)"
  by (simp_all add: child_spawn_def message_to_parent_def message_to_child_def bash_finished_def
      kernel_exited_def Let_def)

text \<open>A sequence number is what follows the last colon of an id, so the sender is recoverable.\<close>

lemma last_colon_inject:
  "CHR '':'' \<notin> set b \<Longrightarrow> CHR '':'' \<notin> set b' \<Longrightarrow>
     a @ CHR '':'' # b = a' @ CHR '':'' # b' \<longleftrightarrow> a = a' \<and> b = b'"
proof
  assume b: "CHR '':'' \<notin> set b" "CHR '':'' \<notin> set b'"
    and eq: "a @ CHR '':'' # b = a' @ CHR '':'' # b'"
  have "rev b @ CHR '':'' # rev a = rev b' @ CHR '':'' # rev a'"
    using arg_cong [OF eq, of rev] by simp
  then show "a = a' \<and> b = b'"
    using append_sep_inject [of "CHR '':''" "rev b" "rev b'" "rev a" "rev a'"] b by simp
qed simp

lemma sequenced_id_inject:
  "s @ '':'' @ dec m = s' @ '':'' @ dec n \<longleftrightarrow> s = s' \<and> m = n"
  using last_colon_inject [of "dec m" "dec n" s s'] dec_no_colon [of m] dec_no_colon [of n]
  by simp

end
