(* ===== verification/Kernel_Handle.thy ===== *)
theory Kernel_Handle
  imports Notices
begin

text \<open>
  \<open>crates/daemon/src/kernel/handle.rs\<close> and the message dispatch of \<open>launch.rs\<close>: one running
  kernel process as the daemon sees it. Every critical section of \<open>Kernel\<close> (each use of its
  mutex) is one function on the record \<open>kernel\<close>; \<open>run_cell\<close> is cut at its await points into the
  stages of \<open>cell_stage\<close>. A oneshot channel is \<open>chan\<close>: open, holding a value, or closed because
  the sender was dropped. JSON values are carried and never looked at (\<open>'v\<close>).
\<close>

datatype 'a chan = Open | Sent 'a | Closed

datatype phase = Phase_Starting | Phase_Ready | Phase_Dead

text \<open>
  The channel to the writer task holds at most 64 messages; it is closed once the writer has
  failed and dropped its end. The senders of \<open>pending\<close> are those whose channel is open.
\<close>

record 'v kernel =
  k_started_at :: u64
  k_phase :: phase
  k_pid :: u32
  k_running_cell :: "string option"
  k_execution_count :: u64
  k_handles :: "handle_info list"
  k_pending :: "string list"
  k_results :: "string \<Rightarrow> cell_result chan"
  k_ready_held :: bool
  k_ready :: "unit chan"
  k_intentional :: bool
  k_queue :: "'v to_kernel list"
  k_writer :: bool
  k_kill :: bool
  k_exited :: bool
  k_cells :: u64

record exit_info =
  exit_pid :: u32
  exit_report :: bool

definition CHANNEL :: nat where "CHANNEL = 64"

definition unavailable :: "string \<Rightarrow> rpc_error" where
  "unavailable m = rpc_error_new KernelUnavailable m"

lemma code_unavailable [simp]: "code (unavailable m) = KernelUnavailable"
  by (simp add: unavailable_def)

definition kernel_new :: "u32 \<Rightarrow> u64 \<Rightarrow> 'v kernel" where
  "kernel_new pid started_at =
     \<lparr>k_started_at = started_at, k_phase = Phase_Starting, k_pid = pid, k_running_cell = None,
      k_execution_count = 0, k_handles = [], k_pending = [], k_results = (\<lambda>_. Open),
      k_ready_held = True, k_ready = Open, k_intentional = False, k_queue = [],
      k_writer = True, k_kill = False, k_exited = False, k_cells = 0\<rparr>"

definition is_ready :: "'v kernel \<Rightarrow> bool" where
  "is_ready k \<longleftrightarrow> k_phase k = Phase_Ready"

definition is_alive :: "'v kernel \<Rightarrow> bool" where
  "is_alive k \<longleftrightarrow> k_phase k \<noteq> Phase_Dead"

definition snapshot :: "'v kernel \<Rightarrow> kernel_state \<times> u32 \<times> u64 \<times> handle_info list" where
  "snapshot k =
     (let st = (case (k_phase k, k_running_cell k) of
                  (Phase_Starting, _) \<Rightarrow> Starting
                | (Phase_Ready, Some _) \<Rightarrow> Kernel_Busy
                | (Phase_Ready, None) \<Rightarrow> Idle
                | (Phase_Dead, _) \<Rightarrow> Dead)
      in (st, k_pid k, k_execution_count k, k_handles k))"

section \<open>Messages from the process\<close>

definition on_ready :: "u32 \<Rightarrow> 'v kernel \<Rightarrow> 'v kernel" where
  "on_ready pid k =
     (if k_phase k = Phase_Starting then
        let k' = k\<lparr>k_phase := Phase_Ready, k_pid := pid\<rparr>
        in if k_ready_held k' then k'\<lparr>k_ready_held := False, k_ready := Sent ()\<rparr> else k'
      else k)"

definition on_result :: "string \<Rightarrow> cell_result \<Rightarrow> 'v kernel \<Rightarrow> 'v kernel" where
  "on_result cell result k =
     (if cell \<in> set (k_pending k)
      then k\<lparr>k_pending := removeAll cell (k_pending k),
             k_results := (k_results k)(cell := Sent result)\<rparr>
      else k)"

definition on_handles :: "handle_info list \<Rightarrow> 'v kernel \<Rightarrow> 'v kernel" where
  "on_handles handles k = k\<lparr>k_handles := handles\<rparr>"

text \<open>Dropping the senders closes the channels that hold no value yet.\<close>

definition drop_senders :: "string list \<Rightarrow> (string \<Rightarrow> cell_result chan) \<Rightarrow> string \<Rightarrow> cell_result chan" where
  "drop_senders cells results = (\<lambda>c. if c \<in> set cells then Closed else results c)"

definition on_exit :: "'v kernel \<Rightarrow> exit_info \<times> 'v kernel" where
  "on_exit k =
     (let report = (k_phase k = Phase_Ready \<and> \<not> k_intentional k)
      in (\<lparr>exit_pid = k_pid k, exit_report = report\<rparr>,
          k\<lparr>k_phase := Phase_Dead,
            k_results := drop_senders (k_pending k) (k_results k), k_pending := [],
            k_ready := (if k_ready_held k then Closed else k_ready k), k_ready_held := False,
            k_handles := [], k_exited := True\<rparr>))"

definition kill :: "'v kernel \<Rightarrow> 'v kernel" where
  "kill k = k\<lparr>k_kill := True\<rparr>"

text \<open>The dispatch of a protocol line; a host request is handed to the caller.\<close>

datatype 'v kernel_effect =
  No_Effect
  | Run_Host_Request string string 'v
  | Write_Log string string

definition kernel_dispatch :: "'v from_kernel \<Rightarrow> 'v kernel \<Rightarrow> 'v kernel \<times> 'v kernel_effect" where
  "kernel_dispatch msg k =
     (case msg of
        Ready pid _ protocol \<Rightarrow>
          if protocol \<noteq> KERNEL_PROTOCOL_VERSION
          then (kill k, Write_Log ''error'' (''kernel speaks protocol '' @ dec (unat protocol)))
          else (on_ready pid k, No_Effect)
      | ExecuteResult cell result \<Rightarrow> (on_result cell result k, No_Effect)
      | HostRequest rid method params \<Rightarrow> (k, Run_Host_Request rid method params)
      | Handles handles \<Rightarrow> (on_handles handles k, No_Effect)
      | Log level m \<Rightarrow> (k, Write_Log level m))"

section \<open>Messages to the process\<close>

text \<open>\<open>try_send\<close> fails on a closed or full channel; \<open>send\<close> waits for room and fails when closed.\<close>

definition try_send :: "'v to_kernel \<Rightarrow> 'v kernel \<Rightarrow> bool \<times> 'v kernel" where
  "try_send m k =
     (if k_writer k \<and> length (k_queue k) < CHANNEL
      then (True, k\<lparr>k_queue := k_queue k @ [m]\<rparr>) else (False, k))"

definition interrupt :: "'v kernel \<Rightarrow> bool \<times> 'v kernel" where
  "interrupt k =
     (if k_running_cell k \<noteq> None then try_send Interrupt k else (False, k))"

text \<open>\<open>begin_stop\<close>, which is also how \<open>stop\<close> starts.\<close>

definition begin_stop :: "'v kernel \<Rightarrow> 'v kernel" where
  "begin_stop k = snd (try_send Shutdown (k\<lparr>k_intentional := True\<rparr>))"

section \<open>Running a cell\<close>

text \<open>
  The first section of \<open>run_cell\<close>: the cell gets its id and its channel. The counter moves
  (\<open>fetch_add\<close>, which wraps) before the phase is looked at; the id saturates.
\<close>

definition begin_cell :: "'v kernel \<Rightarrow> string rpc_result \<times> 'v kernel" where
  "begin_cell k =
     (let cell = ''x'' @ dec (unat (sat_succ (k_cells k)));
          k' = k\<lparr>k_cells := k_cells k + 1\<rparr>
      in if k_phase k' \<noteq> Phase_Ready
         then (Inl (unavailable ''kernel is not running''), k')
         else (Inr cell,
               k'\<lparr>k_pending := cell # removeAll cell (k_pending k'),
                  k_results := (k_results k')(cell := Open),
                  k_running_cell := Some cell\<rparr>))"

definition finish_cell ::
  "string \<Rightarrow> cell_result rpc_result \<Rightarrow> 'v kernel \<Rightarrow> cell_result rpc_result \<times> 'v kernel" where
  "finish_cell cell outcome k =
     (let k' = k\<lparr>k_pending := removeAll cell (k_pending k),
                 k_running_cell := (if k_running_cell k = Some cell then None
                                    else k_running_cell k)\<rparr>
      in case outcome of
           Inl e \<Rightarrow> (Inl e, k')
         | Inr r \<Rightarrow>
             let result = enforce_bounds r
             in (Inr result,
                 k'\<lparr>k_execution_count := max (k_execution_count k') (cr_execution_count result)\<rparr>))"

text \<open>The await points of \<open>run_cell\<close> and \<open>time_out\<close>.\<close>

datatype cell_stage =
  Send_Execute
  | Await_Result
  | Send_Interrupt
  | Await_Grace
  | Await_Exit
  | Finish "cell_result rpc_result"

definition millis_u64 :: "nat \<Rightarrow> u64" where
  "millis_u64 ms = (if ms \<le> u64_max then of_nat ms else - 1)"

definition ignored_interrupt :: string where
  "ignored_interrupt =
     ''[recurse] the cell ignored the interrupt; the kernel was killed and its state is gone'' @
     [newline]"

text \<open>
  One poll of the future. A timer of \<open>tokio::time::timeout\<close> only counts when the future under
  it is not ready. Sending waits while the channel is full. The elapsed time is an input.
\<close>

definition poll_cell ::
  "string \<Rightarrow> string \<Rightarrow> nat \<Rightarrow> bool \<Rightarrow> nat \<Rightarrow> cell_stage \<Rightarrow> 'v kernel \<Rightarrow> cell_stage \<times> 'v kernel" where
  "poll_cell cell src timeout timer elapsed stage k =
     (case stage of
        Send_Execute \<Rightarrow>
          if \<not> k_writer k then (Finish (Inl (unavailable ''kernel stdin is closed'')), k)
          else if length (k_queue k) < CHANNEL
          then (Await_Result,
                k\<lparr>k_queue := k_queue k @ [Execute cell src (millis_u64 timeout)]\<rparr>)
          else (Send_Execute, k)
      | Await_Result \<Rightarrow>
          (case k_results k cell of
             Sent r \<Rightarrow> (Finish (Inr r), k)
           | Closed \<Rightarrow> (Finish (Inl (unavailable ''kernel exited while running the cell'')), k)
           | Open \<Rightarrow> if timer then (Send_Interrupt, k) else (Await_Result, k))
      | Send_Interrupt \<Rightarrow>
          if \<not> k_writer k then (Await_Grace, k)
          else if length (k_queue k) < CHANNEL
          then (Await_Grace, k\<lparr>k_queue := k_queue k @ [Interrupt]\<rparr>)
          else (Send_Interrupt, k)
      | Await_Grace \<Rightarrow>
          (case k_results k cell of
             Sent r \<Rightarrow> (Finish (Inr (r\<lparr>cr_status := Cell_Timeout\<rparr>)), k)
           | Closed \<Rightarrow> (Await_Exit, kill k)
           | Open \<Rightarrow> if timer then (Await_Exit, kill k) else (Await_Grace, k))
      | Await_Exit \<Rightarrow>
          if k_exited k \<or> timer
          then (Finish (Inr ((cell_result_empty Cell_Timeout (k_execution_count k)
                               (millis_u64 elapsed))\<lparr>cr_stderr := ignored_interrupt\<rparr>)), k)
          else (Await_Exit, k)
      | Finish outcome \<Rightarrow> (Finish outcome, k))"

section \<open>Facts about the sections\<close>

lemma try_send_frame [simp]:
  "k_phase (snd (try_send m k)) = k_phase k"
  "k_running_cell (snd (try_send m k)) = k_running_cell k"
  "k_pending (snd (try_send m k)) = k_pending k"
  "k_results (snd (try_send m k)) = k_results k"
  "k_exited (snd (try_send m k)) = k_exited k"
  "k_cells (snd (try_send m k)) = k_cells k"
  by (simp_all add: try_send_def)

lemma interrupt_frame [simp]:
  "k_phase (snd (interrupt k)) = k_phase k"
  "k_running_cell (snd (interrupt k)) = k_running_cell k"
  "k_pending (snd (interrupt k)) = k_pending k"
  "k_cells (snd (interrupt k)) = k_cells k"
  by (simp_all add: interrupt_def)

lemma begin_stop_frame [simp]:
  "k_phase (begin_stop k) = k_phase k"
  "k_running_cell (begin_stop k) = k_running_cell k"
  "k_pending (begin_stop k) = k_pending k"
  "k_cells (begin_stop k) = k_cells k"
  by (simp_all add: begin_stop_def)

lemma dispatch_frame [simp]:
  "k_running_cell (fst (kernel_dispatch msg k)) = k_running_cell k"
  "k_cells (fst (kernel_dispatch msg k)) = k_cells k"
  by (simp_all add: kernel_dispatch_def on_ready_def on_result_def on_handles_def kill_def Let_def
      split: from_kernel.splits)

lemma poll_cell_frame [simp]:
  "k_running_cell (snd (poll_cell cell src t timer el stage k)) = k_running_cell k"
  "k_phase (snd (poll_cell cell src t timer el stage k)) = k_phase k"
  "k_cells (snd (poll_cell cell src t timer el stage k)) = k_cells k"
  by (simp_all add: poll_cell_def kill_def split: cell_stage.splits chan.splits)

lemma on_exit_frame [simp]:
  "k_running_cell (snd (on_exit k)) = k_running_cell k"
  "k_phase (snd (on_exit k)) = Phase_Dead" "k_exited (snd (on_exit k))"
  "k_pending (snd (on_exit k)) = []" "k_cells (snd (on_exit k)) = k_cells k"
  by (simp_all add: on_exit_def Let_def)

lemma finish_cell_frame:
  "k_running_cell (snd (finish_cell cell outcome k)) =
     (if k_running_cell k = Some cell then None else k_running_cell k)"
  "k_phase (snd (finish_cell cell outcome k)) = k_phase k"
  "k_cells (snd (finish_cell cell outcome k)) = k_cells k"
  by (simp_all add: finish_cell_def Let_def split: sum.splits)

lemma finish_cell_result:
  "fst (finish_cell cell outcome k) = map_sum id enforce_bounds outcome"
  by (simp add: finish_cell_def Let_def split: sum.splits)

end
