(* ===== verification/Kernel_Manager.thy ===== *)
theory Kernel_Manager
  imports Kernel_Handle Registry
begin

text \<open>
  \<open>crates/daemon/src/kernel/mod.rs\<close>: one slot per target with its busy flag and its kernel, and
  the execute call from the busy check to the release of the flag. Slots and kernels are shared
  (\<open>Arc\<close>), so they live in heaps and are named by numbers. A call is a future: it is polled, and
  it can be dropped (\<open>Cancel\<close>) when the client goes away; the guard clears the flag either way.
  One label of \<open>apply_label\<close> is one critical section of the code.
\<close>

record slot =
  s_busy :: bool
  s_kernel :: "nat option"

datatype call_stage =
  Check
  | Launch
  | Install nat
  | Await_Ready nat
  | Start_Cell nat
  | In_Cell nat string cell_stage
  | Release "cell_result rpc_result"

record call =
  call_slot :: nat
  call_code :: string
  call_timeout :: nat
  call_stage :: call_stage

record 'v manager =
  m_slots :: "(string, nat) btree"
  m_slot :: "nat \<Rightarrow> slot"
  m_next_slot :: nat
  m_kernel :: "nat \<Rightarrow> 'v kernel option"
  m_next_kernel :: nat
  m_call :: "nat \<Rightarrow> call option"
  m_next_call :: nat
  m_replies :: "(nat \<times> cell_result rpc_result) list"

definition slot_default :: slot where
  "slot_default = \<lparr>s_busy = False, s_kernel = None\<rparr>"

definition manager_default :: "'v manager" where
  "manager_default =
     \<lparr>m_slots = [], m_slot = (\<lambda>_. slot_default), m_next_slot = 0, m_kernel = (\<lambda>_. None),
      m_next_kernel = 0, m_call = (\<lambda>_. None), m_next_call = 0, m_replies = []\<rparr>"

section \<open>Slots\<close>

text \<open>\<open>slots().entry(key).or_default()\<close>.\<close>

definition slot_for :: "target \<Rightarrow> 'v manager \<Rightarrow> nat \<times> 'v manager" where
  "slot_for t m =
     (case bm_get (m_slots m) (target_key t) of
        Some s \<Rightarrow> (s, m)
      | None \<Rightarrow>
          (m_next_slot m,
           m\<lparr>m_slots := bm_insert (target_key t) (m_next_slot m) (m_slots m),
             m_slot := (m_slot m)(m_next_slot m := slot_default),
             m_next_slot := m_next_slot m + 1\<rparr>))"

definition existing :: "target \<Rightarrow> 'v manager \<Rightarrow> nat option" where
  "existing t m =
     Option.bind (bm_get (m_slots m) (target_key t)) (\<lambda>s. s_kernel (m_slot m s))"

definition set_busy :: "nat \<Rightarrow> bool \<Rightarrow> 'v manager \<Rightarrow> 'v manager" where
  "set_busy s b m = m\<lparr>m_slot := (m_slot m)(s := (m_slot m s)\<lparr>s_busy := b\<rparr>)\<rparr>"

definition set_slot_kernel :: "nat \<Rightarrow> nat option \<Rightarrow> 'v manager \<Rightarrow> 'v manager" where
  "set_slot_kernel s k m = m\<lparr>m_slot := (m_slot m)(s := (m_slot m s)\<lparr>s_kernel := k\<rparr>)\<rparr>"

definition on_kernel :: "nat \<Rightarrow> ('v kernel \<Rightarrow> 'v kernel) \<Rightarrow> 'v manager \<Rightarrow> 'v manager" where
  "on_kernel kid f m = m\<lparr>m_kernel := (m_kernel m)(kid := map_option f (m_kernel m kid))\<rparr>"

definition set_stage :: "nat \<Rightarrow> call_stage \<Rightarrow> 'v manager \<Rightarrow> 'v manager" where
  "set_stage i stage m =
     m\<lparr>m_call := (m_call m)(i := map_option (\<lambda>c. c\<lparr>call_stage := stage\<rparr>) (m_call m i))\<rparr>"

section \<open>Execute\<close>

text \<open>\<open>timeout_sec.unwrap_or(default).clamp(1, MAX_TIMEOUT_SEC)\<close>.\<close>

definition clamp_timeout :: "u64 \<Rightarrow> u64 option \<Rightarrow> u64" where
  "clamp_timeout default_sec given =
     max 1 (min (case given of None \<Rightarrow> default_sec | Some n \<Rightarrow> n) MAX_TIMEOUT_SEC)"

definition execute_begin ::
  "u64 \<Rightarrow> (target_record \<times> u32) option \<Rightarrow> execute_params \<Rightarrow> 'v manager \<Rightarrow>
     nat rpc_result \<times> 'v manager" where
  "execute_begin default_sec registration params m =
     (let t = ex_target params
      in case registration of
           None \<Rightarrow> (Inl (not_found (''target '' @ target_display t @ '' is not registered'')), m)
         | Some _ \<Rightarrow>
             if CELL_CODE < length (ex_code params)
             then (Inl (limit ''cell code exceeds 256 KiB''), m)
             else
               let timeout_sec = clamp_timeout default_sec (ex_timeout_sec params);
                   (s, m') = slot_for t m
               in if s_busy (m_slot m' s)
                  then (Inl (rpc_error_new Busy
                          (''a cell is already running for '' @ target_display t)), m')
                  else
                    let i = m_next_call m';
                        call = \<lparr>call_slot = s, call_code = ex_code params,
                                call_timeout = unat timeout_sec * 1000, call_stage = Check\<rparr>
                    in (Inr i,
                        (set_busy s True m')\<lparr>m_call := (m_call m')(i := Some call),
                                             m_next_call := i + 1\<rparr>))"

text \<open>
  What one poll sees of the world: whether the timer it waits under has fired, the time the cell
  has taken, how a launch went (the pid and the start time of the process), and the ready
  timeout the error message names.
\<close>

record poll_env =
  pe_timer :: bool
  pe_elapsed :: nat
  pe_launched :: "(rpc_error, u32 \<times> u64) result"
  pe_ready_sec :: nat

definition poll_call :: "poll_env \<Rightarrow> nat \<Rightarrow> 'v manager \<Rightarrow> 'v manager" where
  "poll_call env i m =
     (case m_call m i of
        None \<Rightarrow> m
      | Some c \<Rightarrow>
          (case call_stage c of
             Check \<Rightarrow>
               (case Option.bind (s_kernel (m_slot m (call_slot c)))
                       (\<lambda>kid. if (case m_kernel m kid of None \<Rightarrow> False | Some k \<Rightarrow> is_ready k)
                              then Some kid else None) of
                  Some kid \<Rightarrow> set_stage i (Start_Cell kid) m
                | None \<Rightarrow> set_stage i Launch m)
           | Launch \<Rightarrow>
               (case pe_launched env of
                  Inl e \<Rightarrow> set_stage i (Release (Inl e)) m
                | Inr (pid, now) \<Rightarrow>
                    let kid = m_next_kernel m
                    in set_stage i (Install kid)
                         (m\<lparr>m_kernel := (m_kernel m)(kid := Some (kernel_new pid now)),
                            m_next_kernel := kid + 1\<rparr>))
           | Install kid \<Rightarrow>
               set_stage i (Await_Ready kid) (set_slot_kernel (call_slot c) (Some kid) m)
           | Await_Ready kid \<Rightarrow>
               (case m_kernel m kid of
                  None \<Rightarrow> m
                | Some k \<Rightarrow>
                    (case k_ready k of
                       Sent _ \<Rightarrow> set_stage i (Start_Cell kid) m
                     | Closed \<Rightarrow>
                         set_stage i (Release (Inl (unavailable
                           ''the kernel exited before it was ready (see daemon.log)''))) m
                     | Open \<Rightarrow>
                         if pe_timer env
                         then set_stage i (Release (Inl (unavailable
                                (''the kernel did not send ready within '' @
                                 dec (pe_ready_sec env) @ ''s'')))) (on_kernel kid kill m)
                         else m))
           | Start_Cell kid \<Rightarrow>
               (case m_kernel m kid of
                  None \<Rightarrow> m
                | Some k \<Rightarrow>
                    (case begin_cell k of
                       (Inl e, k') \<Rightarrow>
                         set_stage i (Release (Inl e)) (on_kernel kid (\<lambda>_. k') m)
                     | (Inr cell, k') \<Rightarrow>
                         set_stage i (In_Cell kid cell Send_Execute) (on_kernel kid (\<lambda>_. k') m)))
           | In_Cell kid cell stage \<Rightarrow>
               (case m_kernel m kid of
                  None \<Rightarrow> m
                | Some k \<Rightarrow>
                    (case stage of
                       Finish outcome \<Rightarrow>
                         (case finish_cell cell outcome k of
                            (result, k') \<Rightarrow>
                              set_stage i (Release result) (on_kernel kid (\<lambda>_. k') m))
                     | _ \<Rightarrow>
                         (case poll_cell cell (call_code c) (call_timeout c) (pe_timer env)
                                 (pe_elapsed env) stage k of
                            (stage', k') \<Rightarrow>
                              set_stage i (In_Cell kid cell stage') (on_kernel kid (\<lambda>_. k') m))))
           | Release result \<Rightarrow>
               (set_busy (call_slot c) False m)
                 \<lparr>m_call := (m_call m)(i := None),
                  m_replies := m_replies m @ [(i, result)]\<rparr>))"

text \<open>The future is dropped: the guard clears the flag, the kernel is left as it is.\<close>

definition cancel_call :: "nat \<Rightarrow> 'v manager \<Rightarrow> 'v manager" where
  "cancel_call i m =
     (case m_call m i of
        None \<Rightarrow> m
      | Some c \<Rightarrow> (set_busy (call_slot c) False m)\<lparr>m_call := (m_call m)(i := None)\<rparr>)"

section \<open>The other operations\<close>

definition manager_interrupt :: "target \<Rightarrow> 'v manager \<Rightarrow> bool \<times> 'v manager" where
  "manager_interrupt t m =
     (case existing t m of
        None \<Rightarrow> (False, m)
      | Some kid \<Rightarrow>
          (case m_kernel m kid of
             None \<Rightarrow> (False, m)
           | Some k \<Rightarrow> (fst (interrupt k), on_kernel kid (\<lambda>_. snd (interrupt k)) m)))"

text \<open>
  \<open>restart\<close> and \<open>shutdown_target\<close> up to the first await of \<open>stop\<close>; the kill after the grace
  period is the label \<open>Kill_Kernel\<close>.
\<close>

definition stop_kernel :: "nat option \<Rightarrow> 'v manager \<Rightarrow> 'v manager" where
  "stop_kernel ko m = (case ko of None \<Rightarrow> m | Some kid \<Rightarrow> on_kernel kid begin_stop m)"

definition manager_restart :: "target \<Rightarrow> 'v manager \<Rightarrow> 'v manager" where
  "manager_restart t m =
     (case bm_get (m_slots m) (target_key t) of
        None \<Rightarrow> m
      | Some s \<Rightarrow> stop_kernel (s_kernel (m_slot m s)) (set_slot_kernel s None m))"

definition shutdown_target :: "target \<Rightarrow> 'v manager \<Rightarrow> 'v manager" where
  "shutdown_target t m =
     (case bm_get (m_slots m) (target_key t) of
        None \<Rightarrow> m
      | Some s \<Rightarrow>
          stop_kernel (s_kernel (m_slot m s))
            (set_slot_kernel s None (m\<lparr>m_slots := bm_remove (target_key t) (m_slots m)\<rparr>)))"

definition manager_status :: "target \<Rightarrow> string \<Rightarrow> 'v manager \<Rightarrow> kernel_status" where
  "manager_status t cwd m =
     (case Option.bind (existing t m) (m_kernel m) of
        None \<Rightarrow> \<lparr>ks_state = Absent, ks_pid = None, ks_execution_count = 0, ks_started_at = None,
                ks_cwd = cwd, ks_handles = []\<rparr>
      | Some k \<Rightarrow>
          (case snapshot k of
             (st, pid, execution_count, handles) \<Rightarrow>
               \<lparr>ks_state = st, ks_pid = Some pid, ks_execution_count = execution_count,
                ks_started_at = Some (k_started_at k), ks_cwd = cwd, ks_handles = handles\<rparr>))"

definition all_kernels :: "'v manager \<Rightarrow> nat list" where
  "all_kernels m = List.map_filter (\<lambda>s. s_kernel (m_slot m s)) (bm_values (m_slots m))"

definition kernel_alive :: "'v manager \<Rightarrow> nat \<Rightarrow> bool" where
  "kernel_alive m kid = (case m_kernel m kid of None \<Rightarrow> False | Some k \<Rightarrow> is_alive k)"

definition live_count :: "'v manager \<Rightarrow> nat" where
  "live_count m = length (filter (kernel_alive m) (all_kernels m))"

text \<open>
  The first loop of \<open>stop_all\<close> asks every live kernel to stop; the second kills the ones that
  have not exited by the deadline (the label \<open>Kill_Kernel\<close>, one kernel at a time).
\<close>

definition stop_all :: "'v manager \<Rightarrow> 'v manager" where
  "stop_all m = fold (\<lambda>kid. on_kernel kid begin_stop) (filter (kernel_alive m) (all_kernels m)) m"

section \<open>Steps\<close>

datatype 'v label =
  Begin u64 "(target_record \<times> u32) option" execute_params
  | Poll nat poll_env
  | Cancel nat
  | From_Process nat "'v from_kernel"
  | Process_Exit nat
  | Writer_Take nat
  | Writer_Fail nat
  | Interrupt_Target target
  | Restart target
  | Shutdown_Target target
  | Kill_Kernel nat
  | Stop_All

fun apply_label :: "'v label \<Rightarrow> 'v manager \<Rightarrow> 'v manager" where
  "apply_label (Begin default_sec registration params) m =
     snd (execute_begin default_sec registration params m)"
| "apply_label (Poll i env) m = poll_call env i m"
| "apply_label (Cancel i) m = cancel_call i m"
| "apply_label (From_Process kid msg) m = on_kernel kid (\<lambda>k. fst (kernel_dispatch msg k)) m"
| "apply_label (Process_Exit kid) m = on_kernel kid (\<lambda>k. snd (on_exit k)) m"
| "apply_label (Writer_Take kid) m = on_kernel kid (\<lambda>k. k\<lparr>k_queue := tl (k_queue k)\<rparr>) m"
| "apply_label (Writer_Fail kid) m =
     on_kernel kid (\<lambda>k. k\<lparr>k_queue := [], k_writer := False\<rparr>) m"
| "apply_label (Interrupt_Target t) m = snd (manager_interrupt t m)"
| "apply_label (Restart t) m = manager_restart t m"
| "apply_label (Shutdown_Target t) m = shutdown_target t m"
| "apply_label (Kill_Kernel kid) m = on_kernel kid kill m"
| "apply_label Stop_All m = stop_all m"

fun is_cancel :: "'v label \<Rightarrow> bool" where
  "is_cancel (Cancel _) = True"
| "is_cancel _ = False"

definition run_labels :: "'v label list \<Rightarrow> 'v manager" where
  "run_labels ls = fold apply_label ls manager_default"

inductive manager_step :: "('v label \<Rightarrow> bool) \<Rightarrow> 'v manager \<Rightarrow> 'v manager \<Rightarrow> bool"
  for allowed :: "'v label \<Rightarrow> bool" where
  label: "allowed l \<Longrightarrow> manager_step allowed m (apply_label l m)"

inductive_cases manager_stepE: "manager_step allowed m m'"

end
