(* ===== verification/Host.thy ===== *)
theory Host
  imports Options Kernel_Manager
begin

text \<open>
  \<open>crates/daemon/src/host.rs\<close>, \<open>app.rs\<close> and the parsing of host calls in
  \<open>crates/protocol/src/host.rs\<close>: what a running kernel can ask its daemon, over the shared \<open>app\<close>.
  JSON (\<open>serde_json\<close>) is the parameter \<open>json\<close>: decoders into the parameter structs and one
  serialiser of the results. The record \<open>world\<close> holds what a request sees of its surroundings.
\<close>

section \<open>Values\<close>

datatype reply_value =
  V_Health health_result
  | V_Register register_result
  | V_Cell cell_result
  | V_Interrupted bool
  | V_Restarted bool
  | V_Status kernel_status
  | V_Children "child_info list"
  | V_Child_Result child_info
  | V_Child child_info
  | V_Acked nat
  | V_Events "event list"
  | V_Event_Id string
  | V_Withdrawn bool
  | V_Skills "skill_info list"

type_synonym ('v, 'a) decoder = "'v \<Rightarrow> (string, 'a) result"

record 'v rpc_request =
  q_id :: "'v option"
  q_method :: string
  q_params :: "'v option"

record 'v json =
  j_null :: 'v
  j_is_null :: "'v \<Rightarrow> bool"
  j_object :: 'v
  j_to_value :: "reply_value \<Rightarrow> (string, 'v) result"
  j_from_slice :: "string \<Rightarrow> (string, 'v) result"
  j_get_id :: "'v \<Rightarrow> 'v option"
  j_envelope :: "('v, 'v rpc_request) decoder"
  j_empty :: "('v, unit) decoder"
  j_spawn :: "('v, spawn_params) decoder"
  j_delete :: "('v, delete_subagent_params) decoder"
  j_agent_message :: "('v, agent_message_params) decoder"
  j_bash_finished :: "('v, bash_finished_params) decoder"
  j_withdraw :: "('v, string) decoder"
  j_register :: "('v, register_params) decoder"
  j_execute :: "('v, execute_params) decoder"
  j_target :: "('v, target) decoder"
  j_child_bind :: "('v, target \<times> string \<times> target) decoder"
  j_child_fail :: "('v, target \<times> string \<times> string) decoder"
  j_child_id :: "('v, target \<times> string) decoder"
  j_events_ack :: "('v, target \<times> string list) decoder"
  j_skills_list :: "('v, target option) decoder"

definition parse_params :: "'v json \<Rightarrow> ('v, 'a) decoder \<Rightarrow> 'v \<Rightarrow> 'a rpc_result" where
  "parse_params js decode params =
     (case decode (if j_is_null js params then j_object js else params) of
        Inl error \<Rightarrow> Inl (rpc_error_new InvalidRequest (''invalid params: '' @ error))
      | Inr x \<Rightarrow> Inr x)"

definition host_call_parse :: "'v json \<Rightarrow> string \<Rightarrow> 'v \<Rightarrow> host_call rpc_result" where
  "host_call_parse js method params =
     (if method = ''rlm.spawn''
      then map_sum (\<lambda>e. e) Call_Spawn (parse_params js (j_spawn js) params)
      else if method = ''rlm.list_subagents''
      then map_sum (\<lambda>e. e) (\<lambda>_. Call_ListSubagents) (parse_params js (j_empty js) params)
      else if method = ''rlm.delete_subagent''
      then map_sum (\<lambda>e. e) Call_DeleteSubagent (parse_params js (j_delete js) params)
      else if method = ''agent_message.send''
      then map_sum (\<lambda>e. e) Call_AgentMessage (parse_params js (j_agent_message js) params)
      else if method = ''notice.bash_finished''
      then map_sum (\<lambda>e. e) Call_BashFinished (parse_params js (j_bash_finished js) params)
      else if method = ''notice.withdraw''
      then map_sum (\<lambda>e. e) Call_Withdraw (parse_params js (j_withdraw js) params)
      else if method = ''skills.list''
      then map_sum (\<lambda>e. e) (\<lambda>_. Call_SkillsList) (parse_params js (j_empty js) params)
      else Inl (rpc_error_new InvalidRequest (''unknown host method '' @ method)))"

text \<open>\<open>json\<close> of \<open>host.rs\<close> and \<open>rpc.rs\<close>.\<close>

definition to_json :: "'v json \<Rightarrow> reply_value \<Rightarrow> 'v rpc_result" where
  "to_json js v = (case j_to_value js v of Inl error \<Rightarrow> Inl (rpc_error_new Internal error) | Inr x \<Rightarrow> Inr x)"

section \<open>The application\<close>

record 'v app =
  a_options :: options
  a_state :: state
  a_kernels :: "'v manager"
  a_started_at :: u64
  a_shutdown :: bool
  a_last_rpc :: nat

text \<open>The clock is read once for the registry and once for the event.\<close>

record 'v world =
  w_now :: u64
  w_event_now :: u64
  w_instant :: nat
  w_pid :: u32
  w_runtime :: runtime
  w_codec :: codecs
  w_io :: "save_outcome \<times> save_outcome"
  w_fs :: skill_fs
  w_json :: "'v json"

abbreviation app_core :: "'v app \<Rightarrow> core" where
  "app_core a \<equiv> st_core (a_state a)"

definition app_touch :: "'v world \<Rightarrow> 'v app \<Rightarrow> 'v app" where
  "app_touch w app = app\<lparr>a_last_rpc := w_instant w\<rparr>"

definition idle_for :: "'v world \<Rightarrow> 'v app \<Rightarrow> nat" where
  "idle_for w app = w_instant w - a_last_rpc app"

definition request_shutdown :: "'v app \<Rightarrow> 'v app" where
  "request_shutdown app = app\<lparr>a_shutdown := True\<rparr>"

definition app_update ::
  "'v world \<Rightarrow> (core \<Rightarrow> 'r rpc_result \<times> core) \<Rightarrow> 'v app \<Rightarrow> 'r rpc_result \<times> 'v app" where
  "app_update w change app =
     (let (r, st) = update (w_codec w) (unat (w_pid w)) (w_io w) change (a_state app)
      in (r, app\<lparr>a_state := st\<rparr>))"

section \<open>The calls\<close>

text \<open>The closures given to \<open>update\<close>.\<close>

definition spawn_change ::
  "'v world \<Rightarrow> u32 \<Rightarrow> target \<Rightarrow> spawn_params \<Rightarrow> core \<Rightarrow> child_info rpc_result \<times> core" where
  "spawn_change w max_depth owner params c =
     (case on_registry (\<lambda>r. admit (w_runtime w) r owner params max_depth (w_now w)) c of
        (Inl e, c') \<Rightarrow> (Inl e, c')
      | (Inr child, c') \<Rightarrow> (Inr child, snd (enqueue c' (child_spawn child (w_event_now w)))))"

definition to_parent_change :: "u64 \<Rightarrow> target \<Rightarrow> string \<Rightarrow> core \<Rightarrow> string rpc_result \<times> core" where
  "to_parent_change now sender msg c =
     (case binding (core_registry c) sender of
        None \<Rightarrow> (Inl (not_found (target_display sender @ '' is not a bound recurse child'')), c)
      | Some child \<Rightarrow>
          let (sequence, c') = on_registry (\<lambda>r. next_sequence r (c_id child)) c;
              (eid, c'') = enqueue c' (message_to_parent child sequence msg now)
          in (Inr eid, c''))"

definition to_child_change ::
  "u64 \<Rightarrow> target \<Rightarrow> string \<Rightarrow> string \<Rightarrow> core \<Rightarrow> string rpc_result \<times> core" where
  "to_child_change now sender name msg c =
     (case Option.bind (running_child_named (core_registry c) sender name) c_session of
        None \<Rightarrow> (Inl (not_found (''no running child named '' @ name)), c)
      | Some session \<Rightarrow>
          let (sequence, c') = on_registry (\<lambda>r. next_sequence r (target_key sender)) c;
              (eid, c'') = enqueue c' (message_to_child sender session sequence msg now)
          in (Inr eid, c''))"

text \<open>Changes that cannot fail.\<close>

definition enqueue_change :: "event \<Rightarrow> core \<Rightarrow> string rpc_result \<times> core" where
  "enqueue_change e c = map_prod Inr (\<lambda>c. c) (enqueue c e)"

definition withdraw_change :: "target \<Rightarrow> string \<Rightarrow> core \<Rightarrow> bool rpc_result \<times> core" where
  "withdraw_change owner event_id =
     on_queue (\<lambda>q. map_prod Inr (\<lambda>q. q) (withdraw q owner event_id))"

definition spawn :: "'v world \<Rightarrow> target \<Rightarrow> spawn_params \<Rightarrow> 'v app \<Rightarrow> child_info rpc_result \<times> 'v app" where
  "spawn w owner params app =
     app_update w (spawn_change w (o_max_depth (a_options app)) owner params) app"

text \<open>The kernel of the child's session is asked to stop; the kill after the grace comes later.\<close>

definition delete_child ::
  "'v world \<Rightarrow> target \<Rightarrow> delete_subagent_params \<Rightarrow> 'v app \<Rightarrow> child_info rpc_result \<times> 'v app" where
  "delete_child w parent selector app =
     (case app_update w (on_registry (\<lambda>r. registry_delete r parent selector)) app of
        (Inl e, app') \<Rightarrow> (Inl e, app')
      | (Inr child, app') \<Rightarrow>
          (Inr child,
           (case c_session child of
              None \<Rightarrow> app'
            | Some session \<Rightarrow> app'\<lparr>a_kernels := shutdown_target session (a_kernels app')\<rparr>)))"

definition send_message ::
  "'v world \<Rightarrow> target \<Rightarrow> agent_message_params \<Rightarrow> 'v app \<Rightarrow> string rpc_result \<times> 'v app" where
  "send_message w sender params app =
     (if MESSAGE < length (msg_message params)
      then (Inl (limit ''message exceeds 32 KiB''), app)
      else
        case msg_receiver_role params of
          Role_Parent \<Rightarrow>
            app_update w (to_parent_change (w_event_now w) sender (msg_message params)) app
        | Role_Child \<Rightarrow>
            (case msg_receiver_name params of
               None \<Rightarrow>
                 (Inl (invalid (''receiver_role '' @ [quote_char] @ ''child'' @ [quote_char] @
                                '' needs receiver_name'')), app)
             | Some name \<Rightarrow>
                 app_update w (to_child_change (w_event_now w) sender name (msg_message params)) app))"

definition skills_for :: "'v world \<Rightarrow> 'v app \<Rightarrow> target option \<Rightarrow> skill_info list" where
  "skills_for w app t =
     (let cwd = Option.bind t (\<lambda>t. map_option tr_cwd (record_of (core_registry (app_core app)) t))
      in discover (w_fs w) (skill_dirs (w_fs w) (a_options app) cwd))"

definition respond :: "'v json \<Rightarrow> ('a \<Rightarrow> reply_value) \<Rightarrow> 'a rpc_result \<times> 'v app \<Rightarrow> 'v rpc_result \<times> 'v app" where
  "respond js f ra = (rbind (fst ra) (\<lambda>x. to_json js (f x)), snd ra)"

definition host_call ::
  "'v world \<Rightarrow> target \<Rightarrow> u32 \<Rightarrow> host_call \<Rightarrow> 'v app \<Rightarrow> 'v rpc_result \<times> 'v app" where
  "host_call w owner kernel_pid call app =
     (case call of
        Call_Spawn params \<Rightarrow> respond (w_json w) V_Child (spawn w owner params app)
      | Call_ListSubagents \<Rightarrow>
          (to_json (w_json w) (V_Children (children_of (core_registry (app_core app)) owner)), app)
      | Call_DeleteSubagent selector \<Rightarrow>
          respond (w_json w) V_Child_Result (delete_child w owner selector app)
      | Call_AgentMessage params \<Rightarrow> respond (w_json w) V_Event_Id (send_message w owner params app)
      | Call_BashFinished params \<Rightarrow>
          respond (w_json w) V_Event_Id
            (app_update w
              (enqueue_change (bash_finished owner kernel_pid params (w_event_now w))) app)
      | Call_Withdraw event_id \<Rightarrow>
          respond (w_json w) V_Withdrawn
            (app_update w (withdraw_change owner event_id) app)
      | Call_SkillsList \<Rightarrow> (to_json (w_json w) (V_Skills (skills_for w app (Some owner))), app))"

definition host_handle ::
  "'v world \<Rightarrow> target \<Rightarrow> u32 \<Rightarrow> string \<Rightarrow> 'v \<Rightarrow> 'v app \<Rightarrow> 'v rpc_result \<times> 'v app" where
  "host_handle w owner kernel_pid method params app =
     (case host_call_parse (w_json w) method params of
        Inl e \<Rightarrow> (Inl e, app)
      | Inr call \<Rightarrow> host_call w owner kernel_pid call app)"

text \<open>
  The task \<open>dispatch\<close> of \<open>launch.rs\<close> spawns for a host request: the answer goes back to the kernel
  that asked. The report of an exit, from \<open>wait_exit\<close>, is an event for the target.
\<close>

definition answer_host_request ::
  "'v world \<Rightarrow> target \<Rightarrow> u32 \<Rightarrow> string \<Rightarrow> string \<Rightarrow> 'v \<Rightarrow> 'v app \<Rightarrow> 'v to_kernel \<times> 'v app" where
  "answer_host_request w t kernel_pid rid method params app =
     (let (outcome, app') = host_handle w t kernel_pid method params app
      in ((case outcome of
             Inr v \<Rightarrow> HostResponse rid (Some v) None
           | Inl e \<Rightarrow> HostResponse rid None (Some e)), app'))"

definition report_exit ::
  "'v world \<Rightarrow> target \<Rightarrow> exit_info \<Rightarrow> i32 option \<Rightarrow> i32 option \<Rightarrow> 'v app \<Rightarrow> 'v app" where
  "report_exit w t exit exit_code signal app =
     (if exit_report exit
      then snd (app_update w
             (enqueue_change (kernel_exited t (exit_pid exit) exit_code signal (w_event_now w))) app)
      else app)"

end
