(* ===== verification/Rpc.thy ===== *)
theory Rpc
  imports Host
begin

text \<open>
  \<open>crates/daemon/src/rpc.rs\<close>, the authorisation and idle exit of \<open>server.rs\<close>, and
  \<open>Request::parse\<close> of \<open>crates/protocol/src/rpc.rs\<close>: one \<open>POST /rpc\<close> from its headers and body to
  its response. A \<open>kernel.execute\<close> that passes its checks becomes a call of the kernel manager,
  whose answer comes later (\<open>Awaits\<close>).
\<close>

section \<open>Authorisation\<close>

text \<open>\<open>HeaderValue::to_str\<close>: visible ASCII and tabs only.\<close>

definition header_str :: "string \<Rightarrow> string option" where
  "header_str v =
     (if list_all (\<lambda>c. c = CHR 0x09 \<or> printable c) v then Some v else None)"

definition byte :: "char \<Rightarrow> u8" where
  "byte c = of_char c"

definition constant_time_eq :: "u8 list \<Rightarrow> u8 list \<Rightarrow> bool" where
  "constant_time_eq left right \<longleftrightarrow>
     length left = length right \<and>
     foldl (\<lambda>diff (a, b). or diff (xor a b)) 0 (zip left right) = 0"

text \<open>The value of the first \<open>authorization\<close> header, if any, and the configured token.\<close>

definition authorized :: "string option \<Rightarrow> string option \<Rightarrow> bool" where
  "authorized header token =
     (case token of
        None \<Rightarrow> True
      | Some token \<Rightarrow>
          (case Option.bind (Option.bind header header_str) (strip_prefix ''Bearer '') of
             None \<Rightarrow> False
           | Some given \<Rightarrow> constant_time_eq (map byte given) (map byte token)))"

section \<open>Responses\<close>

fun status_for :: "error_code \<Rightarrow> nat" where
  "status_for Unauthorized = 401"
| "status_for Internal = 500"
| "status_for InvalidRequest = 400"
| "status_for NotFound = 400"
| "status_for Busy = 400"
| "status_for KernelUnavailable = 400"
| "status_for UnsupportedHost = 400"
| "status_for DepthExceeded = 400"
| "status_for LimitExceeded = 400"

record 'v response =
  rs_status :: nat
  rs_id :: "'v option"
  rs_result :: "'v option"
  rs_error :: "rpc_error option"

definition reply :: "'v option \<Rightarrow> 'v rpc_result \<Rightarrow> 'v response" where
  "reply rid outcome =
     (case outcome of
        Inr result \<Rightarrow> \<lparr>rs_status = 200, rs_id = rid, rs_result = Some result, rs_error = None\<rparr>
      | Inl error \<Rightarrow>
          \<lparr>rs_status = status_for (code error), rs_id = rid, rs_result = None, rs_error = Some error\<rparr>)"

definition unauthorized :: "'v response" where
  "unauthorized =
     (reply None (Inl (rpc_error_new Unauthorized ''missing or incorrect bearer token'')))
       \<lparr>rs_status := 401\<rparr>"

section \<open>Requests\<close>

text \<open>The type is inferred from the constructor: a decoded struct is mapped into its variant.\<close>

definition request_parse :: "'v json \<Rightarrow> string \<Rightarrow> 'v option \<Rightarrow> request rpc_result" where
  "request_parse js method params0 =
     (let params = (case params0 of None \<Rightarrow> j_null js | Some p \<Rightarrow> p);
          same = (\<lambda>e. e)
      in if method = ''health''
      then map_sum same (\<lambda>_. Health) (parse_params js (j_empty js) params)
      else if method = ''target.register''
      then map_sum same TargetRegister (parse_params js (j_register js) params)
      else if method = ''kernel.execute''
      then map_sum same KernelExecute (parse_params js (j_execute js) params)
      else if method = ''kernel.interrupt''
      then map_sum same KernelInterrupt (parse_params js (j_target js) params)
      else if method = ''kernel.restart''
      then map_sum same KernelRestart (parse_params js (j_target js) params)
      else if method = ''kernel.status''
      then map_sum same KernelStatus (parse_params js (j_target js) params)
      else if method = ''children.list''
      then map_sum same ChildrenList (parse_params js (j_target js) params)
      else if method = ''children.bind''
      then map_sum same (\<lambda>(t, cid, s). ChildrenBind t cid s)
             (parse_params js (j_child_bind js) params)
      else if method = ''children.fail''
      then map_sum same (\<lambda>(t, cid, reason). ChildrenFail t cid reason)
             (parse_params js (j_child_fail js) params)
      else if method = ''children.delete''
      then map_sum same (\<lambda>(t, cid). ChildrenDelete t cid) (parse_params js (j_child_id js) params)
      else if method = ''events.ack''
      then map_sum same (\<lambda>(t, ids). EventsAck t ids) (parse_params js (j_events_ack js) params)
      else if method = ''events.list''
      then map_sum same EventsList (parse_params js (j_target js) params)
      else if method = ''skills.list''
      then map_sum same SkillsList (parse_params js (j_skills_list js) params)
      else Inl (rpc_error_new InvalidRequest (''unknown method '' @ method)))"

definition check_target :: "target \<Rightarrow> unit rpc_result" where
  "check_target t =
     (if target_is_valid t then Inr () else Inl (invalid ''target id must be 1-256 characters''))"

fun request_target :: "request \<Rightarrow> target option" where
  "request_target Health = None"
| "request_target (TargetRegister params) = Some (reg_target params)"
| "request_target (KernelExecute params) = Some (ex_target params)"
| "request_target (KernelInterrupt t) = Some t"
| "request_target (KernelRestart t) = Some t"
| "request_target (KernelStatus t) = Some t"
| "request_target (ChildrenList t) = Some t"
| "request_target (EventsList t) = Some t"
| "request_target (ChildrenBind t cid s) = Some t"
| "request_target (ChildrenFail t cid reason) = Some t"
| "request_target (ChildrenDelete t cid) = Some t"
| "request_target (EventsAck t ids) = Some t"
| "request_target (SkillsList t) = t"

section \<open>Dispatch\<close>

definition VERSION :: string where "VERSION = ''0.1.0''"

definition health :: "'v world \<Rightarrow> 'v app \<Rightarrow> health_result" where
  "health w app =
     \<lparr>hr_ok = True, hr_name = DAEMON_NAME, hr_version = VERSION, hr_protocol = PROTOCOL_VERSION,
      hr_pid = w_pid w, hr_started_at = a_started_at app\<rparr>"

definition registered_cwd :: "'v app \<Rightarrow> target \<Rightarrow> string rpc_result" where
  "registered_cwd app t =
     ok_or (not_found (''target '' @ target_display t @ '' is not registered''))
       (map_option tr_cwd (record_of (core_registry (app_core app)) t))"

text \<open>\<open>registration\<close> of \<open>kernel/mod.rs\<close>.\<close>

definition registration :: "'v app \<Rightarrow> target \<Rightarrow> (target_record \<times> u32) option" where
  "registration app t =
     map_option (\<lambda>r. (r, depth (core_registry (app_core app)) t))
       (record_of (core_registry (app_core app)) t)"

text \<open>The closure of \<open>children.fail\<close>, and \<open>children.bind\<close>, \<open>events.ack\<close>.\<close>

definition fail_change ::
  "u64 \<Rightarrow> target \<Rightarrow> string \<Rightarrow> string \<Rightarrow> core \<Rightarrow> child_info rpc_result \<times> core" where
  "fail_change now t child_id reason c =
     (case on_registry (\<lambda>r. registry_fail r t child_id) c of
        (Inl e, c') \<Rightarrow> (Inl e, c')
      | (Inr child, c') \<Rightarrow>
          let (sequence, c'') = on_registry (\<lambda>r. next_sequence r (c_id child)) c';
              msg = ''[recurse] child failed to start: '' @ reason
          in (Inr child, snd (enqueue c'' (message_to_parent child sequence msg now))))"

definition ack_change :: "target \<Rightarrow> string list \<Rightarrow> core \<Rightarrow> nat rpc_result \<times> core" where
  "ack_change t ids = on_queue (\<lambda>q. map_prod Inr (\<lambda>q. q) (ack q t ids))"

text \<open>What the handler has: an outcome, or the number of the execute call it waits for.\<close>

datatype 'v outcome = Done "'v rpc_result" | Awaits nat

definition dispatch_children_and_events ::
  "'v world \<Rightarrow> request \<Rightarrow> 'v app \<Rightarrow> 'v rpc_result \<times> 'v app" where
  "dispatch_children_and_events w request app =
     (case request of
        ChildrenList t \<Rightarrow>
          (to_json (w_json w) (V_Children (children_of (core_registry (app_core app)) t)), app)
      | ChildrenBind t child_id session \<Rightarrow>
          (case check_target session of
             Inl e \<Rightarrow> (Inl e, app)
           | Inr _ \<Rightarrow>
               respond (w_json w) V_Child_Result
                 (app_update w (on_registry (\<lambda>r. registry_bind r t child_id session)) app))
      | ChildrenFail t child_id reason \<Rightarrow>
          respond (w_json w) V_Child_Result
            (app_update w
              (fail_change (w_event_now w) t child_id (fst (clip_head reason MESSAGE))) app)
      | ChildrenDelete t child_id \<Rightarrow>
          respond (w_json w) V_Child_Result
            (delete_child w t \<lparr>del_child_id = Some child_id, del_name = None\<rparr> app)
      | EventsAck t ids \<Rightarrow> respond (w_json w) V_Acked (app_update w (ack_change t ids) app)
      | EventsList t \<Rightarrow>
          (to_json (w_json w) (V_Events (list_events (core_queue (app_core app)) t)), app)
      | SkillsList t \<Rightarrow> (to_json (w_json w) (V_Skills (skills_for w app t)), app)
      | Health \<Rightarrow> (Inl (rpc_error_new Internal ''misrouted request''), app)
      | TargetRegister _ \<Rightarrow> (Inl (rpc_error_new Internal ''misrouted request''), app)
      | KernelExecute _ \<Rightarrow> (Inl (rpc_error_new Internal ''misrouted request''), app)
      | KernelInterrupt _ \<Rightarrow> (Inl (rpc_error_new Internal ''misrouted request''), app)
      | KernelRestart _ \<Rightarrow> (Inl (rpc_error_new Internal ''misrouted request''), app)
      | KernelStatus _ \<Rightarrow> (Inl (rpc_error_new Internal ''misrouted request''), app))"

definition completed :: "'v rpc_result \<times> 'v app \<Rightarrow> 'v outcome \<times> 'v app" where
  "completed ra = (Done (fst ra), snd ra)"

definition dispatch_request :: "'v world \<Rightarrow> request \<Rightarrow> 'v app \<Rightarrow> 'v outcome \<times> 'v app" where
  "dispatch_request w request app =
     (case request of
        Health \<Rightarrow> (Done (to_json (w_json w) (V_Health (health w app))), app)
      | TargetRegister params \<Rightarrow>
          if reg_cwd params = [] then (Done (Inl (invalid ''cwd must not be empty'')), app)
          else completed (respond (w_json w) V_Register
                       (app_update w (on_registry (\<lambda>r. register r params)) app))
      | KernelExecute params \<Rightarrow>
          (case execute_begin (o_cell_timeout_sec (a_options app))
                  (registration app (ex_target params)) params (a_kernels app) of
             (Inl e, m) \<Rightarrow> (Done (Inl e), app\<lparr>a_kernels := m\<rparr>)
           | (Inr i, m) \<Rightarrow> (Awaits i, app\<lparr>a_kernels := m\<rparr>))
      | KernelInterrupt t \<Rightarrow>
          (case registered_cwd app t of
             Inl e \<Rightarrow> (Done (Inl e), app)
           | Inr _ \<Rightarrow>
               let (interrupted, m) = manager_interrupt t (a_kernels app)
               in (Done (to_json (w_json w) (V_Interrupted interrupted)), app\<lparr>a_kernels := m\<rparr>))
      | KernelRestart t \<Rightarrow>
          (case registered_cwd app t of
             Inl e \<Rightarrow> (Done (Inl e), app)
           | Inr _ \<Rightarrow>
               (Done (to_json (w_json w) (V_Restarted True)),
                app\<lparr>a_kernels := manager_restart t (a_kernels app)\<rparr>))
      | KernelStatus t \<Rightarrow>
          (case registered_cwd app t of
             Inl e \<Rightarrow> (Done (Inl e), app)
           | Inr cwd \<Rightarrow> (Done (to_json (w_json w) (V_Status (manager_status t cwd (a_kernels app)))), app))
      | other \<Rightarrow> completed (dispatch_children_and_events w other app))"

definition rpc_dispatch :: "'v world \<Rightarrow> request \<Rightarrow> 'v app \<Rightarrow> 'v outcome \<times> 'v app" where
  "rpc_dispatch w request app =
     (case request_target request of
        None \<Rightarrow> dispatch_request w request app
      | Some t \<Rightarrow>
          (case check_target t of
             Inl e \<Rightarrow> (Done (Inl e), app)
           | Inr _ \<Rightarrow> dispatch_request w request app))"

definition parse_and_dispatch ::
  "'v world \<Rightarrow> string \<Rightarrow> 'v app \<Rightarrow> 'v option \<times> 'v outcome \<times> 'v app" where
  "parse_and_dispatch w bytes app =
     (let js = w_json w
      in case j_from_slice js bytes of
           Inl error \<Rightarrow> (None, Done (Inl (invalid (''malformed JSON: '' @ error))), app)
         | Inr raw \<Rightarrow>
             (case j_envelope js raw of
                Inl error \<Rightarrow> (j_get_id js raw, Done (Inl (invalid (''invalid request: '' @ error))), app)
              | Inr envelope \<Rightarrow>
                  (q_id envelope,
                   (case request_parse js (q_method envelope) (q_params envelope) of
                      Inr request \<Rightarrow> rpc_dispatch w request app
                    | Inl error \<Rightarrow> (Done (Inl error), app)))))"

text \<open>
  \<open>handle\<close>: a response now, or the id to answer the call under. A body over the bound, like one
  that cannot be read (\<open>None\<close>), is refused before it is parsed.
\<close>

datatype 'v handled = Respond "'v response" | Respond_Later "'v option" nat

definition rpc_handle ::
  "'v world \<Rightarrow> string option \<Rightarrow> string option \<Rightarrow> 'v app \<Rightarrow> 'v handled \<times> 'v app" where
  "rpc_handle w header body app =
     (if \<not> authorized header (o_token (a_options app)) then (Respond unauthorized, app)
      else
        let app = app_touch w app;
            (rid, outcome, app') =
              (case Option.bind body (\<lambda>b. if length b \<le> RPC_BODY then Some b else None) of
                 Some bytes \<Rightarrow> parse_and_dispatch w bytes app
               | None \<Rightarrow> (None, Done (Inl (rpc_error_new LimitExceeded ''request body exceeds 1 MiB'')), app))
        in ((case outcome of Done r \<Rightarrow> Respond (reply rid r) | Awaits i \<Rightarrow> Respond_Later rid i), app'))"

section \<open>Idle exit\<close>

text \<open>One turn of the loop after its second of sleep; \<open>idle_exit_sec = 0\<close> never starts the loop.\<close>

definition idle_turn :: "'v world \<Rightarrow> 'v app \<Rightarrow> 'v app" where
  "idle_turn w app =
     (if a_shutdown app then app
      else if 0 < live_count (a_kernels app) then app_touch w app
      else if unat (o_idle_exit_sec (a_options app)) \<le> idle_for w app then request_shutdown app
      else app)"

definition idle_watch :: "'v world list \<Rightarrow> 'v app \<Rightarrow> 'v app" where
  "idle_watch ws app = (if o_idle_exit_sec (a_options app) = 0 then app else fold idle_turn ws app)"

end
