(* ===== verification/Kernel_Inv.thy ===== *)
theory Kernel_Inv
  imports Kernel_Manager
begin

text \<open>
  Invariants of the kernel manager. \<open>calls_inv\<close> holds after every label, dropped futures
  included: an execute call owns its slot exclusively, and a kernel belongs to one slot.
  \<open>cells_inv\<close> holds as long as no future is dropped: what a kernel still has to answer is the
  cell of a call in flight.
\<close>

section \<open>Definitions\<close>

fun stage_kernel :: "call_stage \<Rightarrow> nat option" where
  "stage_kernel (Install kid) = Some kid"
| "stage_kernel (Await_Ready kid) = Some kid"
| "stage_kernel (Start_Cell kid) = Some kid"
| "stage_kernel (In_Cell kid cell st) = Some kid"
| "stage_kernel Check = None"
| "stage_kernel Launch = None"
| "stage_kernel (Release r) = None"

definition owns :: "'v manager \<Rightarrow> nat \<Rightarrow> nat \<Rightarrow> bool" where
  "owns m kid s \<longleftrightarrow>
     s_kernel (m_slot m s) = Some kid \<or>
     (\<exists>i c. m_call m i = Some c \<and> call_slot c = s \<and> stage_kernel (call_stage c) = Some kid)"

definition calls_inv :: "'v manager \<Rightarrow> bool" where
  "calls_inv m \<longleftrightarrow>
     (\<forall>i c. m_call m i = Some c \<longrightarrow>
        s_busy (m_slot m (call_slot c)) \<and> call_slot c < m_next_slot m \<and> i < m_next_call m) \<and>
     (\<forall>i j c d. m_call m i = Some c \<longrightarrow> m_call m j = Some d \<longrightarrow> call_slot c = call_slot d \<longrightarrow>
        i = j) \<and>
     (\<forall>s. s_busy (m_slot m s) \<longrightarrow> (\<exists>i c. m_call m i = Some c \<and> call_slot c = s)) \<and>
     (\<forall>kid s. owns m kid s \<longrightarrow>
        kid < m_next_kernel m \<and> s < m_next_slot m \<and> m_kernel m kid \<noteq> None) \<and>
     (\<forall>kid s s'. owns m kid s \<longrightarrow> owns m kid s' \<longrightarrow> s = s') \<and>
     (\<forall>key s. bm_get (m_slots m) key = Some s \<longrightarrow> s < m_next_slot m) \<and>
     bm_wf (m_slots m)"

lemma calls_invI:
  assumes "\<And>i c. m_call m i = Some c \<Longrightarrow>
             s_busy (m_slot m (call_slot c)) \<and> call_slot c < m_next_slot m \<and> i < m_next_call m"
    and "\<And>i j c d. m_call m i = Some c \<Longrightarrow> m_call m j = Some d \<Longrightarrow>
           call_slot c = call_slot d \<Longrightarrow> i = j"
    and "\<And>s. s_busy (m_slot m s) \<Longrightarrow> \<exists>i c. m_call m i = Some c \<and> call_slot c = s"
    and "\<And>kid s. owns m kid s \<Longrightarrow>
           kid < m_next_kernel m \<and> s < m_next_slot m \<and> m_kernel m kid \<noteq> None"
    and "\<And>kid s s'. owns m kid s \<Longrightarrow> owns m kid s' \<Longrightarrow> s = s'"
    and "\<And>key s. bm_get (m_slots m) key = Some s \<Longrightarrow> s < m_next_slot m"
    and "bm_wf (m_slots m)"
  shows "calls_inv m"
  unfolding calls_inv_def using assms by blast

lemma calls_invD:
  assumes "calls_inv m"
  shows call_busy: "m_call m i = Some c \<Longrightarrow> s_busy (m_slot m (call_slot c))"
    and call_slot_less: "m_call m i = Some c \<Longrightarrow> call_slot c < m_next_slot m"
    and call_less: "m_call m i = Some c \<Longrightarrow> i < m_next_call m"
    and call_unique: "m_call m i = Some c \<Longrightarrow> m_call m j = Some d \<Longrightarrow>
           call_slot c = call_slot d \<Longrightarrow> i = j"
    and busy_call: "s_busy (m_slot m s) \<Longrightarrow> \<exists>i c. m_call m i = Some c \<and> call_slot c = s"
    and owns_less: "owns m kid s \<Longrightarrow> kid < m_next_kernel m"
    and owns_slot_less: "owns m kid s \<Longrightarrow> s < m_next_slot m"
    and owns_kernel: "owns m kid s \<Longrightarrow> m_kernel m kid \<noteq> None"
    and owns_unique: "owns m kid s \<Longrightarrow> owns m kid s' \<Longrightarrow> s = s'"
    and slots_less: "bm_get (m_slots m) key = Some s \<Longrightarrow> s < m_next_slot m"
    and slots_wf: "bm_wf (m_slots m)"
  using assms unfolding calls_inv_def by blast+

section \<open>The primitive updates\<close>

lemma manager_frames [simp]:
  "m_slots (set_busy s b m) = m_slots m" "m_next_slot (set_busy s b m) = m_next_slot m"
  "m_kernel (set_busy s b m) = m_kernel m" "m_call (set_busy s b m) = m_call m"
  "m_next_kernel (set_busy s b m) = m_next_kernel m" "m_next_call (set_busy s b m) = m_next_call m"
  "m_slots (set_slot_kernel s k m) = m_slots m"
  "m_next_slot (set_slot_kernel s k m) = m_next_slot m"
  "m_kernel (set_slot_kernel s k m) = m_kernel m" "m_call (set_slot_kernel s k m) = m_call m"
  "m_next_kernel (set_slot_kernel s k m) = m_next_kernel m"
  "m_next_call (set_slot_kernel s k m) = m_next_call m"
  "m_slots (on_kernel kid f m) = m_slots m" "m_next_slot (on_kernel kid f m) = m_next_slot m"
  "m_slot (on_kernel kid f m) = m_slot m" "m_call (on_kernel kid f m) = m_call m"
  "m_next_kernel (on_kernel kid f m) = m_next_kernel m"
  "m_next_call (on_kernel kid f m) = m_next_call m"
  "m_slots (set_stage i st m) = m_slots m" "m_next_slot (set_stage i st m) = m_next_slot m"
  "m_slot (set_stage i st m) = m_slot m" "m_kernel (set_stage i st m) = m_kernel m"
  "m_next_kernel (set_stage i st m) = m_next_kernel m"
  "m_next_call (set_stage i st m) = m_next_call m"
  by (simp_all add: set_busy_def set_slot_kernel_def on_kernel_def set_stage_def)

lemma set_busy_slot [simp]:
  "s_busy (m_slot (set_busy s b m) t) = (if t = s then b else s_busy (m_slot m t))"
  "s_kernel (m_slot (set_busy s b m) t) = s_kernel (m_slot m t)"
  by (simp_all add: set_busy_def)

lemma set_slot_kernel_slot [simp]:
  "s_busy (m_slot (set_slot_kernel s k m) t) = s_busy (m_slot m t)"
  "s_kernel (m_slot (set_slot_kernel s k m) t) = (if t = s then k else s_kernel (m_slot m t))"
  by (simp_all add: set_slot_kernel_def)

lemma on_kernel_kernel [simp]:
  "m_kernel (on_kernel kid f m) j = (if j = kid then map_option f (m_kernel m j) else m_kernel m j)"
  by (simp add: on_kernel_def)

lemma set_stage_call [simp]:
  "m_call (set_stage i st m) j =
     (if j = i then map_option (\<lambda>c. c\<lparr>call_stage := st\<rparr>) (m_call m j) else m_call m j)"
  by (simp add: set_stage_def)

lemma owns_on_kernel [simp]: "owns (on_kernel kid f m) k s = owns m k s"
  by (simp add: owns_def)

text \<open>The invariant survives a change that leaves the calls alone and claims no new kernel.\<close>

lemma calls_inv_mono:
  assumes inv: "calls_inv m"
    and same: "m_call m' = m_call m" "\<And>s. s_busy (m_slot m' s) = s_busy (m_slot m s)"
      "m_next_slot m' = m_next_slot m" "m_next_call m' = m_next_call m"
      "m_next_kernel m' = m_next_kernel m"
    and sub: "\<And>kid s. owns m' kid s \<Longrightarrow> owns m kid s"
    and kern: "\<And>kid. m_kernel m kid \<noteq> None \<Longrightarrow> m_kernel m' kid \<noteq> None"
    and slots: "\<And>key s. bm_get (m_slots m') key = Some s \<Longrightarrow> bm_get (m_slots m) key = Some s"
      "bm_wf (m_slots m')"
  shows "calls_inv m'"
proof (rule calls_invI, goal_cases)
  case (1 i c)
  then show ?case using calls_invD(1-3) [OF inv, of i c] same by simp
next
  case (2 i j c d)
  then show ?case using call_unique [OF inv] same by auto
next
  case (3 s)
  then show ?case using busy_call [OF inv] same by simp
next
  case (4 kid s)
  then show ?case using calls_invD(6-8) [OF inv sub [OF 4]] kern [of kid] same by simp
next
  case (5 kid s s')
  then show ?case using owns_unique [OF inv] sub by blast
next
  case (6 key s)
  then show ?case using slots_less [OF inv slots(1) [OF 6]] same by simp
next
  case 7
  then show ?case using slots by simp
qed

lemma calls_inv_on_kernel: "calls_inv m \<Longrightarrow> calls_inv (on_kernel kid f m)"
  by (rule calls_inv_mono) (auto dest: slots_wf)

lemma owns_slot_kernel:
  "owns (set_slot_kernel s k m) kid t \<Longrightarrow> owns m kid t \<or> (t = s \<and> k = Some kid)"
  by (auto simp: owns_def split: if_splits)

lemma calls_inv_set_slot_kernel:
  assumes inv: "calls_inv m" and k: "\<And>kid. k = Some kid \<Longrightarrow> owns m kid s"
  shows "calls_inv (set_slot_kernel s k m)"
proof -
  have sub: "owns m kid t" if "owns (set_slot_kernel s k m) kid t" for kid t
    using owns_slot_kernel [OF that] k by auto
  show ?thesis
    by (rule calls_inv_mono [OF inv]) (use sub slots_wf [OF inv] in auto)
qed

lemma owns_set_stage:
  assumes "owns (set_stage i st m) kid t"
  shows "owns m kid t \<or> (\<exists>c. m_call m i = Some c \<and> t = call_slot c \<and> stage_kernel st = Some kid)"
  using assms by (auto simp: owns_def split: if_splits)

lemma calls_inv_set_stage:
  assumes inv: "calls_inv m" and c: "m_call m i = Some c"
    and k: "\<And>kid. stage_kernel st = Some kid \<Longrightarrow> owns m kid (call_slot c)"
  shows "calls_inv (set_stage i st m)"
proof -
  have sub: "owns m kid t" if "owns (set_stage i st m) kid t" for kid t
    using owns_set_stage [OF that] k c by auto
  have old: "\<exists>d'. m_call m j = Some d' \<and> call_slot d' = call_slot d"
    if "m_call (set_stage i st m) j = Some d" for j d
    using that by (auto split: if_splits)
  have new: "\<exists>d'. m_call (set_stage i st m) j = Some d' \<and> call_slot d' = call_slot d"
    if "m_call m j = Some d" for j d
    using that by auto
  show ?thesis
  proof (rule calls_invI, goal_cases)
    case (1 j d)
    then obtain d' where "m_call m j = Some d'" "call_slot d' = call_slot d" using old by blast
    with call_busy [OF inv, of j d'] call_slot_less [OF inv, of j d'] call_less [OF inv, of j d']
    show ?case by simp
  next
    case (2 j j' d d')
    then show ?case using old call_unique [OF inv] by metis
  next
    case (3 s)
    then show ?case using busy_call [OF inv, of s] new by fastforce
  next
    case (4 kid s)
    then show ?case using calls_invD(6-8) [OF inv sub [OF 4]] by simp
  next
    case (5 kid s s')
    then show ?case using sub owns_unique [OF inv] by blast
  qed (use slots_less [OF inv] slots_wf [OF inv] in simp_all)
qed

lemma owns_stage:
  "m_call m i = Some c \<Longrightarrow> stage_kernel (call_stage c) = Some kid \<Longrightarrow> owns m kid (call_slot c)"
  by (auto simp: owns_def)

lemma calls_inv_end:
  assumes inv: "calls_inv m" and c: "m_call m i = Some c"
  shows "calls_inv ((set_busy (call_slot c) False m)\<lparr>m_call := (m_call m)(i := None), m_replies := r\<rparr>)"
    (is "calls_inv ?m")
proof -
  have sub: "owns m kid t" if "owns ?m kid t" for kid t
    using that by (auto simp: owns_def split: if_splits)
  show ?thesis
  proof (rule calls_invI, goal_cases)
    case (1 j d)
    then have "m_call m j = Some d" "j \<noteq> i" by (auto split: if_splits)
    with call_unique [OF inv c, of j d] have "call_slot d \<noteq> call_slot c" by auto
    with \<open>m_call m j = Some d\<close> calls_invD(1-3) [OF inv, of j d] show ?case by simp
  next
    case (2 j j' d d')
    then show ?case using call_unique [OF inv] by (auto split: if_splits)
  next
    case (3 s)
    then have "s \<noteq> call_slot c" "s_busy (m_slot m s)" by (auto split: if_splits)
    with busy_call [OF inv, of s] obtain j d where "m_call m j = Some d" "call_slot d = s" by blast
    with c \<open>s \<noteq> call_slot c\<close> show ?case by (intro exI [of _ j] exI [of _ d]) auto
  next
    case (4 kid s)
    then show ?case using calls_invD(6-8) [OF inv sub [OF 4]] by simp
  next
    case (5 kid s s')
    then show ?case using sub owns_unique [OF inv] by blast
  qed (use slots_less [OF inv] slots_wf [OF inv] in simp_all)
qed

section \<open>Every label keeps \<open>calls_inv\<close>\<close>

lemma calls_inv_default: "calls_inv manager_default"
  by (rule calls_invI) (auto simp: manager_default_def slot_default_def owns_def)

lemma calls_inv_new_slot:
  fixes m key
  defines "m' \<equiv> m\<lparr>m_slots := bm_insert key (m_next_slot m) (m_slots m),
    m_slot := (m_slot m)(m_next_slot m := slot_default), m_next_slot := m_next_slot m + 1\<rparr>"
  assumes inv: "calls_inv m"
  shows "calls_inv m'"
proof (rule calls_invI, goal_cases)
  have sub: "owns m kid r" if "owns m' kid r" for kid r
    using that by (auto simp: m'_def owns_def slot_default_def split: if_splits)
  {
    case (1 i c)
    then have "m_call m i = Some c" by (simp add: m'_def)
    with calls_invD(1-3) [OF inv, of i c] show ?case by (auto simp: m'_def)
  next
    case (2 i j c d)
    then show ?case using call_unique [OF inv] by (simp add: m'_def)
  next
    case (3 r)
    then show ?case using busy_call [OF inv, of r]
      by (auto simp: m'_def slot_default_def split: if_splits)
  next
    case (4 kid r)
    then show ?case using calls_invD(6-8) [OF inv sub [OF 4]] by (simp add: m'_def)
  next
    case (5 kid r r')
    then show ?case using owns_unique [OF inv] sub by blast
  next
    case (6 key r)
    then show ?case using slots_less [OF inv, of key r] by (auto simp: m'_def split: if_splits)
  next
    case 7
    then show ?case using slots_wf [OF inv] by (simp add: m'_def)
  }
qed

lemma slot_for_facts:
  assumes inv: "calls_inv m" and s: "slot_for t m = (s, m')"
  shows "calls_inv m'" "s < m_next_slot m'" "m_call m' = m_call m" "m_kernel m' = m_kernel m"
proof -
  have "calls_inv m' \<and> s < m_next_slot m' \<and> m_call m' = m_call m \<and> m_kernel m' = m_kernel m"
    using s inv slots_less [OF inv] calls_inv_new_slot [OF inv]
    by (auto simp: slot_for_def split: option.splits)
  then show "calls_inv m'" "s < m_next_slot m'" "m_call m' = m_call m" "m_kernel m' = m_kernel m"
    by simp_all
qed

text \<open>A call that finds the flag clear takes the slot.\<close>

lemma calls_inv_acquire:
  assumes inv: "calls_inv m" and free: "\<not> s_busy (m_slot m s)" and s: "s < m_next_slot m"
    and c: "call_slot c = s" "stage_kernel (call_stage c) = None"
  shows "calls_inv ((set_busy s True m)\<lparr>m_call := (m_call m)(m_next_call m := Some c),
                                        m_next_call := m_next_call m + 1\<rparr>)" (is "calls_inv ?m")
proof -
  have sub: "owns m kid t" if "owns ?m kid t" for kid t
    using that c by (auto simp: owns_def split: if_splits)
  have other: "call_slot d \<noteq> s" if "m_call m j = Some d" for j d
    using call_busy [OF inv that] free by auto
  show ?thesis
  proof (rule calls_invI, goal_cases)
    case (1 j d)
    then show ?case using calls_invD(1-3) [OF inv, of j d] c s by (auto split: if_splits)
  next
    case (2 j j' d d')
    then show ?case using call_unique [OF inv, of j d j' d'] other [of j d] other [of j' d'] c
      by (auto split: if_splits)
  next
    case (3 t)
    show ?case
    proof (cases "t = s")
      case True
      then show ?thesis using c by (intro exI [of _ "m_next_call m"]) auto
    next
      case False
      with 3 busy_call [OF inv, of t] obtain j d where "m_call m j = Some d" "call_slot d = t"
        by auto
      moreover from this have "j < m_next_call m" using call_less [OF inv] by simp
      ultimately show ?thesis by (intro exI [of _ j] exI [of _ d]) auto
    qed
  next
    case (4 kid t)
    then show ?case using calls_invD(6-8) [OF inv sub [OF 4]] by simp
  next
    case (5 kid t t')
    then show ?case using owns_unique [OF inv] sub by blast
  qed (use slots_less [OF inv] slots_wf [OF inv] in simp_all)
qed

lemma execute_begin_cases:
  obtains (refused) e where "fst (execute_begin d reg params m) = Inl e"
      "snd (execute_begin d reg params m) = m \<or>
       snd (execute_begin d reg params m) = snd (slot_for (ex_target params) m)"
  | (started) s m' c where "slot_for (ex_target params) m = (s, m')" "\<not> s_busy (m_slot m' s)"
      "call_slot c = s" "call_stage c = Check"
      "execute_begin d reg params m =
         (Inr (m_next_call m'),
          (set_busy s True m')\<lparr>m_call := (m_call m')(m_next_call m' := Some c),
                               m_next_call := m_next_call m' + 1\<rparr>)"
proof (cases "reg = None \<or> CELL_CODE < length (ex_code params)")
  case True
  then have "\<exists>e. execute_begin d reg params m = (Inl e, m)"
    by (cases reg) (simp_all add: execute_begin_def)
  then obtain e where "execute_begin d reg params m = (Inl e, m)" ..
  then show ?thesis using refused by simp
next
  case False
  note ok = False
  obtain s m' where sm: "slot_for (ex_target params) m = (s, m')" by fastforce
  show ?thesis
  proof (cases "s_busy (m_slot m' s)")
    case True
    with ok sm refused show ?thesis by (auto simp: execute_begin_def Let_def)
  next
    case False
    with ok sm show ?thesis
      using started [of s m' "\<lparr>call_slot = s, call_code = ex_code params,
          call_timeout = unat (clamp_timeout d (ex_timeout_sec params)) * 1000,
          call_stage = Check\<rparr>"]
      by (auto simp: execute_begin_def Let_def)
  qed
qed

lemma calls_inv_execute_begin:
  assumes inv: "calls_inv m"
  shows "calls_inv (snd (execute_begin d reg params m))"
proof (cases rule: execute_begin_cases [of d reg params m])
  case (refused e)
  obtain s m' where sm: "slot_for (ex_target params) m = (s, m')" by fastforce
  from refused(2) sm slot_for_facts(1) [OF inv sm] inv show ?thesis by auto
next
  case (started s m' c)
  then show ?thesis
    using calls_inv_acquire [OF slot_for_facts(1) [OF inv started(1)] started(2)
        slot_for_facts(2) [OF inv started(1)], of c]
    by simp
qed

lemma calls_inv_launch:
  assumes inv: "calls_inv m" and c: "m_call m i = Some c"
  shows "calls_inv (set_stage i (Install (m_next_kernel m))
           (m\<lparr>m_kernel := (m_kernel m)(m_next_kernel m := Some k),
              m_next_kernel := m_next_kernel m + 1\<rparr>))" (is "calls_inv ?m")
proof -
  let ?n = "m_next_kernel m"
  have sub: "owns m kid t \<or> (kid = ?n \<and> t = call_slot c)" if "owns ?m kid t" for kid t
    using that c by (auto simp: owns_def split: if_splits)
  have old: "\<exists>d'. m_call m j = Some d' \<and> call_slot d' = call_slot d" if "m_call ?m j = Some d" for j d
    using that by (auto split: if_splits)
  have not_n: "\<not> owns m ?n t" for t using owns_less [OF inv, of ?n t] by auto
  show ?thesis
  proof (rule calls_invI, goal_cases)
    case (1 j d)
    then obtain d' where "m_call m j = Some d'" "call_slot d' = call_slot d" using old by blast
    with calls_invD(1-3) [OF inv, of j d'] show ?case by simp
  next
    case (2 j j' d d')
    then show ?case using old call_unique [OF inv] by metis
  next
    case (3 s)
    then obtain j d where "m_call m j = Some d" "call_slot d = s"
      using busy_call [OF inv, of s] by auto
    then show ?case by (intro exI [of _ j]) auto
  next
    case (4 kid t)
    then show ?case using sub [OF 4] calls_invD(6-8) [OF inv, of kid t] call_slot_less [OF inv c]
      by auto
  next
    case (5 kid t t')
    then show ?case using sub owns_unique [OF inv] not_n by metis
  qed (use slots_less [OF inv] slots_wf [OF inv] in simp_all)
qed

lemma calls_inv_on_kernel_stage:
  "calls_inv m \<Longrightarrow> m_call m i = Some c \<Longrightarrow> (\<And>kid. stage_kernel st = Some kid \<Longrightarrow> owns m kid (call_slot c)) \<Longrightarrow>
     calls_inv (set_stage i st (on_kernel j f m))"
  by (rule calls_inv_set_stage [where c = c]) (auto intro: calls_inv_on_kernel)

lemma calls_inv_poll:
  assumes inv: "calls_inv m"
  shows "calls_inv (poll_call env i m)"
proof (cases "m_call m i")
  case None
  then show ?thesis using inv by (simp add: poll_call_def)
next
  case (Some c)
  note stage = calls_inv_set_stage [OF inv Some] calls_inv_on_kernel_stage [OF inv Some]
  have own: "owns m kid (call_slot c)" if "stage_kernel (call_stage c) = Some kid" for kid
    using Some that by (rule owns_stage)
  have cur: "owns m kid (call_slot c)" if "s_kernel (m_slot m (call_slot c)) = Some kid" for kid
    using that by (simp add: owns_def)
  show ?thesis
  proof (cases "call_stage c")
    case Check
    with Some show ?thesis
      by (auto simp: poll_call_def split: bind_splits option.splits intro!: stage cur inv)
  next
    case Launch
    with Some show ?thesis
      using calls_inv_launch [OF inv Some]
      by (auto simp: poll_call_def Let_def split: sum.splits intro!: stage)
  next
    case (Install kid)
    have "calls_inv (set_slot_kernel (call_slot c) (Some kid) m)"
      using inv own Install by (intro calls_inv_set_slot_kernel) auto
    moreover have "owns (set_slot_kernel (call_slot c) (Some kid) m) kid (call_slot c)"
      by (simp add: owns_def)
    ultimately show ?thesis
      using Some Install by (auto simp: poll_call_def intro!: calls_inv_set_stage)
  next
    case (Await_Ready kid)
    with Some own show ?thesis
      by (auto simp: poll_call_def split: option.splits chan.splits intro!: stage inv)
  next
    case (Start_Cell kid)
    with Some own show ?thesis
      by (auto simp: poll_call_def split: option.splits prod.splits sum.splits intro!: stage inv)
  next
    case (In_Cell kid cell st)
    with Some own show ?thesis
      by (auto simp: poll_call_def split: option.splits prod.splits cell_stage.splits
          intro!: stage inv)
  next
    case (Release r)
    with Some show ?thesis using calls_inv_end [OF inv Some] by (simp add: poll_call_def)
  qed
qed

lemma calls_inv_cancel: "calls_inv m \<Longrightarrow> calls_inv (cancel_call i m)"
proof (cases "m_call m i")
  case None
  then show "calls_inv m \<Longrightarrow> ?thesis" by (simp add: cancel_call_def)
next
  case (Some c)
  assume "calls_inv m"
  from calls_inv_end [OF this Some, of "m_replies m"] Some show ?thesis
    by (simp add: cancel_call_def set_busy_def)
qed

lemma calls_inv_stop_kernel: "calls_inv m \<Longrightarrow> calls_inv (stop_kernel ko m)"
  by (auto simp: stop_kernel_def split: option.splits intro: calls_inv_on_kernel)

lemma calls_inv_fold_kernel:
  "calls_inv m \<Longrightarrow> calls_inv (fold (\<lambda>kid. on_kernel kid f) kids m)"
  by (induction kids arbitrary: m) (simp_all add: calls_inv_on_kernel)

lemma calls_inv_forget: "calls_inv m \<Longrightarrow> calls_inv (m\<lparr>m_slots := bm_remove key (m_slots m)\<rparr>)"
  by (rule calls_inv_mono) (auto simp: owns_def slots_wf split: if_splits)

lemma calls_inv_label: "calls_inv m \<Longrightarrow> calls_inv (apply_label l m)"
proof (cases l)
  case (Restart t)
  moreover assume "calls_inv m"
  ultimately show ?thesis
    by (auto simp: manager_restart_def split: option.splits
        intro!: calls_inv_stop_kernel calls_inv_set_slot_kernel)
next
  case (Shutdown_Target t)
  moreover assume "calls_inv m"
  ultimately show ?thesis
    by (auto simp: shutdown_target_def split: option.splits
        intro!: calls_inv_stop_kernel calls_inv_set_slot_kernel calls_inv_forget)
next
  case (Interrupt_Target t)
  moreover assume "calls_inv m"
  ultimately show ?thesis
    by (auto simp: manager_interrupt_def split: option.splits intro!: calls_inv_on_kernel)
qed (auto simp: stop_all_def intro: calls_inv_execute_begin calls_inv_poll calls_inv_cancel
    calls_inv_on_kernel calls_inv_fold_kernel)

interpretation calls: inductive_invariant "\<lambda>m. m = manager_default" "manager_step allowed" calls_inv
  for allowed :: "'v label \<Rightarrow> bool"
  by unfold_locales (auto simp: calls_inv_default intro: calls_inv_label elim: manager_stepE)

end
