(* ===== verification/Host_Inv.thy ===== *)
theory Host_Inv
  imports Host Kernel_Inv
begin

text \<open>
  The calls of \<open>host.rs\<close> as transactions: a call that fails leaves registry and queue alone, one
  that succeeds keeps their invariant, whoever calls and whatever the file system does.
\<close>

section \<open>The changes\<close>

lemma next_sequence_limits: "registry_limits d r \<Longrightarrow> registry_limits d (snd (next_sequence r k))"
  by (simp add: registry_limits_def next_sequence_def targets_ok_def live_children_def Let_def)

lemma next_sequence_frame [simp]:
  "children (snd (next_sequence r k)) = children r" "targets (snd (next_sequence r k)) = targets r"
  by (simp_all add: next_sequence_def Let_def)

lemma core_inv_next_sequence:
  "core_inv (registry_limits d) c \<Longrightarrow>
     core_inv (registry_limits d) (snd (on_registry (\<lambda>r. next_sequence r k) c))"
  by (simp add: core_inv_def next_sequence_limits)

lemma spawn_change_Err: "spawn_change w md owner params c = (Inl e, c') \<Longrightarrow> c' = c"
  by (auto simp: spawn_change_def on_registry_def split: prod.splits sum.splits
      dest!: admit_Err)

lemma spawn_change_OkD:
  assumes "spawn_change w md owner params c = (Inr child, c')"
  shows "\<exists>r'. admit (w_runtime w) (core_registry c) owner params md (w_now w) = (Inr child, r') \<and>
    c' = snd (enqueue (c\<lparr>core_registry := r'\<rparr>) (child_spawn child (w_event_now w)))"
  using assms by (auto simp: spawn_change_def on_registry_def split: prod.splits sum.splits)

interpretation change_spawn: core_change "spawn_change w md owner params" "registry_limits (unat md)"
  for w md owner params
proof
  fix s e s'
  show "spawn_change w md owner params s = (Inl e, s') \<Longrightarrow> s' = s" by (rule spawn_change_Err)
next
  fix s child s'
  assume inv: "core_inv (registry_limits (unat md)) s"
    and ok: "spawn_change w md owner params s = (Inr child, s')"
  from spawn_change_OkD [OF ok] obtain r' where
    r: "admit (w_runtime w) (core_registry s) owner params md (w_now w) = (Inr child, r')"
    and s': "s' = snd (enqueue (s\<lparr>core_registry := r'\<rparr>) (child_spawn child (w_event_now w)))" by blast
  have "registry_limits (unat md) r'"
    using admit_limits [OF core_invD(1) [OF inv] r] by simp
  with inv have "core_inv (registry_limits (unat md)) (s\<lparr>core_registry := r'\<rparr>)"
    by (simp add: core_inv_def)
  then show "core_inv (registry_limits (unat md)) s'" unfolding s' by (rule enqueue_inv)
qed

text \<open>The sequence number a sender's next message gets.\<close>

definition next_number :: "core \<Rightarrow> string \<Rightarrow> u64" where
  "next_number c key = fst (next_sequence (core_registry c) key)"

definition after_sequence :: "core \<Rightarrow> string \<Rightarrow> core" where
  "after_sequence c key = snd (on_registry (\<lambda>r. next_sequence r key) c)"

lemma after_sequence_inv:
  "core_inv (registry_limits d) c \<Longrightarrow> core_inv (registry_limits d) (after_sequence c key)"
  by (simp add: after_sequence_def core_inv_next_sequence)

lemma to_parent_OkD:
  assumes "to_parent_change now sender msg c = (Inr eid, c')"
  obtains child where "binding (core_registry c) sender = Some child"
    "eid = e_id (message_to_parent child (next_number c (c_id child)) msg now)"
    "c' = snd (enqueue (after_sequence c (c_id child))
                (message_to_parent child (next_number c (c_id child)) msg now))"
proof (cases "binding (core_registry c) sender")
  case None
  then show ?thesis using assms by (simp add: to_parent_change_def)
next
  case (Some child)
  then show ?thesis using assms that [of child]
    by (simp add: to_parent_change_def Let_def split_beta next_number_def after_sequence_def
        on_registry_def)
qed

lemma to_child_OkD:
  assumes "to_child_change now sender name msg c = (Inr eid, c')"
  obtains child session where "running_child_named (core_registry c) sender name = Some child"
    "c_session child = Some session"
    "eid = e_id (message_to_child sender session (next_number c (target_key sender)) msg now)"
    "c' = snd (enqueue (after_sequence c (target_key sender))
                (message_to_child sender session (next_number c (target_key sender)) msg now))"
proof (cases "Option.bind (running_child_named (core_registry c) sender name) c_session")
  case None
  then show ?thesis using assms by (simp add: to_child_change_def)
next
  case (Some session)
  then obtain child where "running_child_named (core_registry c) sender name = Some child"
      "c_session child = Some session"
    by (auto split: bind_splits)
  then show ?thesis using assms that [of child session]
    by (simp add: to_child_change_def Let_def split_beta next_number_def after_sequence_def
        on_registry_def)
qed

interpretation change_to_parent: core_change "to_parent_change now sender msg" "registry_limits d"
  for now sender msg d
proof
  fix s e s'
  show "to_parent_change now sender msg s = (Inl e, s') \<Longrightarrow> s' = s"
    by (auto simp: to_parent_change_def Let_def split: option.splits prod.splits)
next
  fix s x s'
  assume inv: "core_inv (registry_limits d) s" and ok: "to_parent_change now sender msg s = (Inr x, s')"
  from ok show "core_inv (registry_limits d) s'"
    by (rule to_parent_OkD) (simp add: enqueue_inv after_sequence_inv inv)
qed

interpretation change_to_child: core_change "to_child_change now sender name msg" "registry_limits d"
  for now sender name msg d
proof
  fix s e s'
  show "to_child_change now sender name msg s = (Inl e, s') \<Longrightarrow> s' = s"
    by (auto simp: to_child_change_def Let_def split: option.splits prod.splits)
next
  fix s x s'
  assume inv: "core_inv (registry_limits d) s"
    and ok: "to_child_change now sender name msg s = (Inr x, s')"
  from ok show "core_inv (registry_limits d) s'"
    by (rule to_child_OkD) (simp add: enqueue_inv after_sequence_inv inv)
qed

interpretation change_enqueue: core_change "enqueue_change e" "registry_limits d" for e d
  by unfold_locales
    (auto simp: enqueue_change_def map_prod_def split_beta intro: enqueue_inv)

interpretation change_withdraw: core_change "withdraw_change owner eid" "registry_limits d"
  for owner eid d
  by unfold_locales
    (auto simp: withdraw_change_def on_queue_def map_prod_def split_beta core_inv_def
      intro: withdraw_inv)

section \<open>The calls\<close>

definition app_inv :: "'v app \<Rightarrow> bool" where
  "app_inv app \<longleftrightarrow>
     core_inv (registry_limits (unat (o_max_depth (a_options app)))) (app_core app) \<and>
     core_notify (app_core app) = []"

lemma app_update_simps [simp]:
  "fst (app_update w change app) = fst (change (app_core app))"
  "app_core (snd (app_update w change app)) = snd (change (app_core app))\<lparr>core_notify := []\<rparr>"
  "a_options (snd (app_update w change app)) = a_options app"
  "a_kernels (snd (app_update w change app)) = a_kernels app"
  by (simp_all add: app_update_def split_beta)

lemma app_updateD:
  assumes "app_update w change app = (r, app')"
  shows "fst (change (app_core app)) = r"
    "app_core app' = snd (change (app_core app))\<lparr>core_notify := []\<rparr>"
    "a_options app' = a_options app" "a_kernels app' = a_kernels app"
  using app_update_simps [of w change app] unfolding assms by simp_all

text \<open>What the two locale facts say of a change run by the application.\<close>

lemma app_update_inv:
  assumes "core_change change (registry_limits (unat (o_max_depth (a_options app))))" and "app_inv app"
  shows "app_inv (snd (app_update w change app))"
proof -
  have "core_inv (registry_limits (unat (o_max_depth (a_options app))))
      (st_core (snd (update (w_codec w) (unat (w_pid w)) (w_io w) change (a_state app))))"
    using core_change.update_keeps [OF assms(1)] assms(2) by (simp add: app_inv_def)
  then show ?thesis by (simp add: app_inv_def)
qed

lemma app_update_failed:
  assumes "core_change change (registry_limits (unat (o_max_depth (a_options app))))" and "app_inv app"
    and "fst (app_update w change app) = Inl e"
  shows "app_core (snd (app_update w change app)) = app_core app"
    and "st_files (a_state (snd (app_update w change app))) = st_files (a_state app)"
    and "st_changes (a_state (snd (app_update w change app))) = st_changes (a_state app)"
  using core_change.update_failed [OF assms(1), of "a_state app" "w_codec w" "unat (w_pid w)" "w_io w" e]
    assms(2,3)
  by (simp_all add: app_inv_def app_update_def split_beta)

lemma app_inv_kernels [simp]: "app_inv (app\<lparr>a_kernels := m\<rparr>) = app_inv app"
  by (simp add: app_inv_def)

lemmas host_changes =
  change_spawn.core_change_axioms change_to_parent.core_change_axioms
  change_to_child.core_change_axioms change_enqueue.core_change_axioms
  change_withdraw.core_change_axioms

lemma method_delete_change: "core_change (on_registry (\<lambda>r. registry_delete r p sel)) (registry_limits d)"
  by unfold_locales
    (auto simp: on_registry_def core_inv_def split: prod.splits
      dest: registry_delete_Err registry_delete_keeps(1))

lemma spawn_app_inv: "app_inv app \<Longrightarrow> app_inv (snd (spawn w owner params app))"
  unfolding spawn_def by (rule app_update_inv) (rule host_changes)

lemma delete_child_app_inv: "app_inv app \<Longrightarrow> app_inv (snd (delete_child w owner sel app))"
  using app_update_inv [OF method_delete_change, of app w owner sel]
  by (auto simp: delete_child_def split: prod.splits sum.splits option.splits)

lemma send_message_app_inv: "app_inv app \<Longrightarrow> app_inv (snd (send_message w owner params app))"
  by (auto simp: send_message_def split: role.splits option.splits
      intro!: app_update_inv host_changes)

lemma snd_respond [simp]: "snd (respond js f ra) = snd ra"
  by (simp add: respond_def)

lemma host_call_app_inv: "app_inv app \<Longrightarrow> app_inv (snd (host_call w owner pid call app))"
  by (auto simp: host_call_def spawn_app_inv delete_child_app_inv send_message_app_inv
      split: host_call.splits intro!: app_update_inv host_changes)

lemma host_handle_app_inv: "app_inv app \<Longrightarrow> app_inv (snd (host_handle w owner pid method params app))"
  by (simp add: host_handle_def host_call_app_inv split: sum.splits)

end
