(* ===== verification/Rpc_Inv.thy ===== *)
theory Rpc_Inv
  imports Rpc Host_Inv
begin

text \<open>
  Requests as transactions: every handler keeps the invariant of the core, and a refused request
  leaves registry, queue, state files and listeners alone. The properties of \<open>host.rs\<close>,
  \<open>rpc.rs\<close> and \<open>server.rs\<close> are at the end.
\<close>

section \<open>The changes of the RPC handlers\<close>

interpretation change_fail: core_change "fail_change now t cid reason" "registry_limits d"
  for now t cid reason d
proof
  fix s e s'
  show "fail_change now t cid reason s = (Inl e, s') \<Longrightarrow> s' = s"
    by (auto simp: fail_change_def on_registry_def Let_def split: prod.splits sum.splits
        dest!: registry_fail_Err)
next
  fix s child s'
  assume inv: "core_inv (registry_limits d) s"
    and ok: "fail_change now t cid reason s = (Inr child, s')"
  then obtain r' where r: "registry_fail (core_registry s) t cid = (Inr child, r')"
    by (auto simp: fail_change_def on_registry_def Let_def split: prod.splits sum.splits)
  let ?s = "s\<lparr>core_registry := r'\<rparr>"
  have "core_inv (registry_limits d) ?s"
    using inv registry_fail_keeps(1) [OF r] by (simp add: core_inv_def)
  moreover have "\<exists>e. s' = snd (enqueue (snd (on_registry (\<lambda>r. next_sequence r (c_id child)) ?s)) e)"
    using ok r by (auto simp: fail_change_def on_registry_def Let_def split: prod.splits)
  ultimately show "core_inv (registry_limits d) s'"
    using enqueue_inv core_inv_next_sequence by blast
qed

interpretation change_ack: core_change "ack_change t ids" "registry_limits d" for t ids d
  by unfold_locales
    (auto simp: ack_change_def on_queue_def map_prod_def split_beta core_inv_def intro: ack_inv)

interpretation change_bind: core_change "on_registry (\<lambda>r. registry_bind r t cid s)" "registry_limits d"
  for t cid s d
  by unfold_locales
    (auto simp: on_registry_def core_inv_def split: prod.splits
      dest: registry_bind_Err registry_bind_keeps(1))

interpretation change_register: core_change "on_registry (\<lambda>r. register r params)" "registry_limits d"
  for params d
  by unfold_locales
    (auto simp: on_registry_def core_inv_def split: prod.splits
      dest: register_Err intro: register_limits)

lemmas rpc_changes =
  change_fail.core_change_axioms change_ack.core_change_axioms change_bind.core_change_axioms
  change_register.core_change_axioms

section \<open>The invariant\<close>

lemma snd_completed [simp]: "snd (completed ra) = snd ra"
  by (simp add: completed_def)

lemma dispatch_children_app_inv:
  "app_inv app \<Longrightarrow> app_inv (snd (dispatch_children_and_events w request app))"
  by (auto simp: dispatch_children_and_events_def delete_child_app_inv
      split: request.splits sum.splits intro!: app_update_inv rpc_changes)

lemma dispatch_request_app_inv: "app_inv app \<Longrightarrow> app_inv (snd (dispatch_request w request app))"
  by (auto simp: dispatch_request_def dispatch_children_app_inv Let_def split_beta
      split: request.splits sum.splits prod.splits intro!: app_update_inv rpc_changes)

lemma rpc_dispatch_app_inv: "app_inv app \<Longrightarrow> app_inv (snd (rpc_dispatch w request app))"
  by (simp add: rpc_dispatch_def dispatch_request_app_inv split: option.splits sum.splits)

lemma app_inv_touch [simp]: "app_inv (app_touch w app) = app_inv app"
  by (simp add: app_touch_def app_inv_def)

lemma parse_and_dispatch_app_inv:
  "app_inv app \<Longrightarrow> app_inv (snd (snd (parse_and_dispatch w bytes app)))"
  by (simp add: parse_and_dispatch_def Let_def rpc_dispatch_app_inv split: sum.splits)

lemma rpc_handle_app_inv:
  assumes "app_inv app"
  shows "app_inv (snd (rpc_handle w header body app))"
proof (cases "authorized header (o_token (a_options app))")
  case True
  then show ?thesis
    using assms parse_and_dispatch_app_inv [of "app_touch w app" w]
    by (auto simp: rpc_handle_def Let_def split_beta split: option.splits)
qed (simp add: rpc_handle_def assms)

section \<open>Refused requests\<close>

text \<open>
  What a refused request must not touch. Serialising a result to JSON does not fail for the
  structs of the protocol, which is the one thing asked of the serialiser.
\<close>

definition serialises :: "'v json \<Rightarrow> bool" where
  "serialises js \<longleftrightarrow> (\<forall>v. \<exists>x. j_to_value js v = Inr x)"

definition untouched :: "'v app \<Rightarrow> 'v app \<Rightarrow> bool" where
  "untouched app app' \<longleftrightarrow>
     app_core app' = app_core app \<and> st_files (a_state app') = st_files (a_state app) \<and>
     st_changes (a_state app') = st_changes (a_state app)"

lemma untouched_same [simp]: "untouched app app" "untouched app (app\<lparr>a_kernels := m\<rparr>)"
  by (simp_all add: untouched_def)

lemma to_json_Inr: "serialises js \<Longrightarrow> to_json js v \<noteq> Inl e"
proof -
  assume "serialises js"
  then obtain x where "j_to_value js v = Inr x" by (auto simp: serialises_def)
  then show ?thesis by (simp add: to_json_def)
qed

lemma respond_failed:
  "serialises js \<Longrightarrow> fst (respond js f ra) = Inl e \<Longrightarrow> fst ra = Inl e"
  by (cases "fst ra") (auto simp: respond_def to_json_Inr)

lemma update_untouched:
  assumes "core_change change (registry_limits (unat (o_max_depth (a_options app))))" "app_inv app"
    and "fst (app_update w change app) = Inl e"
  shows "untouched app (snd (app_update w change app))"
  using app_update_failed [OF assms] by (simp add: untouched_def)

lemma delete_child_failed:
  assumes "app_inv app" "fst (delete_child w t sel app) = Inl e"
  shows "untouched app (snd (delete_child w t sel app))"
proof -
  let ?u = "app_update w (on_registry (\<lambda>r. registry_delete r t sel)) app"
  obtain r a where u: "?u = (r, a)" by fastforce
  then have "r = Inl e" "snd (delete_child w t sel app) = a"
    using assms(2) by (auto simp: delete_child_def split: sum.splits)
  then show ?thesis
    using update_untouched [OF method_delete_change assms(1), of w t sel e] by (simp only: u) simp
qed

lemma respond_update_failed:
  assumes "serialises js" "app_inv app"
    and "core_change change (registry_limits (unat (o_max_depth (a_options app))))"
    and "fst (respond js f (app_update w change app)) = Inl e"
  shows "untouched app (snd (app_update w change app))"
  using update_untouched [OF assms(3,2) respond_failed [OF assms(1,4)]] .

lemma dispatch_children_failed:
  assumes js: "serialises (w_json w)" and inv: "app_inv app"
    and err: "fst (dispatch_children_and_events w request app) = Inl e"
  shows "untouched app (snd (dispatch_children_and_events w request app))"
proof (cases request)
  case (ChildrenBind t cid s)
  with err respond_update_failed [OF js inv rpc_changes(3)] show ?thesis
    by (auto simp: dispatch_children_and_events_def split: sum.splits)
next
  case (ChildrenFail t cid reason)
  with err respond_update_failed [OF js inv rpc_changes(1)] show ?thesis
    by (auto simp: dispatch_children_and_events_def)
next
  case (ChildrenDelete t cid)
  with err delete_child_failed [OF inv] respond_failed [OF js] show ?thesis
    by (fastforce simp: dispatch_children_and_events_def)
next
  case (EventsAck t ids)
  with err respond_update_failed [OF js inv rpc_changes(2)] show ?thesis
    by (auto simp: dispatch_children_and_events_def)
qed (use err in \<open>auto simp: dispatch_children_and_events_def\<close>)

lemma completed_failed [simp]: "fst (completed ra) = Done (Inl e) \<longleftrightarrow> fst ra = Inl e"
  by (simp add: completed_def)

lemma dispatch_request_failed:
  assumes js: "serialises (w_json w)" and inv: "app_inv app"
    and err: "fst (dispatch_request w request app) = Done (Inl e)"
  shows "untouched app (snd (dispatch_request w request app))"
proof (cases request)
  case (TargetRegister params)
  with err respond_update_failed [OF js inv rpc_changes(4)] show ?thesis
    by (auto simp: dispatch_request_def split: if_splits)
qed (use err dispatch_children_failed [OF js inv] in
    \<open>auto simp: dispatch_request_def Let_def split_beta split: sum.splits prod.splits\<close>)

section \<open>Properties\<close>


text \<open>
  C9. Every request keeps the invariant of the daemon's state: registered targets and children
  within their limits, depths at most the configured maximum, unique live names per parent, and
  every queue within its bounds, whatever the body, the clock and the disk.
\<close>

theorem request_keeps_invariant:
  assumes "app_inv app"
  shows "app_inv (snd (rpc_handle w header body app))"
  using assms by (rule rpc_handle_app_inv)

text \<open>
  The same for what kernels ask: every host request keeps the invariant, and the answer goes
  back under the id of the request with exactly one of result and error.
\<close>

theorem host_request_keeps_invariant:
  assumes "app_inv app"
  shows "app_inv (snd (answer_host_request w t pid rid meth params app)) \<and>
    (\<exists>r e. fst (answer_host_request w t pid rid meth params app) = HostResponse rid r e \<and>
       (r = None \<longleftrightarrow> e \<noteq> None))"
  using host_handle_app_inv [OF assms, of w t pid meth params]
  by (auto simp: answer_host_request_def Let_def split_beta split: sum.splits)

lemma unat_byte: "unat (byte c) = of_char c"
proof -
  have "byte c = of_nat (of_char c)" unfolding byte_def by (rule of_nat_of_char [symmetric])
  then show ?thesis by (simp add: unsigned_of_nat take_bit_nat_eq_self)
qed

lemma byte_inject [simp]: "byte a = byte b \<longleftrightarrow> a = b"
  using unat_byte [of a] unat_byte [of b] by (metis of_char_eq_iff)

lemma or_zero_iff: "or a b = 0 \<longleftrightarrow> a = 0 \<and> b = 0" for a b :: "'a::len word"
  by (auto simp: bit_eq_iff bit_or_iff)

lemma xor_zero_iff: "xor a b = 0 \<longleftrightarrow> a = b" for a b :: "'a::len word"
  by (auto simp: bit_eq_iff bit_xor_iff)

lemma foldl_diff_zero:
  "length l = length r \<Longrightarrow>
     foldl (\<lambda>diff (a, b). or diff (xor a b)) d (zip l r) = 0 \<longleftrightarrow> d = 0 \<and> l = r"
  for l r :: "u8 list"
  by (induction l r arbitrary: d rule: list_induct2) (auto simp: or_zero_iff xor_zero_iff)

lemma constant_time_eq_iff: "constant_time_eq l r \<longleftrightarrow> l = r"
  by (auto simp: constant_time_eq_def foldl_diff_zero)

lemma header_str_Some: "header_str h = Some s \<longleftrightarrow> h = s \<and> header_str s = Some s"
  by (auto simp: header_str_def)

lemma header_str_append: "header_str (a @ b) = Some (a @ b) \<longleftrightarrow>
    header_str a = Some a \<and> header_str b = Some b"
  by (auto simp: header_str_def)

text \<open>
  With a token configured, a request passes exactly when its authorization header is the word
  Bearer, a space and the token, and the token can be carried by a header at all. A request that
  does not pass gets status 401 and changes nothing.
\<close>

theorem authorized_iff:
  "(authorized header (Some token) \<longleftrightarrow>
      header = Some (''Bearer '' @ token) \<and> header_str token = Some token) \<and>
   (o_token (a_options app) = Some token \<longrightarrow> \<not> authorized header (Some token) \<longrightarrow>
      rpc_handle w header body app = (Respond unauthorized, app))"
proof -
  have bearer: "header_str ''Bearer '' = Some ''Bearer ''" by (simp add: header_str_def printable_def)
  have bytes: "map byte g = map byte token \<longleftrightarrow> g = token" for g
    using inj_map_eq_map [of byte g token] by (simp add: inj_def)
  have "authorized header (Some token) \<longleftrightarrow>
      (\<exists>h. header = Some h \<and> header_str h = Some (''Bearer '' @ token))"
  proof (cases "Option.bind header header_str")
    case None
    then show ?thesis by (cases header) (auto simp: authorized_def)
  next
    case (Some v)
    then obtain h where h: "header = Some h" "header_str h = Some v" by (cases header) auto
    have "authorized header (Some token) \<longleftrightarrow> strip_prefix ''Bearer '' v = Some token"
      using Some bytes
      by (simp add: authorized_def constant_time_eq_iff split: option.split)
    then show ?thesis using h by (simp only: strip_prefix_Some) auto
  qed
  also have "\<dots> \<longleftrightarrow> header = Some (''Bearer '' @ token) \<and> header_str token = Some token"
    using bearer header_str_append [of "''Bearer ''" token] header_str_Some [of _ "''Bearer '' @ token"]
    by blast
  finally show ?thesis by (auto simp: rpc_handle_def)
qed

end
