(* ===== verification/Serve.thy ===== *)
theory Serve
  imports Rpc_Inv
begin

text \<open>
  Everything the daemon can be asked, in any order: HTTP requests, host requests of kernels and the
  report of a kernel's exit. The locale \<open>app_relation\<close> is the contract under which a relation
  between states of the application carries over from the single changes to every request that is
  served in a good world; its
  extension \<open>core_relation\<close> is the same for relations that only look at the registry.
\<close>

datatype 'v asked =
  By_Client "'v world" "string option" "string option"
  | By_Kernel "'v world" target u32 string 'v
  | Kernel_Exit "'v world" target exit_info "i32 option" "i32 option"

fun serve :: "'v asked \<Rightarrow> 'v app \<Rightarrow> 'v app" where
  "serve (By_Client w header body) app = snd (rpc_handle w header body app)"
| "serve (By_Kernel w t pid method params) app = snd (host_handle w t pid method params app)"
| "serve (Kernel_Exit w t ex ec sig) app = report_exit w t ex ec sig app"

fun asked_world :: "'v asked \<Rightarrow> 'v world" where
  "asked_world (By_Client w header body) = w"
| "asked_world (By_Kernel w t pid method params) = w"
| "asked_world (Kernel_Exit w t ex ec sig) = w"

lemma touch_core [simp]: "app_core (app_touch w app) = app_core app"
  by (simp add: app_touch_def)

section \<open>Relations every request respects\<close>

locale app_relation =
  fixes good :: "'v world \<Rightarrow> bool"
    and rel :: "'v app \<Rightarrow> 'v app \<Rightarrow> bool"
  assumes rel_refl: "rel app app"
    and rel_trans: "rel a b \<Longrightarrow> rel b c \<Longrightarrow> rel a c"
    and rel_kernels: "rel app (app\<lparr>a_kernels := m\<rparr>)"
    and rel_touch: "rel app (app_touch w app)"
    and rel_spawn: "good w \<Longrightarrow> rel app (snd (app_update w (spawn_change w md owner params) app))"
    and rel_to_parent: "good w \<Longrightarrow> rel app (snd (app_update w (to_parent_change now sender msg) app))"
    and rel_to_child: "good w \<Longrightarrow> rel app (snd (app_update w (to_child_change now sender name msg) app))"
    and rel_enqueue: "good w \<Longrightarrow> rel app (snd (app_update w (enqueue_change e) app))"
    and rel_withdraw: "good w \<Longrightarrow> rel app (snd (app_update w (withdraw_change t eid) app))"
    and rel_ack: "good w \<Longrightarrow> rel app (snd (app_update w (ack_change t ids) app))"
    and rel_fail: "good w \<Longrightarrow> rel app (snd (app_update w (fail_change now t cid reason) app))"
    and rel_delete: "good w \<Longrightarrow> rel app (snd (app_update w (on_registry (\<lambda>r. registry_delete r t sel)) app))"
    and rel_bind: "good w \<Longrightarrow> rel app (snd (app_update w (on_registry (\<lambda>r. registry_bind r t cid s)) app))"
    and rel_register: "good w \<Longrightarrow> rel app (snd (app_update w (on_registry (\<lambda>r. register r rp)) app))"
begin

lemmas rel_changes = rel_refl rel_kernels rel_spawn rel_to_parent rel_to_child rel_enqueue
  rel_withdraw rel_ack rel_fail rel_delete rel_bind rel_register

lemma rel_delete_child: "good w \<Longrightarrow> rel app (snd (delete_child w t sel app))"
proof -
  assume good: "good w"
  let ?u = "app_update w (on_registry (\<lambda>r. registry_delete r t sel)) app"
  obtain x a where u: "?u = (x, a)" by fastforce
  have "rel app a" using rel_delete [OF good, of app t sel] by (simp add: u)
  then have "rel app (a\<lparr>a_kernels := m\<rparr>)" for m using rel_kernels rel_trans by blast
  with \<open>rel app a\<close> show ?thesis by (simp add: delete_child_def u split: sum.splits option.splits)
qed

lemma rel_send_message: "good w \<Longrightarrow> rel app (snd (send_message w t params app))"
  by (simp add: send_message_def rel_changes split: role.splits option.splits del: app_update_simps)

lemma rel_host_handle: "good w \<Longrightarrow> rel app (snd (host_handle w t pid method params app))"
proof -
  assume good: "good w"
  have "rel app (snd (host_call w t pid call app))" for call
    by (simp add: good host_call_def spawn_def rel_changes rel_delete_child rel_send_message
        split: host_call.splits del: app_update_simps)
  then show ?thesis by (simp add: host_handle_def rel_refl split: sum.splits)
qed

lemma rel_dispatch: "good w \<Longrightarrow> rel app (snd (rpc_dispatch w request app))"
proof -
  assume good: "good w"
  have "rel app (snd (dispatch_children_and_events w r app))" for r
    by (simp add: good dispatch_children_and_events_def rel_changes rel_delete_child
        split: request.splits sum.splits del: app_update_simps)
  then have "rel app (snd (dispatch_request w r app))" for r
    by (simp add: good dispatch_request_def Let_def split_beta rel_changes
        split: request.splits sum.splits prod.splits del: app_update_simps)
  then show ?thesis by (simp add: rpc_dispatch_def rel_refl split: option.splits sum.splits)
qed

lemma rel_rpc_handle: "good w \<Longrightarrow> rel app (snd (rpc_handle w header body app))"
proof -
  assume good: "good w"
  have "rel (app_touch w app) (snd (snd (parse_and_dispatch w bytes (app_touch w app))))" for bytes
    by (simp add: good parse_and_dispatch_def Let_def rel_refl rel_dispatch split: sum.splits)
  then have "rel app (snd (snd (parse_and_dispatch w bytes (app_touch w app))))" for bytes
    using rel_touch rel_trans by blast
  then show ?thesis
    by (simp add: rpc_handle_def Let_def split_beta rel_refl rel_touch split: option.splits)
qed

lemma rel_serve: "good (asked_world a) \<Longrightarrow> rel app (serve a app)"
  by (cases a) (simp_all add: rel_rpc_handle rel_host_handle report_exit_def rel_changes
      del: app_update_simps)

lemma rel_serve_all: "\<forall>a \<in> set as. good (asked_world a) \<Longrightarrow> rel app (fold serve as app)"
  by (induction as arbitrary: app) (auto intro: rel_refl rel_trans rel_serve)

end

text \<open>A relation on the core that only looks at the registry.\<close>

locale core_relation =
  fixes crel :: "core \<Rightarrow> core \<Rightarrow> bool"
  assumes crel_trans: "crel a b \<Longrightarrow> crel b c \<Longrightarrow> crel a c"
    and crel_same: "core_registry c' = core_registry c \<Longrightarrow> crel c c'"
    and crel_sequence: "crel c (after_sequence c key)"
    and crel_admit: "crel c (snd (on_registry (\<lambda>r. admit rt r t params md now) c))"
    and crel_registry_fail: "crel c (snd (on_registry (\<lambda>r. registry_fail r t cid) c))"
    and crel_registry_delete: "crel c (snd (on_registry (\<lambda>r. registry_delete r t sel) c))"
    and crel_registry_bind: "crel c (snd (on_registry (\<lambda>r. registry_bind r t cid s) c))"
    and crel_registry_register: "crel c (snd (on_registry (\<lambda>r. register r rp) c))"
begin

lemma crel_refl: "crel c c"
  by (rule crel_same) simp

lemma crel_enqueue: "crel c (snd (enqueue c e))"
  by (rule crel_same) simp

lemma crel_message: "crel a c \<Longrightarrow> crel a (snd (enqueue (after_sequence c key) e))"
  using crel_sequence crel_enqueue crel_trans by blast

lemma crel_spawn_change: "crel c (snd (spawn_change w md owner params c))"
proof -
  let ?a = "on_registry (\<lambda>r. admit (w_runtime w) r owner params md (w_now w)) c"
  obtain x c' where a: "?a = (x, c')" by fastforce
  have "crel c c'" using crel_admit [of c "w_runtime w" owner params md "w_now w"] by (simp add: a)
  then have "crel c (snd (enqueue c' e))" for e using crel_enqueue crel_trans by blast
  with \<open>crel c c'\<close> show ?thesis by (simp add: spawn_change_def a split: sum.splits)
qed

lemma crel_fail_change: "crel c (snd (fail_change now t cid reason c))"
proof -
  obtain x c' where a: "on_registry (\<lambda>r. registry_fail r t cid) c = (x, c')" by fastforce
  have "crel c c'" using crel_registry_fail [of c t cid] by (simp add: a)
  then show ?thesis
    using crel_message [of c c']
    by (simp add: fail_change_def a Let_def split_beta after_sequence_def split: sum.splits)
qed

lemma crel_to_parent: "crel c (snd (to_parent_change now sender msg c))"
  using crel_message [OF crel_refl, of c] crel_refl
  by (simp add: to_parent_change_def Let_def split_beta after_sequence_def split: option.splits)

lemma crel_to_child: "crel c (snd (to_child_change now sender name msg c))"
  using crel_message [OF crel_refl, of c] crel_refl
  by (simp add: to_child_change_def Let_def split_beta after_sequence_def split: option.splits)

lemma crel_enqueue_change: "crel c (snd (enqueue_change e c))"
  by (simp add: enqueue_change_def map_prod_def split_beta crel_enqueue)

lemma crel_app_update:
  "(\<And>c. crel c (snd (change c))) \<Longrightarrow>
     crel (app_core app) (app_core (snd (app_update w change app)))"
  by (rule crel_trans [OF _ crel_same]) simp_all

lemma crel_queue_change:
  "crel c (snd (withdraw_change t eid c))" "crel c (snd (ack_change t ids c))"
  by (rule crel_same, simp add: withdraw_change_def ack_change_def)+

lemma app_relation: "app_relation (\<lambda>_. True) (\<lambda>a b :: 'v app. crel (app_core a) (app_core b))"
  by unfold_locales
    (auto intro: crel_trans crel_app_update crel_spawn_change crel_fail_change crel_to_parent
      crel_to_child crel_enqueue_change crel_registry_delete crel_registry_bind
      crel_registry_register crel_queue_change simp: crel_refl
      simp del: app_update_simps)

lemmas serve_rel = app_relation.rel_serve [OF app_relation TrueI]
lemmas serve_all_rel = app_relation.rel_serve_all [OF app_relation, simplified]

end

end
