(* ===== verification/Sse.thy ===== *)
theory Sse
  imports Serve
begin

text \<open>
  \<open>crates/daemon/src/sse.rs\<close>: \<open>GET /events\<close>. A listener is a task with a phase; one poll of it is
  one critical section or one frame given to the connection, so that requests, other listeners and
  the sender of change notifications can run between any two. JSON, base64url and the connection
  (how many more frames the client takes before it hangs up) are parameters.
\<close>

section \<open>The target of a subscription\<close>

text \<open>The decoders of \<open>URL_SAFE_NO_PAD\<close> and \<open>URL_SAFE\<close>, and \<open>serde_json\<close> on a \<open>Target\<close>.\<close>

record target_codec =
  tc_encode_no_pad :: "string \<Rightarrow> string"
  tc_decode_no_pad :: "string \<Rightarrow> (string, string) result"
  tc_decode_padded :: "string \<Rightarrow> (string, string) result"
  tc_target_json :: "target \<Rightarrow> (string, string) result"
  tc_target_of_json :: "string \<Rightarrow> (string, target) result"

definition decode_target :: "target_codec \<Rightarrow> string option \<Rightarrow> target rpc_result" where
  "decode_target tc encoded =
     rbind (ok_or (invalid ''missing ?target='') encoded) (\<lambda>encoded.
     rbind (case tc_decode_no_pad tc (trim_end_matches CHR ''='' encoded) of
              Inr bytes \<Rightarrow> Inr bytes
            | Inl _ \<Rightarrow> map_sum (\<lambda>error. invalid (''target is not base64url: '' @ error)) (\<lambda>b. b)
                        (tc_decode_padded tc encoded)) (\<lambda>bytes.
     rbind (map_sum (\<lambda>error. invalid (''target is not a JSON target: '' @ error)) (\<lambda>t. t)
              (tc_target_of_json tc bytes)) (\<lambda>t.
     rbind (check_target t) (\<lambda>_. Inr t))))"

section \<open>Frames\<close>

text \<open>\<open>serde_json::to_vec\<close> of an event and \<open>to_string\<close> of a frame.\<close>

record frame_json =
  fj_event :: "event \<Rightarrow> (string, string) result"
  fj_frame :: "sse_frame \<Rightarrow> (string, string) result"

definition usize_max :: nat where "usize_max = 2 ^ 64 - 1"

definition sat_add :: "nat \<Rightarrow> nat \<Rightarrow> nat" where
  "sat_add a b = min (a + b) usize_max"

definition event_length :: "frame_json \<Rightarrow> event \<Rightarrow> nat" where
  "event_length fj e = (case fj_event fj e of Inl _ \<Rightarrow> 0 | Inr bytes \<Rightarrow> length bytes)"

definition frame_budget :: nat where "frame_budget = SSE_FRAME - 4096"

text \<open>The loop of \<open>chunk\<close>: finished frames, the open one (\<open>frames.last_mut()\<close>) and its size.\<close>

fun chunk_loop ::
  "(event \<Rightarrow> nat) \<Rightarrow> event list list \<Rightarrow> event list \<Rightarrow> nat \<Rightarrow> event list \<Rightarrow> event list list" where
  "chunk_loop len frames frame used [] = frames @ [frame]"
| "chunk_loop len frames frame used (e # es) =
     (if frame_budget < sat_add used (len e) \<and> frame \<noteq> []
      then chunk_loop len (frames @ [frame]) [e] (sat_add 0 (len e)) es
      else chunk_loop len frames (frame @ [e]) (sat_add used (len e)) es)"

definition chunk :: "frame_json \<Rightarrow> event list \<Rightarrow> event list list" where
  "chunk fj events = chunk_loop (event_length fj) [] [] 0 events"

section \<open>The listener\<close>

datatype listener_phase =
  L_Start
  | L_Check bool
  | L_Hand bool
  | L_Send "event list list"
  | L_Wait
  | L_Closed

text \<open>
  The frames given to the connection are kept in the order they were sent; \<open>l_left\<close> is the number
  of further frames the receiver takes before it is dropped (\<open>None\<close>: it stays).
\<close>

record listener =
  l_target :: target
  l_claimed :: "string set"
  l_phase :: listener_phase
  l_sent :: "sse_frame list"
  l_left :: "nat option"

definition listener_new :: "target \<Rightarrow> nat option \<Rightarrow> listener" where
  "listener_new t left =
     \<lparr>l_target = t, l_claimed = {}, l_phase = L_Start, l_sent = [], l_left = left\<rparr>"

definition send_frame :: "frame_json \<Rightarrow> sse_frame \<Rightarrow> listener \<Rightarrow> bool \<times> listener" where
  "send_frame fj frame l =
     (case fj_frame fj frame of
        Inl _ \<Rightarrow> (True, l)
      | Inr _ \<Rightarrow>
          if l_left l = Some 0 then (False, l)
          else (True, l\<lparr>l_sent := l_sent l @ [frame], l_left := map_option (\<lambda>n. n - 1) (l_left l)\<rparr>))"

text \<open>\<open>if !send(..).await { return }\<close>, then on to the next phase.\<close>

definition send_then :: "frame_json \<Rightarrow> sse_frame \<Rightarrow> listener_phase \<Rightarrow> listener \<Rightarrow> listener" where
  "send_then fj frame phase l =
     (let (ok, l') = send_frame fj frame l in l'\<lparr>l_phase := if ok then phase else L_Closed\<rparr>)"

text \<open>The closure of \<open>deliver\<close>: the claims that are still queued, and what the listener is handed.\<close>

definition retained :: "event_queue \<Rightarrow> target \<Rightarrow> string set \<Rightarrow> string set" where
  "retained q t claimed = claimed \<inter> e_id ` set (list_events q t)"

definition hand_change :: "target \<Rightarrow> string set \<Rightarrow> core \<Rightarrow> event list rpc_result \<times> core" where
  "hand_change t claimed =
     on_queue (\<lambda>q. map_prod Inr (\<lambda>q. q) (hand_out q t (retained q t claimed)))"

text \<open>What \<open>select!\<close> of the loop can see while the listener waits.\<close>

datatype signal =
  Change string
  | Lagged
  | Changes_Closed
  | Heartbeat_Tick u64
  | Shutdown
  | Tx_Closed

fun on_signal :: "frame_json \<Rightarrow> signal \<Rightarrow> listener \<Rightarrow> listener" where
  "on_signal fj (Change key) l =
     (if key \<noteq> target_key (l_target l) then l else l\<lparr>l_phase := L_Check False\<rparr>)"
| "on_signal fj Lagged l = l\<lparr>l_phase := L_Check False\<rparr>"
| "on_signal fj Changes_Closed l = l\<lparr>l_phase := L_Closed\<rparr>"
| "on_signal fj (Heartbeat_Tick at) l = send_then fj (Heartbeat at) L_Wait l"
| "on_signal fj Shutdown l = l\<lparr>l_phase := L_Closed\<rparr>"
| "on_signal fj Tx_Closed l = l\<lparr>l_phase := L_Closed\<rparr>"

text \<open>
  One poll of a listener that does not wait: the first frame, then \<open>deliver\<close> cut at the end of its
  two critical sections and after each frame.
\<close>

definition listener_poll :: "'v world \<Rightarrow> frame_json \<Rightarrow> 'v app \<Rightarrow> listener \<Rightarrow> listener \<times> 'v app" where
  "listener_poll w fj app l =
     (case l_phase l of
        L_Start \<Rightarrow>
          (if a_shutdown app then l\<lparr>l_phase := L_Closed\<rparr>
           else send_then fj (Subscribed (l_target l)) (L_Check True) l, app)
      | L_Check replay \<Rightarrow>
          let unseen = list_ex (\<lambda>e. e_id e \<notin> l_claimed l)
                         (list_events (core_queue (app_core app)) (l_target l))
          in (l\<lparr>l_phase := if \<not> unseen \<and> \<not> replay then L_Wait else L_Hand replay\<rparr>, app)
      | L_Hand replay \<Rightarrow>
          let kept = retained (core_queue (app_core app)) (l_target l) (l_claimed l);
              (handed, app') = app_update w (hand_change (l_target l) (l_claimed l)) app;
              fresh = (case handed of Inl _ \<Rightarrow> [] | Inr events \<Rightarrow> events)
          in (l\<lparr>l_claimed := kept \<union> e_id ` set fresh,
                l_phase := if fresh = [] \<and> \<not> replay then L_Wait else L_Send (chunk fj fresh)\<rparr>, app')
      | L_Send [] \<Rightarrow> (l\<lparr>l_phase := L_Wait\<rparr>, app)
      | L_Send (events # rest) \<Rightarrow> (send_then fj (Events (l_target l) events) (L_Send rest) l, app)
      | L_Wait \<Rightarrow> (l, app)
      | L_Closed \<Rightarrow> (l, app))"

text \<open>\<open>GET /events\<close>: the refusals, or a new listener.\<close>

definition events_handle ::
  "target_codec \<Rightarrow> string option \<Rightarrow> string option \<Rightarrow> nat option \<Rightarrow> 'v app \<Rightarrow>
     ('v response, listener) result" where
  "events_handle tc header query left app =
     (if \<not> authorized header (o_token (a_options app)) then Inl unauthorized
      else case decode_target tc query of
             Inl error \<Rightarrow> Inl (reply None (Inl error))
           | Inr t \<Rightarrow> Inr (listener_new t left))"

end
