(* ===== verification/App_Props.thy ===== *)
theory App_Props
  imports Serve
begin

text \<open>
  What the handlers promise: spawning admits the child and queues its event in one step, a message
  gets an id that is never used again, refusals and the idle exit. A concrete daemon
  (\<open>demo_app\<close>) with one registered session shows that the hypotheses can be met.
\<close>

section \<open>A concrete daemon\<close>

definition demo_json :: "nat json" where
  "demo_json =
     \<lparr>j_null = 0, j_is_null = (\<lambda>v. v = 0), j_object = 1, j_to_value = (\<lambda>_. Inr 2),
      j_from_slice = (\<lambda>_. Inr 3), j_get_id = (\<lambda>_. None),
      j_envelope = (\<lambda>_. Inr \<lparr>q_id = Some 7, q_method = ''health'', q_params = None\<rparr>),
      j_empty = (\<lambda>_. Inr ()), j_spawn = (\<lambda>_. Inl ''no''), j_delete = (\<lambda>_. Inl ''no''),
      j_agent_message = (\<lambda>_. Inl ''no''), j_bash_finished = (\<lambda>_. Inl ''no''),
      j_withdraw = (\<lambda>_. Inl ''no''), j_register = (\<lambda>_. Inl ''no''), j_execute = (\<lambda>_. Inl ''no''),
      j_target = (\<lambda>_. Inl ''no''), j_child_bind = (\<lambda>_. Inl ''no''), j_child_fail = (\<lambda>_. Inl ''no''),
      j_child_id = (\<lambda>_. Inl ''no''), j_events_ack = (\<lambda>_. Inl ''no''),
      j_skills_list = (\<lambda>_. Inl ''no'')\<rparr>"

definition no_fs :: skill_fs where
  "no_fs = \<lparr>fs_is_dir = (\<lambda>_. False), fs_read_dir = (\<lambda>_. None), fs_files = (\<lambda>_. Missing),
            fs_lossy = (\<lambda>s. s)\<rparr>"

definition demo_codec :: codecs where
  "demo_codec = \<lparr>enc_registry = (\<lambda>_. Inr ''r''), dec_registry = (\<lambda>_. Inl ''no''),
                 enc_queue = (\<lambda>_. Inr ''q''), dec_queue = (\<lambda>_. Inl ''no'')\<rparr>"

definition demo_world :: "nat world" where
  "demo_world =
     \<lparr>w_now = 5, w_event_now = 6, w_instant = 100, w_pid = 42,
      w_runtime = \<lparr>rt_hash_one = (\<lambda>_ salt. salt), rt_debug = (\<lambda>s. s)\<rparr>,
      w_codec = demo_codec, w_io = (Saved, Saved), w_fs = no_fs, w_json = demo_json\<rparr>"

definition demo_session :: target where
  "demo_session = \<lparr>t_kind = PiSession, t_id = ''s''\<rparr>"

definition demo_record :: target_record where
  "demo_record =
     \<lparr>tr_target = demo_session, tr_cwd = ''/w'',
      tr_host = \<lparr>h_name = Host_Pi, h_version = None, h_supports_children = True\<rparr>,
      tr_model = None\<rparr>"

definition demo_app :: "nat app" where
  "demo_app =
     \<lparr>a_options = (options_new (\<lambda>_ _. None) (\<lambda>_. None) ''/state''),
      a_state = \<lparr>st_core = core_default\<lparr>core_registry := registry_default\<lparr>targets := [(target_key demo_session, demo_record)]\<rparr>\<rparr>,
                 st_dir = ''/state'', st_files = (\<lambda>_. Missing), st_changes = [], st_log = []\<rparr>,
      a_kernels = manager_default, a_started_at = 1, a_shutdown = False, a_last_rpc = 0\<rparr>"

lemma demo_app_inv: "app_inv demo_app"
  by (simp add: app_inv_def demo_app_def core_inv_def core_default_def queue_inv_default
      registry_limits_def targets_ok_def registry_default_def live_children_def demo_record_def
      REGISTERED_TARGETS_def)

lemma demo_serialises: "serialises (w_json demo_world)"
  by (simp add: serialises_def demo_world_def demo_json_def)

section \<open>Spawning\<close>

lemma spawn_OkD:
  assumes "spawn w owner params app = (Inr child, app')"
  obtains r' where
    "admit (w_runtime w) (core_registry (app_core app)) owner params (o_max_depth (a_options app)) (w_now w)
      = (Inr child, r')"
    "core_registry (app_core app') = r'"
    "core_queue (app_core app') = snd (push (core_queue (app_core app)) (child_spawn child (w_event_now w)))"
proof -
  let ?ch = "spawn_change w (o_max_depth (a_options app)) owner params"
  have fst: "fst (?ch (app_core app)) = Inr child"
    and core: "app_core app' = snd (?ch (app_core app))\<lparr>core_notify := []\<rparr>"
    using app_updateD [OF assms [unfolded spawn_def]] by auto
  then have "?ch (app_core app) = (Inr child, snd (?ch (app_core app)))"
    by (simp add: prod_eq_iff)
  from spawn_change_OkD [OF this] core show ?thesis by (auto intro: that)
qed

lemma spawn_effect:
  assumes "spawn w owner params app = (Inr child, app')"
  shows "children (core_registry (app_core app')) = children (core_registry (app_core app)) @ [child]"
    "c_parent child = owner" "c_status child = Pending" "c_session child = None"
    "c_name child = spawn_name params" "is_valid_name (c_name child)" "c_task child = spawn_task params"
    "c_depth child = sat_succ (depth (core_registry (app_core app)) owner)"
    "c_depth child \<le> o_max_depth (a_options app)"
    "queue_of (core_queue (app_core app')) t =
      (if t = owner then add_event (child_spawn child (w_event_now w)) (queue_of (core_queue (app_core app)) t)
       else queue_of (core_queue (app_core app)) t)"
proof -
  from assms obtain r' where
    adm: "admit (w_runtime w) (core_registry (app_core app)) owner params
            (o_max_depth (a_options app)) (w_now w) = (Inr child, r')"
    and reg: "core_registry (app_core app') = r'"
    and que: "core_queue (app_core app') =
      snd (push (core_queue (app_core app)) (child_spawn child (w_event_now w)))"
    by (rule spawn_OkD)
  note a = admit_OkD [OF adm]
  have "\<not> o_max_depth (a_options app) < c_depth child \<and>
      c_depth child = sat_succ (depth (core_registry (app_core app)) owner)"
    using adm by (auto simp: admit_def Let_def split: option.splits if_splits sum.splits)
  moreover have "is_valid_name (spawn_name params)"
    using a check_admission_OkD by fastforce
  moreover have "c_session child = None"
    using adm by (auto simp: admit_def Let_def split: option.splits if_splits sum.splits)
  ultimately show "children (core_registry (app_core app')) = children (core_registry (app_core app)) @ [child]"
    "c_parent child = owner" "c_status child = Pending" "c_session child = None"
    "c_name child = spawn_name params" "is_valid_name (c_name child)" "c_task child = spawn_task params"
    "c_depth child = sat_succ (depth (core_registry (app_core app)) owner)"
    "c_depth child \<le> o_max_depth (a_options app)"
    "queue_of (core_queue (app_core app')) t =
      (if t = owner then add_event (child_spawn child (w_event_now w)) (queue_of (core_queue (app_core app)) t)
       else queue_of (core_queue (app_core app)) t)"
    using a reg by (simp_all add: que queue_of_push not_less)
qed

text \<open>
  C7. A spawn that succeeds has admitted one pending child of the caller, with the name and task
  asked for and a depth one more than the caller's and at most the maximum; and in the same step
  its spawn event, under the id of the child, was pushed to the caller's queue and to no other.
\<close>

theorem spawn_admits_and_queues:
  assumes "spawn w owner params app = (Inr child, app')"
  shows "children (core_registry (app_core app')) = children (core_registry (app_core app)) @ [child] \<and>
    c_parent child = owner \<and> c_status child = Pending \<and> c_session child = None \<and>
    c_name child = spawn_name params \<and> is_valid_name (c_name child) \<and>
    c_task child = spawn_task params \<and>
    c_depth child = sat_succ (depth (core_registry (app_core app)) owner) \<and>
    c_depth child \<le> o_max_depth (a_options app) \<and>
    queue_of (core_queue (app_core app')) owner =
      add_event (child_spawn child (w_event_now w)) (queue_of (core_queue (app_core app)) owner) \<and>
    (\<forall>t. t \<noteq> owner \<longrightarrow>
      queue_of (core_queue (app_core app')) t = queue_of (core_queue (app_core app)) t)"
  using spawn_effect [OF assms] by simp

text \<open>
  C40. The queue may refuse the event: when the caller already has 256 actionable events waiting,
  the spawn event, which is not actionable, is the one dropped. The spawn succeeds all the same, so
  the child stays pending and no host ever hears of it.
\<close>

theorem spawn_event_dropped:
  assumes "spawn w owner params app = (Inr child, app')"
    and "length (queue_of (core_queue (app_core app)) owner) = QUEUED_EVENTS"
    and "\<forall>x \<in> set (queue_of (core_queue (app_core app)) owner).
           e_actionable (qe_event x) \<and> qe_id x \<noteq> ''child.spawn:'' @ c_id child"
  shows "queue_of (core_queue (app_core app')) owner = queue_of (core_queue (app_core app)) owner \<and>
    child \<in> set (children (core_registry (app_core app'))) \<and> c_status child = Pending"
proof -
  let ?q = "queue_of (core_queue (app_core app)) owner" and ?e = "child_spawn child (w_event_now w)"
  let ?new = "\<lparr>qe_event = ?e, qe_delivered = False\<rparr>"
  note sp = spawn_effect
  have "e_id ?e \<notin> set (map qe_id ?q)" using assms(3) by (auto simp: event_ids)
  then have "add_event ?e ?q = drop_overflow (?q @ [?new])" by (simp add: add_event_def)
  also have "\<dots> = remove_at (victim (?q @ [?new])) (?q @ [?new])"
    using assms(2) by (intro drop_overflow_one) simp
  also have "victim (?q @ [?new]) = length ?q"
  proof -
    have "position p (xs @ [x]) = Some (length xs)" if "\<forall>y \<in> set xs. \<not> p y" "p x"
      for p :: "queued_event \<Rightarrow> bool" and xs x
      using that by (induction xs) auto
    then show ?thesis using assms(3) by (simp add: victim_def)
  qed
  finally have "add_event ?e ?q = ?q" by (simp add: remove_at_def)
  then show ?thesis using sp [OF assms(1)] by simp
qed

definition demo_params :: spawn_params where
  "demo_params = \<lparr>spawn_task = ''t'', spawn_name = ''a'', spawn_model = None\<rparr>"

lemma demo_admission:
  assumes "core_registry (app_core app) = core_registry (app_core demo_app)"
    and "o_max_depth (a_options app) = 1"
  shows "\<exists>child app'. spawn demo_world demo_session demo_params app = (Inr child, app') \<and>
    c_id child = new_child_id (w_runtime demo_world) (core_registry (app_core demo_app)) 5"
proof -
  let ?ch = "spawn_change demo_world (o_max_depth (a_options app)) demo_session demo_params"
  have trim: "trim ''t'' = ''t''" by (rule trim_plain) (simp add: plain_def printable_def)
  have name: "is_valid_name ''a''" by (simp add: is_valid_name_def ascii_lower_digit_def)
  have depth0: "depth (core_registry (app_core demo_app)) demo_session = 0"
    by (simp add: depth_def binding_def demo_app_def core_default_def registry_default_def)
  have "\<exists>child. fst (?ch (app_core app)) = Inr child \<and>
      c_id child = new_child_id (w_runtime demo_world) (core_registry (app_core demo_app)) 5"
    unfolding spawn_change_def on_registry_def assms
    using trim name depth0
    by (simp add: admit_def check_admission_def record_of_def live_children_def demo_app_def
        demo_params_def demo_record_def core_default_def registry_default_def sat_succ_def Let_def
        TASK_def CHILDREN_PER_PARENT_def demo_world_def)
  then show ?thesis
    using app_updateD(1) [of demo_world ?ch app] unfolding spawn_def by (metis prod.exhaust)
qed

theorem spawn_admits_and_queues_witness:
  "\<exists>child (app' :: nat app). children (core_registry (app_core app')) = [child] \<and> c_name child = ''a'' \<and>
     queue_of (core_queue (app_core app')) demo_session = [\<lparr>qe_event = child_spawn child 6, qe_delivered = False\<rparr>]"
proof -
  obtain child app' where sp: "spawn demo_world demo_session demo_params demo_app = (Inr child, app')"
    using demo_admission [of demo_app] by (auto simp: demo_app_def options_new_def)
  have "queue_of (core_queue (app_core demo_app)) demo_session = []"
    by (simp add: demo_app_def core_default_def)
  moreover have "drop_overflow [x] = [x]" for x by (simp add: drop_overflow_fit QUEUED_EVENTS_def)
  ultimately have "children (core_registry (app_core app')) = [child] \<and> c_name child = ''a'' \<and>
     queue_of (core_queue (app_core app')) demo_session = [\<lparr>qe_event = child_spawn child 6, qe_delivered = False\<rparr>]"
    using spawn_admits_and_queues [OF sp]
    by (simp add: demo_app_def core_default_def registry_default_def demo_params_def demo_world_def
        add_event_def)
  then show ?thesis by blast
qed

definition full_queue :: event_queue where
  "full_queue =
     [(target_key demo_session,
       map (\<lambda>i. \<lparr>qe_event = message_to_child demo_session demo_session (of_nat i) ''m'' 0,
                 qe_delivered = False\<rparr>) [0..<256])]"

definition full_app :: "nat app" where
  "full_app = demo_app\<lparr>a_state := (a_state demo_app)
     \<lparr>st_core := (app_core demo_app)\<lparr>core_queue := full_queue\<rparr>\<rparr>\<rparr>"

theorem spawn_event_dropped_witness:
  "\<exists>child app'. spawn demo_world demo_session demo_params full_app = (Inr child, app') \<and>
     queue_of (core_queue (app_core app')) demo_session = queue_of full_queue demo_session"
proof -
  obtain child app' where sp: "spawn demo_world demo_session demo_params full_app = (Inr child, app')"
    using demo_admission [of full_app] by (auto simp: full_app_def demo_app_def options_new_def)
  let ?q = "queue_of (core_queue (app_core full_app)) demo_session"
  have q: "?q = map (\<lambda>i. \<lparr>qe_event = message_to_child demo_session demo_session (of_nat i) ''m'' 0,
      qe_delivered = False\<rparr>) [0..<256]"
    by (simp add: full_app_def full_queue_def queue_of_def entry_or_default_def)
  have "length ?q = QUEUED_EVENTS" by (simp add: q QUEUED_EVENTS_def)
  moreover have "\<forall>x \<in> set ?q. e_actionable (qe_event x) \<and> qe_id x \<noteq> ''child.spawn:'' @ c_id child"
    by (auto simp: q event_ids)
  ultimately have "queue_of (core_queue (app_core app')) demo_session = ?q"
    using spawn_event_dropped [OF sp] by blast
  with sp show ?thesis by (auto simp: full_app_def)
qed

section \<open>Messages\<close>

text \<open>The last sequence number a sender has used.\<close>

definition last_number :: "core \<Rightarrow> string \<Rightarrow> u64" where
  "last_number c key = (case bm_get (sequences (core_registry c)) key of None \<Rightarrow> 0 | Some n \<Rightarrow> n)"

definition numbers_grow :: "core \<Rightarrow> core \<Rightarrow> bool" where
  "numbers_grow c c' \<longleftrightarrow> (\<forall>key. last_number c key \<le> last_number c' key)"

lemma numbers_same: "sequences (core_registry c') = sequences (core_registry c) \<Longrightarrow> numbers_grow c c'"
  by (simp add: numbers_grow_def last_number_def)

lemma numbers_trans [trans]: "numbers_grow a b \<Longrightarrow> numbers_grow b c \<Longrightarrow> numbers_grow a c"
  by (meson numbers_grow_def order_trans)

lemma next_number_succ: "next_number c key = sat_succ (last_number c key)"
  by (simp add: next_number_def next_sequence_def last_number_def Let_def)

lemma last_number_after:
  "last_number (after_sequence c key) k = (if k = key then next_number c key else last_number c k)"
  by (simp add: after_sequence_def last_number_def next_number_def next_sequence_def Let_def)

lemma numbers_after_sequence: "numbers_grow c (after_sequence c key)"
  by (simp add: numbers_grow_def last_number_after next_number_succ sat_succ_le)

lemma last_number_enqueue [simp]: "last_number (snd (enqueue c e)) k = last_number c k"
  by (simp add: last_number_def)

lemma method_sequences:
  "sequences (snd (admit rt r t p md now)) = sequences r"
  "sequences (snd (registry_bind r t cid s)) = sequences r"
  "sequences (snd (registry_fail r t cid)) = sequences r"
  "sequences (snd (registry_delete r t sel)) = sequences r"
  "sequences (snd (register r params)) = sequences r"
  by (auto simp: admit_def registry_bind_def registry_fail_def registry_delete_def register_def
      put_child_def Let_def split: option.splits sum.splits child_status.splits)

interpretation numbers: core_relation numbers_grow
  by unfold_locales
    (auto intro: numbers_same numbers_trans numbers_after_sequence simp: method_sequences)

text \<open>A message that was accepted has the sender's next number in its id, and the number is used up.\<close>

lemma send_message_OkD:
  assumes "send_message w sender params app = (Inr eid, app')"
  shows "\<exists>key. eid = ''agent.message:'' @ key @ '':'' @ dec (unat (next_number (app_core app) key)) \<and>
    last_number (app_core app') key = next_number (app_core app) key"
proof -
  have num: "last_number (c\<lparr>core_notify := []\<rparr>) k = last_number c k" for c k
    by (simp add: last_number_def)
  consider (parent) "app_update w (to_parent_change (w_event_now w) sender (msg_message params)) app
      = (Inr eid, app')"
    | (child) name where
      "app_update w (to_child_change (w_event_now w) sender name (msg_message params)) app = (Inr eid, app')"
    using assms by (auto simp: send_message_def split: if_splits role.splits option.splits)
  then show ?thesis
  proof cases
    case parent
    let ?ch = "to_parent_change (w_event_now w) sender (msg_message params)"
    have "?ch (app_core app) = (Inr eid, snd (?ch (app_core app)))"
      and core: "app_core app' = snd (?ch (app_core app))\<lparr>core_notify := []\<rparr>"
      using app_updateD(1,2) [OF parent] by (simp_all add: prod_eq_iff)
    then show ?thesis
      by (elim to_parent_OkD) (auto simp: num last_number_after event_ids)
  next
    case child
    let ?ch = "to_child_change (w_event_now w) sender name (msg_message params)"
    have "?ch (app_core app) = (Inr eid, snd (?ch (app_core app)))"
      and core: "app_core app' = snd (?ch (app_core app))\<lparr>core_notify := []\<rparr>"
      using app_updateD(1,2) [OF child] by (simp_all add: prod_eq_iff)
    then show ?thesis
      by (elim to_child_OkD) (auto simp: num last_number_after event_ids)
  qed
qed

text \<open>
  C16. Message ids are never used again: two messages that were both accepted have different ids,
  whoever sent them and whatever the daemon was asked in between, as long as no sender has used all
  of its 64-bit numbers.
\<close>

theorem message_ids_fresh:
  assumes "send_message w sender params app = (Inr eid, app1)"
    and "send_message w' sender' params' (fold serve as app1) = (Inr eid', app2)"
    and "\<forall>key. last_number (app_core (fold serve as app1)) key \<noteq> - 1"
  shows "eid \<noteq> eid'"
proof
  assume "eid = eid'"
  obtain key where k: "eid = ''agent.message:'' @ key @ '':'' @ dec (unat (next_number (app_core app) key))"
      "last_number (app_core app1) key = next_number (app_core app) key"
    using send_message_OkD [OF assms(1)] by blast
  let ?c = "app_core (fold serve as app1)"
  obtain key' where k': "eid' = ''agent.message:'' @ key' @ '':'' @ dec (unat (next_number ?c key'))"
    using send_message_OkD [OF assms(2)] by blast
  have eq: "key = key'" "unat (next_number (app_core app) key) = unat (next_number ?c key')"
    using \<open>eid = eid'\<close> k(1) k' sequenced_id_inject [of key "unat (next_number (app_core app) key)" key'
        "unat (next_number ?c key')"]
    by simp_all
  have "last_number (app_core app1) key \<le> last_number ?c key"
    using numbers.serve_all_rel [of app1 as] by (simp add: numbers_grow_def)
  moreover have "unat (next_number ?c key) = Suc (unat (last_number ?c key))"
  proof -
    have "unat (last_number ?c key) < 2 ^ LENGTH(64)" by (rule unsigned_less)
    moreover have "unat (last_number ?c key) \<noteq> unat (- 1 :: u64)"
      using assms(3) by (simp only: word_unat_eq_iff) blast
    ultimately show ?thesis
      by (simp add: next_number_succ sat_succ_unat unsigned_minus_1_eq_mask mask_eq_exp_minus_1)
  qed
  ultimately show False using eq k(2) by (simp add: word_le_nat_alt)
qed

definition demo_child :: child_info where
  "demo_child =
     \<lparr>c_id = ''rlm-1'', c_name = ''a'', c_task = ''t'', c_model = None, c_status = Running,
      c_parent = \<lparr>t_kind = Cli, t_id = ''p''\<rparr>, c_session = Some demo_session, c_session_dir = ''/w'',
      c_depth = 1, c_created_at = 0\<rparr>"

definition child_app :: "nat app" where
  "child_app = demo_app\<lparr>a_state := (a_state demo_app)
     \<lparr>st_core := (app_core demo_app)\<lparr>core_registry := registry_default\<lparr>children := [demo_child]\<rparr>\<rparr>\<rparr>\<rparr>"

definition demo_message :: agent_message_params where
  "demo_message = \<lparr>msg_message = ''hi'', msg_receiver_role = Role_Parent, msg_receiver_name = None\<rparr>"

lemma demo_send:
  assumes "children (core_registry (app_core app)) = [demo_child]"
  shows "\<exists>app'. send_message w demo_session demo_message app =
      (Inr (''agent.message:rlm-1:'' @ dec (unat (next_number (app_core app) ''rlm-1''))), app') \<and>
    children (core_registry (app_core app')) = [demo_child] \<and>
    (\<forall>key. last_number (app_core app') key =
       (if key = ''rlm-1'' then next_number (app_core app) key else last_number (app_core app) key))"
proof -
  let ?ch = "to_parent_change (w_event_now w) demo_session ''hi''"
  obtain r app' where u: "app_update w ?ch app = (r, app')" by fastforce
  have b: "binding (core_registry (app_core app)) demo_session = Some demo_child"
    using assms by (simp add: binding_def demo_child_def bound_session_def)
  have ch: "?ch (app_core app) =
      (Inr (''agent.message:rlm-1:'' @ dec (unat (next_number (app_core app) ''rlm-1''))),
       snd (enqueue (after_sequence (app_core app) ''rlm-1'')
         (message_to_parent demo_child (next_number (app_core app) ''rlm-1'') ''hi'' (w_event_now w))))"
    by (simp add: to_parent_change_def b Let_def split_beta after_sequence_def next_number_def
        event_ids prod_eq_iff demo_child_def)
  have "send_message w demo_session demo_message app = (r, app')"
    using u by (simp add: send_message_def demo_message_def MESSAGE_def)
  moreover have "r = Inr (''agent.message:rlm-1:'' @ dec (unat (next_number (app_core app) ''rlm-1'')))"
    using app_updateD(1) [OF u] by (simp add: ch)
  moreover have "children (core_registry (app_core app')) = [demo_child]"
    using app_updateD(2) [OF u] assms by (simp add: ch after_sequence_def)
  moreover have "last_number (app_core app') key =
       (if key = ''rlm-1'' then next_number (app_core app) key else last_number (app_core app) key)" for key
    using app_updateD(2) [OF u] last_number_enqueue last_number_after
    by (simp add: ch last_number_def [of "_\<lparr>core_notify := []\<rparr>"] flip: last_number_def)
  ultimately show ?thesis by auto
qed

theorem message_ids_fresh_witness:
  "\<exists>a1 a2 i1 i2. send_message demo_world demo_session demo_message child_app = (Inr i1, a1) \<and>
     send_message demo_world demo_session demo_message a1 = (Inr i2, a2) \<and> i1 \<noteq> i2"
proof -
  have c0: "children (core_registry (app_core child_app)) = [demo_child]"
    and l0: "\<And>key. last_number (app_core child_app) key = 0"
    by (simp_all add: child_app_def registry_default_def last_number_def)
  obtain a1 where a1: "send_message demo_world demo_session demo_message child_app =
      (Inr (''agent.message:rlm-1:'' @ dec (unat (next_number (app_core child_app) ''rlm-1''))), a1)"
    "children (core_registry (app_core a1)) = [demo_child]"
    "\<forall>key. last_number (app_core a1) key =
       (if key = ''rlm-1'' then next_number (app_core child_app) key else last_number (app_core child_app) key)"
    using demo_send [OF c0, of demo_world] by blast
  obtain a2 where a2: "send_message demo_world demo_session demo_message a1 =
      (Inr (''agent.message:rlm-1:'' @ dec (unat (next_number (app_core a1) ''rlm-1''))), a2)"
    using demo_send [OF a1(2), of demo_world] by blast
  have "\<forall>key. last_number (app_core (fold serve [] a1)) key \<noteq> - 1"
    using a1(3) l0 by (simp add: next_number_succ sat_succ_def)
  with message_ids_fresh [OF a1(1), of demo_world demo_session demo_message "[]"] a1(1) a2
  show ?thesis by auto
qed

section \<open>Deleting a child\<close>

lemma delete_child_OkD:
  assumes "delete_child w parent sel app = (Inr child, app')"
  shows "\<exists>cid c. selected_child (core_registry (app_core app)) parent sel = Inr cid \<and>
      child_mut (core_registry (app_core app)) parent cid = Inr c \<and> child = c\<lparr>c_status := Deleted\<rparr> \<and>
      core_registry (app_core app') = put_child (core_registry (app_core app)) parent cid child"
    and "a_kernels app' = (case c_session child of None \<Rightarrow> a_kernels app
                           | Some s \<Rightarrow> shutdown_target s (a_kernels app))"
proof -
  let ?ch = "on_registry (\<lambda>r. registry_delete r parent sel)"
  obtain r a where u: "app_update w ?ch app = (r, a)" by fastforce
  have r: "r = Inr child" and a: "app_core app' = app_core a"
    "a_kernels app' = (case c_session child of None \<Rightarrow> a_kernels a | Some s \<Rightarrow> shutdown_target s (a_kernels a))"
    using assms by (auto simp: delete_child_def u split: sum.splits option.splits)
  have "registry_delete (core_registry (app_core app)) parent sel =
      (Inr child, core_registry (app_core app'))"
    using app_updateD(1,2) [OF u] r a(1) by (simp add: prod_eq_iff)
  from registry_delete_OkD [OF this]
  show "\<exists>cid c. selected_child (core_registry (app_core app)) parent sel = Inr cid \<and>
      child_mut (core_registry (app_core app)) parent cid = Inr c \<and> child = c\<lparr>c_status := Deleted\<rparr> \<and>
      core_registry (app_core app') = put_child (core_registry (app_core app)) parent cid child"
    by blast
  show "a_kernels app' = (case c_session child of None \<Rightarrow> a_kernels app
                           | Some s \<Rightarrow> shutdown_target s (a_kernels app))"
    using a(2) unfolding app_updateD(4) [OF u] .
qed

text \<open>
  A deletion that succeeds marks one child of the caller deleted, forgets the kernel slot of
  its session and asks the kernel in it to stop.
\<close>

theorem delete_child_stops_kernel:
  assumes "delete_child w parent sel app = (Inr child, app')" and "calls_inv (a_kernels app)"
    and "c_session child = Some s"
  shows "c_status child = Deleted \<and> c_parent child = parent \<and>
    bm_get (m_slots (a_kernels app')) (target_key s) = None \<and>
    (\<forall>kid k. existing s (a_kernels app) = Some kid \<longrightarrow> m_kernel (a_kernels app) kid = Some k \<longrightarrow>
       m_kernel (a_kernels app') kid = Some (begin_stop k) \<and> k_intentional (begin_stop k))"
proof -
  from delete_child_OkD(1) [OF assms(1)] obtain cid c where
    "child_mut (core_registry (app_core app)) parent cid = Inr c" "child = c\<lparr>c_status := Deleted\<rparr>"
    by blast
  then have "c_status child = Deleted" "c_parent child = parent" by (auto dest: child_mutD)
  moreover have kern: "a_kernels app' = shutdown_target s (a_kernels app)"
    using delete_child_OkD(2) [OF assms(1)] assms(3) by simp
  moreover have "k_intentional (begin_stop k)" for k :: "'a kernel"
    by (simp add: begin_stop_def try_send_def)
  moreover have "bm_wf (m_slots (a_kernels app))" using assms(2) by (rule slots_wf)
  ultimately show ?thesis
    by (auto simp: shutdown_target_def stop_kernel_def existing_def split: option.splits bind_splits)
qed

text \<open>
  A deleted child keeps its session, and deleting it again is accepted: the kernel of that
  session is shut down again, also when the session has since been bound to another child.
\<close>

theorem delete_again_stops_kernel:
  assumes "List.find (is_child parent cid) (children (core_registry (app_core app))) = Some c"
    and "c_status c = Deleted" "c_session c = Some s"
  shows "\<exists>app'. delete_child w parent \<lparr>del_child_id = Some cid, del_name = None\<rparr> app = (Inr c, app') \<and>
    a_kernels app' = shutdown_target s (a_kernels app)"
proof -
  let ?sel = "\<lparr>del_child_id = Some cid, del_name = None\<rparr>"
  let ?ch = "on_registry (\<lambda>r. registry_delete r parent ?sel)"
  have c: "c\<lparr>c_status := Deleted\<rparr> = c" using assms(2) by simp
  have "fst (registry_delete (core_registry (app_core app)) parent ?sel) = Inr c"
    using assms(1) c by (simp add: registry_delete_def selected_child_def child_mut_def Let_def)
  moreover obtain r a where u: "app_update w ?ch app = (r, a)" by fastforce
  ultimately have "r = Inr c" "a_kernels a = a_kernels app" using app_updateD [OF u] by simp_all
  then show ?thesis using assms(3) by (simp add: delete_child_def u)
qed

section \<open>Idle exit\<close>

lemma idle_turn_frame [simp]:
  "a_kernels (idle_turn w app) = a_kernels app" "a_options (idle_turn w app) = a_options app"
  by (simp_all add: idle_turn_def app_touch_def request_shutdown_def)

lemma idle_turns:
  assumes "\<not> a_shutdown app"
  shows "a_shutdown (fold idle_turn ws app) \<longleftrightarrow>
    live_count (a_kernels app) = 0 \<and>
    (\<exists>w \<in> set ws. unat (o_idle_exit_sec (a_options app)) \<le> w_instant w - a_last_rpc app)"
  using assms
proof (induction ws arbitrary: app)
  case (Cons w ws)
  have keep: "a_shutdown (fold idle_turn ws a)" if "a_shutdown a" for a :: "'a app"
    using that by (induction ws arbitrary: a) (simp_all add: idle_turn_def)
  show ?case
  proof (cases "live_count (a_kernels app) = 0")
    case True
    show ?thesis
    proof (cases "unat (o_idle_exit_sec (a_options app)) \<le> w_instant w - a_last_rpc app")
      case idle: True
      then have "a_shutdown (idle_turn w app)"
        using True Cons.prems by (simp add: idle_turn_def idle_for_def request_shutdown_def)
      then show ?thesis using True idle keep by auto
    next
      case busy: False
      then have "idle_turn w app = app" using True Cons.prems by (simp add: idle_turn_def idle_for_def)
      then show ?thesis using busy Cons by simp
    qed
  next
    case False
    then have "\<not> a_shutdown (idle_turn w app)"
      using Cons.prems by (simp add: idle_turn_def app_touch_def)
    then show ?thesis using Cons.IH [of "idle_turn w app"] False by simp
  qed
qed simp

text \<open>
  The idle watch asks for shutdown exactly when the timeout is set, no kernel is alive, and at
  one of its turns the last request is at least the timeout ago. The kernels stay as they are
  between the turns looked at.
\<close>

theorem idle_watch_iff:
  assumes "\<not> a_shutdown app"
  shows "a_shutdown (idle_watch ws app) \<longleftrightarrow>
    o_idle_exit_sec (a_options app) \<noteq> 0 \<and> live_count (a_kernels app) = 0 \<and>
    (\<exists>w \<in> set ws. unat (o_idle_exit_sec (a_options app)) \<le> w_instant w - a_last_rpc app)"
  using assms idle_turns [OF assms, of ws] by (simp add: idle_watch_def)

definition parent_target :: target where
  "parent_target = \<lparr>t_kind = Cli, t_id = ''p''\<rparr>"

text \<open>The old child is deleted; its session now belongs to the new one, which runs.\<close>

definition rebound_app :: "nat app" where
  "rebound_app = demo_app
     \<lparr>a_state := (a_state demo_app)
        \<lparr>st_core := (app_core demo_app)
           \<lparr>core_registry := registry_default
              \<lparr>children := [demo_child\<lparr>c_status := Deleted\<rparr>, demo_child\<lparr>c_id := ''rlm-2'', c_name := ''b''\<rparr>]\<rparr>\<rparr>\<rparr>,
      a_kernels := manager_default
        \<lparr>m_slots := [(target_key demo_session, 0)], m_slot := (\<lambda>_. \<lparr>s_busy = False, s_kernel = Some 0\<rparr>),
         m_next_slot := 1, m_next_kernel := 1, m_kernel := [0 \<mapsto> kernel_new 7 0]\<rparr>\<rparr>"

theorem delete_again_stops_kernel_witness:
  "binding (core_registry (app_core rebound_app)) demo_session = Some (demo_child\<lparr>c_id := ''rlm-2'', c_name := ''b''\<rparr>) \<and>
   (\<exists>app'. delete_child demo_world parent_target \<lparr>del_child_id = Some ''rlm-1'', del_name = None\<rparr> rebound_app
       = (Inr (demo_child\<lparr>c_status := Deleted\<rparr>), app') \<and>
     existing demo_session (a_kernels app') = None)"
proof -
  have "\<exists>app'. delete_child demo_world parent_target \<lparr>del_child_id = Some ''rlm-1'', del_name = None\<rparr> rebound_app
       = (Inr (demo_child\<lparr>c_status := Deleted\<rparr>), app') \<and>
     a_kernels app' = shutdown_target demo_session (a_kernels rebound_app)"
    by (rule delete_again_stops_kernel)
      (simp_all add: rebound_app_def is_child_def demo_child_def parent_target_def)
  then show ?thesis
    by (auto simp: rebound_app_def binding_def bound_session_def demo_child_def shutdown_target_def
        stop_kernel_def existing_def)
qed

theorem delete_child_stops_kernel_witness:
  "\<exists>app'. delete_child demo_world parent_target \<lparr>del_child_id = Some ''rlm-1'', del_name = None\<rparr> child_app
       = (Inr (demo_child\<lparr>c_status := Deleted\<rparr>), app') \<and>
     bm_get (m_slots (a_kernels app')) (target_key demo_session) = None"
proof -
  let ?sel = "\<lparr>del_child_id = Some ''rlm-1'', del_name = None\<rparr>"
  let ?ch = "on_registry (\<lambda>r. registry_delete r parent_target ?sel)"
  obtain r a where u: "app_update demo_world ?ch child_app = (r, a)" by fastforce
  have "r = Inr (demo_child\<lparr>c_status := Deleted\<rparr>)"
    using app_updateD(1) [OF u]
    by (simp add: registry_delete_def selected_child_def child_mut_def child_app_def is_child_def
        demo_child_def parent_target_def Let_def)
  then have d: "\<exists>app'. delete_child demo_world parent_target ?sel child_app = (Inr (demo_child\<lparr>c_status := Deleted\<rparr>), app')"
    by (simp add: delete_child_def u)
  have "calls_inv (a_kernels child_app)"
    by (simp add: child_app_def demo_app_def calls_inv_default)
  moreover have "c_session (demo_child\<lparr>c_status := Deleted\<rparr>) = Some demo_session"
    by (simp add: demo_child_def)
  ultimately show ?thesis using d delete_child_stops_kernel by blast
qed

theorem idle_watch_iff_witness:
  "a_shutdown (idle_watch [demo_world] (demo_app\<lparr>a_options := (a_options demo_app)\<lparr>o_idle_exit_sec := 60\<rparr>\<rparr>))"
  using idle_watch_iff [of "demo_app\<lparr>a_options := (a_options demo_app)\<lparr>o_idle_exit_sec := 60\<rparr>\<rparr>" "[demo_world]"]
  by (simp add: demo_app_def demo_world_def live_count_def all_kernels_def manager_default_def
      List.map_filter_def)

section \<open>Witnesses for the request properties\<close>


theorem request_keeps_invariant_witness:
  "app_inv (snd (rpc_handle demo_world None (Some ''{}'') demo_app))"
  by (rule request_keeps_invariant [OF demo_app_inv])

theorem host_request_keeps_invariant_witness:
  "app_inv (snd (answer_host_request demo_world demo_session 7 ''h1'' ''skills.list'' 0 demo_app))"
  using host_request_keeps_invariant [OF demo_app_inv] by blast

theorem authorized_iff_witness:
  "authorized (Some ''Bearer ab'') (Some ''ab'') \<and>
   rpc_handle demo_world None None (demo_app\<lparr>a_options := (a_options demo_app)\<lparr>o_token := Some ''ab''\<rparr>\<rparr>) =
     (Respond unauthorized, demo_app\<lparr>a_options := (a_options demo_app)\<lparr>o_token := Some ''ab''\<rparr>\<rparr>)"
  using authorized_iff [of "Some ''Bearer ab''" "''ab''" demo_app demo_world None]
    authorized_iff [of None "''ab''" "demo_app\<lparr>a_options := (a_options demo_app)\<lparr>o_token := Some ''ab''\<rparr>\<rparr>" demo_world None]
  by (simp add: header_str_def printable_def)

end
