(* ===== verification/Core_Props.thy ===== *)
theory Core_Props
  imports App_Props
begin

text \<open>
  The guarantees of the daemon's core: events are kept until acked, what overflow drops, when an
  event can be withdrawn, the life of a child, fresh ids, the wire bounds, names, and what a restart
  finds on disk.
\<close>

section \<open>Events\<close>

datatype queue_op =
  Push_Event event
  | Ack_Events target "string list"
  | Withdraw_Event target string
  | Hand_Out target "string set"
  | Restart_Daemon

fun queue_step :: "queue_op \<Rightarrow> event_queue \<Rightarrow> event_queue" where
  "queue_step (Push_Event e) q = snd (push q e)"
| "queue_step (Ack_Events t ids) q = snd (ack q t ids)"
| "queue_step (Withdraw_Event t eid) q = snd (withdraw q t eid)"
| "queue_step (Hand_Out t seen) q = snd (hand_out q t seen)"
| "queue_step Restart_Daemon q = from_file (to_file q)"

fun takes_away :: "target \<Rightarrow> string \<Rightarrow> queue_op \<Rightarrow> bool" where
  "takes_away t i (Ack_Events t' ids) \<longleftrightarrow> t' = t \<and> i \<in> set ids"
| "takes_away t i (Withdraw_Event t' eid) \<longleftrightarrow> t' = t \<and> i = eid"
| "takes_away t i (Push_Event e) \<longleftrightarrow> False"
| "takes_away t i (Hand_Out t' seen) \<longleftrightarrow> False"
| "takes_away t i Restart_Daemon \<longleftrightarrow> False"

fun pushes_to :: "target \<Rightarrow> queue_op \<Rightarrow> nat" where
  "pushes_to t (Push_Event e) = (if e_target e = t then 1 else 0)"
| "pushes_to t (Ack_Events t' ids) = 0"
| "pushes_to t (Withdraw_Event t' eid) = 0"
| "pushes_to t (Hand_Out t' seen) = 0"
| "pushes_to t Restart_Daemon = 0"

lemma queue_step_inv: "queue_inv q \<Longrightarrow> queue_inv (queue_step op q)"
  by (cases op) (simp_all add: push_inv ack_inv withdraw_inv hand_out_inv from_file_inv)

lemma set_remove_at_other:
  "i < length xs \<Longrightarrow> x \<in> set xs \<Longrightarrow> x \<noteq> xs ! i \<Longrightarrow> x \<in> set (remove_at i xs)"
proof -
  assume i: "i < length xs" "x \<in> set xs" "x \<noteq> xs ! i"
  have "xs = take i xs @ xs ! i # drop (Suc i) xs" using i(1) by (rule id_take_nth_drop)
  then have "x \<in> set (take i xs @ xs ! i # drop (Suc i) xs)" using i(2) by simp
  with i(3) show ?thesis by (auto simp: remove_at_def)
qed

lemma queue_step_keeps:
  assumes "queue_inv q" and "e \<in> qe_event ` set (queue_of q t)" and "\<not> takes_away t (e_id e) op"
    and "length (queue_of q t) + pushes_to t op \<le> QUEUED_EVENTS"
  shows "e \<in> qe_event ` set (queue_of (queue_step op q) t)"
    and "length (queue_of (queue_step op q) t) \<le> length (queue_of q t) + pushes_to t op"
proof -
  obtain x where x: "x \<in> set (queue_of q t)" "qe_event x = e" using assms(2) by blast
  have "e \<in> qe_event ` set (queue_of (queue_step op q) t) \<and>
    length (queue_of (queue_step op q) t) \<le> length (queue_of q t) + pushes_to t op"
  proof (cases op)
    case (Push_Event ev)
    then show ?thesis
      using x assms(4) by (auto simp: queue_of_push add_event_def drop_overflow_fit split: if_splits)
  next
    case (Ack_Events t' ids)
    then show ?thesis
      using x assms(1,3) by (auto simp: queue_of_ack queue_inv_wf length_filter_le)
  next
    case (Withdraw_Event t' eid)
    have "x \<in> set (remove_at i (queue_of q t))"
      if "position (\<lambda>x. qe_id x = eid \<and> \<not> qe_delivered x) (queue_of q t) = Some i" "t' = t" for i
      using position_SomeD [OF that(1)] x Withdraw_Event assms(3) that(2)
      by (intro set_remove_at_other) auto
    then show ?thesis
      using x Withdraw_Event
      by (auto simp: queue_of_withdraw withdraw_from_def split: option.splits dest: position_SomeD)
  next
    case (Hand_Out t' seen)
    have "map qe_event (queue_of (snd (hand_out q t' seen)) t) = map qe_event (queue_of q t)"
      by (rule eq.hand_keeps_events)
    then show ?thesis
      using x Hand_Out by (metis add_0_right image_eqI length_map list.set_map order_refl
          pushes_to.simps(4) queue_step.simps(4))
  next
    case Restart_Daemon
    then show ?thesis using x assms(1) by (auto simp: queue_of_from_file)
  qed
  then show "e \<in> qe_event ` set (queue_of (queue_step op q) t)"
    and "length (queue_of (queue_step op q) t) \<le> length (queue_of q t) + pushes_to t op" by auto
qed

text \<open>
  C2. An event is replayed until it is acked: in any sequence of pushes, acks, withdrawals,
  hand-outs and restarts, an event that is queued stays queued, unchanged, as long as nobody acks or
  withdraws its id and its target's queue does not overflow; and whoever asks with nothing seen is
  handed it.
\<close>

theorem replay_until_ack:
  assumes "queue_inv q" and "e \<in> qe_event ` set (queue_of q t)"
    and "\<forall>op \<in> set ops. \<not> takes_away t (e_id e) op"
    and "length (queue_of q t) + sum_list (map (pushes_to t) ops) \<le> QUEUED_EVENTS"
  shows "e \<in> set (list_events (fold queue_step ops q) t) \<and>
    e \<in> set (fst (hand_out (fold queue_step ops q) t {}))"
proof -
  have "e \<in> qe_event ` set (queue_of (fold queue_step ops q) t)"
    using assms
  proof (induction ops arbitrary: q)
    case (Cons op ops)
    note one = queue_step_keeps [OF Cons.prems(1,2), of op]
    have "e \<in> qe_event ` set (queue_of (queue_step op q) t)" using one(1) Cons.prems by simp
    moreover have "length (queue_of (queue_step op q) t) + sum_list (map (pushes_to t) ops) \<le> QUEUED_EVENTS"
      using one(2) Cons.prems by simp
    ultimately show ?case using Cons.IH [OF queue_step_inv [OF Cons.prems(1)]] Cons.prems by simp
  qed simp
  then show ?thesis by (simp add: list_events_queue_of hand_out_events)
qed

text \<open>
  The drop policy: a new event pushed to a full queue costs exactly one event, the oldest that
  is not actionable (the new one counts as the youngest) or, when all are actionable, the oldest of
  all; everything else keeps its order. A push that fits appends, one with a known id changes nothing.
\<close>

theorem push_drop_policy:
  "queue_of (snd (push q e)) (e_target e) =
    (let es = queue_of q (e_target e);
         es' = es @ [\<lparr>qe_event = e, qe_delivered = False\<rparr>]
     in if e_id e \<in> qe_id ` set es then es
        else if length es < QUEUED_EVENTS then es'
        else if length es = QUEUED_EVENTS then
          (case List.extract (\<lambda>x. \<not> e_actionable (qe_event x)) es' of
             None \<Rightarrow> tl es'
           | Some (before, _, after) \<Rightarrow> before @ after)
        else drop_overflow es')"
proof -
  let ?es = "queue_of q (e_target e)"
  let ?es' = "?es @ [\<lparr>qe_event = e, qe_delivered = False\<rparr>]"
  let ?p = "\<lambda>x. \<not> e_actionable (qe_event x)"
  have victim_ext: "remove_at (victim xs) xs =
      (case List.extract ?p xs of None \<Rightarrow> tl xs | Some (before, _, after) \<Rightarrow> before @ after)"
    for xs :: "queued_event list"
  proof (cases "position ?p xs")
    case None
    then have "\<forall>x \<in> set xs. \<not> ?p x" by simp
    then have "List.extract ?p xs = None" by (simp add: extract_None_iff)
    then show ?thesis using None by (simp add: victim_def remove_at_def drop_Suc del: position_None)
  next
    case (Some i)
    have "List.extract ?p xs = Some (take i xs, xs ! i, drop (Suc i) xs)"
      using position_split [OF Some] by (subst extract_Some_iff) auto
    then show ?thesis using Some by (simp add: victim_def remove_at_def)
  qed
  have "drop_overflow ?es' = remove_at (victim ?es') ?es'" if "length ?es = QUEUED_EVENTS"
    using that by (intro drop_overflow_one) simp
  then show ?thesis
    by (auto simp: queue_of_push add_event_def Let_def drop_overflow_fit victim_ext)
qed

text \<open>
  An event can be withdrawn exactly until a listener has been handed it: a withdrawal succeeds
  iff the queue holds the event undelivered, then it is gone and no other event is touched; and after
  a hand-out that the listener had not seen it in, withdrawing fails and the event stays.
\<close>

theorem withdraw_until_delivered:
  assumes "queue_inv q"
  shows "(fst (withdraw q t i) \<longleftrightarrow> (\<exists>x \<in> set (queue_of q t). qe_id x = i \<and> \<not> qe_delivered x)) \<and>
    (fst (withdraw q t i) \<longrightarrow>
       queue_of (snd (withdraw q t i)) t = filter (\<lambda>x. qe_id x \<noteq> i) (queue_of q t)) \<and>
    (i \<notin> seen \<longrightarrow> \<not> fst (withdraw (snd (hand_out q t seen)) t i))"
proof (intro conjI impI)
  show "fst (withdraw q t i) \<longleftrightarrow> (\<exists>x \<in> set (queue_of q t). qe_id x = i \<and> \<not> qe_delivered x)"
    by (rule withdraw_result)
next
  assume "fst (withdraw q t i)"
  then have ex: "\<exists>x \<in> set (queue_of q t). qe_id x = i \<and> \<not> qe_delivered x" by (simp add: withdraw_result)
  show "queue_of (snd (withdraw q t i)) t = filter (\<lambda>x. qe_id x \<noteq> i) (queue_of q t)"
  proof (cases "position (\<lambda>x. qe_id x = i \<and> \<not> qe_delivered x) (queue_of q t)")
    case None
    with ex show ?thesis by auto
  next
    case (Some n)
    have "distinct (map qe_id (queue_of q t))"
      using queue_inv_queue_of [OF assms, of t] by (simp add: queue_ok_def)
    from remove_at_position_filter [OF Some this] position_SomeD [OF Some] show ?thesis
      using Some by (simp add: queue_of_withdraw withdraw_from_def del: position_None)
  qed
next
  assume "i \<notin> seen"
  then have "qe_delivered x" if "x \<in> set (queue_of (snd (hand_out q t seen)) t)" "qe_id x = i" for x
    using eq.hand_delivers [OF that(1)] that(2) by auto
  then show "\<not> fst (withdraw (snd (hand_out q t seen)) t i)" by (auto simp: withdraw_result)
qed

section \<open>Children\<close>

definition child_later :: "child_info \<Rightarrow> child_info \<Rightarrow> bool" where
  "child_later c c' \<longleftrightarrow>
     c_id c' = c_id c \<and> c_name c' = c_name c \<and> c_task c' = c_task c \<and> c_parent c' = c_parent c \<and>
     c_depth c' = c_depth c \<and> c_created_at c' = c_created_at c \<and> c_status c \<le> c_status c'"

definition children_grow :: "core \<Rightarrow> core \<Rightarrow> bool" where
  "children_grow c c' \<longleftrightarrow>
     (let cs = children (core_registry c); cs' = children (core_registry c')
      in length cs \<le> length cs' \<and> (\<forall>i < length cs. child_later (cs ! i) (cs' ! i)))"

lemma child_later_refl [simp]: "child_later c c"
  by (simp add: child_later_def)

lemma child_later_trans: "child_later a b \<Longrightarrow> child_later b c \<Longrightarrow> child_later a c"
  by (auto simp: child_later_def)

lemma children_grow_trans: "children_grow a b \<Longrightarrow> children_grow b c \<Longrightarrow> children_grow a c"
proof -
  assume a: "children_grow a b" and b: "children_grow b c"
  have len: "length (children (core_registry a)) \<le> length (children (core_registry b))"
    "length (children (core_registry b)) \<le> length (children (core_registry c))"
    using a b by (simp_all add: children_grow_def Let_def)
  have "child_later (children (core_registry a) ! i) (children (core_registry c) ! i)"
    if i: "i < length (children (core_registry a))" for i
    using a b i len(1) child_later_trans [of "children (core_registry a) ! i"
        "children (core_registry b) ! i" "children (core_registry c) ! i"]
    by (simp add: children_grow_def Let_def)
  then show ?thesis using len by (simp add: children_grow_def Let_def)
qed

lemma children_grow_same:
  "children (core_registry c') = children (core_registry c) \<Longrightarrow> children_grow c c'"
  by (simp add: children_grow_def)

lemma children_grow_list:
  assumes "children_trans (children (core_registry c)) (children (core_registry c'))"
  shows "children_grow c c'"
  using assms child_trans_status child_trans_identity
  by (auto simp: children_grow_def child_later_def list_all2_conv_all_nth)

lemma children_grow_enqueue [simp]: "children_grow c (snd (enqueue c' e)) = children_grow c c'"
  by (simp add: children_grow_def)

lemma children_grow_sequence [simp]: "children_grow c (after_sequence c' key) = children_grow c c'"
  by (simp add: children_grow_def after_sequence_def)

lemma children_grow_notify [simp]: "children_grow c (c'\<lparr>core_notify := n\<rparr>) = children_grow c c'"
  by (simp add: children_grow_def)

lemma method_children:
  "children_trans (children r) (children (snd (registry_bind r t cid s)))"
  "children_trans (children r) (children (snd (registry_fail r t cid)))"
  "children_trans (children r) (children (snd (registry_delete r t sel)))"
  "children (snd (register r params)) = children r"
proof -
  have keep: "children_trans (children r) (children (snd (f r)))"
    if "\<And>e r'. f r = (Inl e, r') \<Longrightarrow> r' = r"
      "\<And>x r'. f r = (Inr x, r') \<Longrightarrow> children_trans (children r) (children r')"
    for f :: "registry \<Rightarrow> child_info rpc_result \<times> registry"
    using that by (cases "f r"; cases "fst (f r)") auto
  show "children_trans (children r) (children (snd (registry_bind r t cid s)))"
    by (rule keep [of "\<lambda>r. registry_bind r t cid s"]) (auto dest: registry_bind_Err registry_bind_keeps(3))
  show "children_trans (children r) (children (snd (registry_fail r t cid)))"
    by (rule keep [of "\<lambda>r. registry_fail r t cid"]) (auto dest: registry_fail_Err registry_fail_keeps(3))
  show "children_trans (children r) (children (snd (registry_delete r t sel)))"
    by (rule keep [of "\<lambda>r. registry_delete r t sel"]) (auto dest: registry_delete_Err registry_delete_keeps(3))
  show "children (snd (register r params)) = children r" by (simp add: register_def Let_def)
qed

lemma children_grow_admit: "children_grow c (snd (on_registry (\<lambda>r. admit rt r t params md now) c))"
proof (cases "admit rt (core_registry c) t params md now")
  case (Pair x r')
  show ?thesis
  proof (cases x)
    case (Inl e)
    with Pair have "r' = core_registry c" using admit_Err by blast
    with Pair show ?thesis by (simp add: children_grow_same)
  next
    case (Inr child)
    with Pair have "children r' = children (core_registry c) @ [child]" using admit_OkD by fastforce
    with Pair show ?thesis by (simp add: children_grow_def nth_append)
  qed
qed

interpretation children: core_relation children_grow
  by unfold_locales
    (auto intro: children_grow_same children_grow_trans children_grow_list children_grow_admit
      simp: method_children)

text \<open>
  C33. The life of a child: whatever the daemon is asked, children keep their place, id, name, task,
  parent and depth for ever, and their status only moves upwards through pending, running, failed
  and deleted.
\<close>

theorem child_life:
  assumes "i < length (children (core_registry (app_core app)))"
  shows "i < length (children (core_registry (app_core (fold serve as app)))) \<and>
    child_later (children (core_registry (app_core app)) ! i)
      (children (core_registry (app_core (fold serve as app))) ! i)"
proof -
  have "children_grow (app_core app) (app_core (fold serve as app))" by (rule children.serve_all_rel)
  with assms show ?thesis by (auto simp: children_grow_def Let_def)
qed

section \<open>Runs of the registry\<close>

text \<open>
  The methods of the registry in any order. The id of an admitted child is empty only when all of
  the 32-bit ids are taken.
\<close>

inductive registry_step :: "runtime \<Rightarrow> u32 \<Rightarrow> registry \<Rightarrow> registry \<Rightarrow> bool" for rt :: runtime and md :: u32 where
  step_register: "registry_step rt md r (snd (register r params))"
| step_admit: "new_child_id rt r now \<noteq> [] \<Longrightarrow> registry_step rt md r (snd (admit rt r p params md now))"
| step_bind: "registry_step rt md r (snd (registry_bind r p cid t))"
| step_fail: "registry_step rt md r (snd (registry_fail r p cid))"
| step_delete: "registry_step rt md r (snd (registry_delete r p sel))"
| step_sequence: "registry_step rt md r (snd (next_sequence r key))"

inductive_cases registry_stepE: "registry_step rt md r r'"

lemma next_sequence_ids: "registry_ids r \<Longrightarrow> registry_ids (snd (next_sequence r key))"
  unfolding registry_ids_def next_sequence_frame .

lemma admit_keeps_inv:
  assumes "registry_inv (unat md) r" "new_child_id rt r now \<noteq> []"
  shows "registry_inv (unat md) (snd (admit rt r p params md now))"
proof (cases "admit rt r p params md now")
  case (Pair x r')
  with assms admit_Err [of rt r p params md now _ r'] admit_limits [of "unat md" r rt p params md now _ r']
    admit_ids [of r rt p params md now _ r']
  show ?thesis by (cases x) auto
qed

lemma registry_step_inv:
  assumes "registry_inv (unat md) r" and "registry_step rt md r r'"
  shows "registry_inv (unat md) r'"
  using assms(2)
proof cases
  case (step_register params)
  then show ?thesis using reg_register.keeps [OF assms(1)] by simp
next
  case (step_admit now p params)
  then show ?thesis using admit_keeps_inv [OF assms(1)] by simp
next
  case (step_bind p cid t)
  then show ?thesis using reg_bind.keeps [OF assms(1)] by simp
next
  case (step_fail p cid)
  then show ?thesis using reg_fail.keeps [OF assms(1)] by simp
next
  case (step_delete p sel)
  then show ?thesis using reg_delete.keeps [OF assms(1)] by simp
next
  case (step_sequence key)
  then show ?thesis using assms(1) next_sequence_limits next_sequence_ids by simp
qed

interpretation registry_run: inductive_invariant "\<lambda>r. r = registry_default" "registry_step rt md"
    "registry_inv (unat md)" for rt md
  using registry_limits_default registry_ids_default registry_step_inv by unfold_locales blast+

text \<open>
  C6. In every run of the registry: at most 1024 targets; every child has a valid name, a non-blank
  task of at most 32 KiB and a depth between one and the maximum; a parent has at most 16 live
  children, no two of the same name; ids are unique; and a session is bound to one running child.
\<close>

theorem registry_run_limits:
  assumes "reach (\<lambda>r. r = registry_default) (registry_step rt md) r"
  shows "length (targets r) \<le> REGISTERED_TARGETS \<and>
    (\<forall>c \<in> set (children r). is_valid_name (c_name c) \<and> trim (c_task c) \<noteq> [] \<and>
       length (c_task c) \<le> TASK \<and> 1 \<le> unat (c_depth c) \<and> c_depth c \<le> md) \<and>
    (\<forall>p. length (live_children r p) \<le> CHILDREN_PER_PARENT \<and>
         distinct (map c_name (live_children r p))) \<and>
    distinct (map c_id (children r)) \<and>
    (\<forall>c \<in> set (children r). \<forall>c' \<in> set (children r).
       bound_session c \<noteq> None \<and> bound_session c = bound_session c' \<longrightarrow> c = c')"
proof -
  have "registry_limits (unat md) r" "registry_ids r"
    using registry_run.reach_inv [OF assms] by blast+
  then show ?thesis
    by (auto simp: registry_limits_def registry_ids_def targets_ok_def child_ok_def word_le_nat_alt)
qed

section \<open>Names and bounds\<close>

lemma lower_digit_iff: "lower_digit c \<longleftrightarrow> (\<exists>x. c = [x] \<and> ascii_lower_digit x)"
  by (cases c rule: lower_digit.cases) auto

lemma name_char_not_cont: "ascii_lower_digit c \<or> c = CHR ''-'' \<Longrightarrow> \<not> is_cont c"
  by (auto simp: ascii_lower_digit_def less_eq_char_def dest!: is_cont_range)

lemma chars_plain: "(\<And>c. c \<in> set s \<Longrightarrow> \<not> is_cont c) \<Longrightarrow> chars s = map (\<lambda>c. [c]) s"
proof (induction s rule: chars.induct)
  case (2 c cs)
  have "takeWhile is_cont cs = []" "dropWhile is_cont cs = cs"
    using 2(2) by (cases cs; simp)+
  with 2 show ?case by simp
qed simp

text \<open>
  The name check is the pattern its error message states: one to 63 characters, all of them
  lower case ASCII letters, digits or hyphens, the first not a hyphen.
\<close>

theorem valid_name_pattern:
  "is_valid_name s \<longleftrightarrow>
     s \<noteq> [] \<and> length s \<le> 63 \<and> list_all (\<lambda>c. ascii_lower_digit c \<or> c = CHR ''-'') s \<and> hd s \<noteq> CHR ''-''"
  unfolding list_all_iff
proof
  assume "is_valid_name s"
  then obtain f rest where c: "chars s = f # rest" and len: "length s \<le> 63" and f: "lower_digit f"
    and rest: "list_all (\<lambda>c. lower_digit c \<or> c = ''-'') rest"
    by (auto simp: is_valid_name_def split: list.splits)
  have "s = f @ concat rest" using concat_chars [of s] c by simp
  moreover obtain x where "f = [x]" "ascii_lower_digit x" using f by (auto simp: lower_digit_iff)
  moreover have "ascii_lower_digit c \<or> c = CHR ''-''" if mem: "c \<in> set (concat rest)" for c
  proof -
    obtain xs where xs: "xs \<in> set rest" "c \<in> set xs" using mem by auto
    with rest have "lower_digit xs \<or> xs = ''-''" by (simp add: list_all_iff)
    with xs(2) show ?thesis by (elim disjE) (auto simp: lower_digit_iff)
  qed
  moreover have "\<not> ascii_lower_digit CHR ''-''" by (simp add: ascii_lower_digit_def)
  ultimately show "s \<noteq> [] \<and> length s \<le> 63 \<and>
      (\<forall>c \<in> set s. ascii_lower_digit c \<or> c = CHR ''-'') \<and> hd s \<noteq> CHR ''-''"
    using len by auto
next
  assume s: "s \<noteq> [] \<and> length s \<le> 63 \<and>
    (\<forall>c \<in> set s. ascii_lower_digit c \<or> c = CHR ''-'') \<and> hd s \<noteq> CHR ''-''"
  then have "chars s = map (\<lambda>c. [c]) s" using name_char_not_cont by (intro chars_plain) blast
  with s show "is_valid_name s"
    by (cases s) (auto simp: is_valid_name_def list_all_iff lower_digit_iff)
qed

text \<open>
  C34. Enforcing the bounds keeps all of a text that fits its bound, and of a longer one the marker
  and as much as fits: the end of the two streams and of the traceback, the beginning of the result
  and of the error value; status, counters and the name of the error are left alone. The cell is
  within the bounds after that, and the truncation flag is set exactly when it was not before. Exactly a
  cell that is within the bounds stays as it is, so doing it twice is doing it once.
\<close>

theorem enforce_bounds_correct:
  "keeps_tail CELL_STREAM (cr_stdout r) (cr_stdout (enforce_bounds r)) \<and>
   keeps_tail CELL_STREAM (cr_stderr r) (cr_stderr (enforce_bounds r)) \<and>
   rel_option (keeps_head CELL_RESULT) (cr_result r) (cr_result (enforce_bounds r)) \<and>
   rel_option keeps_error (cr_error r) (cr_error (enforce_bounds r)) \<and>
   cr_status (enforce_bounds r) = cr_status r \<and>
   cr_execution_count (enforce_bounds r) = cr_execution_count r \<and>
   cr_duration_ms (enforce_bounds r) = cr_duration_ms r \<and>
   within_bounds (enforce_bounds r) \<and>
   cr_truncated (enforce_bounds r) = (if within_bounds r then cr_truncated r else True) \<and>
   (enforce_bounds r = r \<longleftrightarrow> within_bounds r) \<and>
   enforce_bounds (enforce_bounds r) = enforce_bounds r"
proof -
  have "enforce_bounds r = r \<longleftrightarrow> within_bounds r"
    using within_bounds_enforce [of r] enforce_bounds_fit [of r] by metis
  then show ?thesis
    by (simp add: enforce_bounds_keeps within_bounds_enforce enforce_bounds_fit enforce_bounds_truncated
        enforce_bounds_fields(5,6,7))
qed

section \<open>Restarts\<close>

text \<open>
  A spawn that was saved survives a restart: when both state files were written and the codec
  reads back what it wrote for them, loading the state directory gives the same registry and, for
  every target, the same queue, within the invariant.
\<close>

theorem spawn_survives_restart:
  assumes "app_inv app" and "spawn w owner params app = (Inr child, app')" and "w_io w = (Saved, Saved)"
    and "enc_registry (w_codec w) (core_registry (app_core app')) = Inr rb"
    and "dec_registry (w_codec w) (rb @ [newline]) = Inr (core_registry (app_core app'))"
    and "enc_queue (w_codec w) (to_file (core_queue (app_core app'))) = Inr qb"
    and "dec_queue (w_codec w) (qb @ [newline]) = Inr (to_file (core_queue (app_core app')))"
  shows "\<exists>st. state_load (w_codec w) (st_files (a_state app')) (st_dir (a_state app')) = Inr st \<and>
    core_registry (st_core st) = core_registry (app_core app') \<and>
    (\<forall>t. queue_of (core_queue (st_core st)) t = queue_of (core_queue (app_core app')) t) \<and>
    core_inv (registry_limits (unat (o_max_depth (a_options app)))) (st_core st)"
proof -
  let ?ch = "spawn_change w (o_max_depth (a_options app)) owner params"
  have "update (w_codec w) (unat (w_pid w)) (Saved, Saved) ?ch (a_state app) = (Inr child, a_state app')"
    using assms(2,3) by (auto simp: spawn_def app_update_def split: prod.splits)
  from change_spawn.update_reload [OF _ this] assms(1,4-7) show ?thesis by (simp add: app_inv_def)
qed

text \<open>
  The two files are not saved as one: when the events file cannot be written after the registry
  was, the spawn still succeeds and the failure is only logged, the registry file has the new child
  and the events file is the old one. A restart then finds a pending child without its event.
\<close>

theorem spawn_half_saved:
  assumes "spawn w owner params app = (Inr child, app')" and "w_io w = (Saved, Write_Failed err part)"
    and "enc_registry (w_codec w) (core_registry (app_core app')) = Inr rb"
    and "enc_queue (w_codec w) (to_file (core_queue (app_core app'))) = Inr qb"
  shows "st_files (a_state app') (path_join (st_dir (a_state app)) REGISTRY_FILE) = Contents (rb @ [newline]) \<and>
    st_files (a_state app') (path_join (st_dir (a_state app)) EVENTS_FILE) =
      st_files (a_state app) (path_join (st_dir (a_state app)) EVENTS_FILE) \<and>
    child \<in> set (children (core_registry (app_core app'))) \<and> c_status child = Pending"
proof -
  let ?ch = "spawn_change w (o_max_depth (a_options app)) owner params"
  have up: "update (w_codec w) (unat (w_pid w)) (w_io w) ?ch (a_state app) = (Inr child, a_state app')"
    using assms(1) by (auto simp: spawn_def app_update_def split: prod.splits)
  have res: "fst (?ch (app_core app)) = Inr child"
    using update_result [of "w_codec w" "unat (w_pid w)" "w_io w" ?ch "a_state app"] up by simp
  have core: "app_core app' = snd (?ch (app_core app))\<lparr>core_notify := []\<rparr>"
    using update_core [of "w_codec w" "unat (w_pid w)" "w_io w" ?ch "a_state app"] up by simp
  have "st_files (a_state app') = st_files (persist (w_codec w) (unat (w_pid w)) (w_io w)
      (app_core app') (a_state app))"
    using update_files [of "w_codec w" "unat (w_pid w)" "w_io w" ?ch "a_state app"] up res core by simp
  then have "st_files (a_state app') (path_join (st_dir (a_state app)) REGISTRY_FILE) = Contents (rb @ [newline])"
    "st_files (a_state app') (path_join (st_dir (a_state app)) EVENTS_FILE) =
      st_files (a_state app) (path_join (st_dir (a_state app)) EVENTS_FILE)"
    using assms(2-4) by (simp_all add: persist_def store_save_def Let_def)
  moreover have "child \<in> set (children (core_registry (app_core app')))" "c_status child = Pending"
    using spawn_effect [OF assms(1)] by auto
  ultimately show ?thesis by blast
qed

section \<open>Witnesses\<close>

definition demo_event :: event where
  "demo_event = message_to_child parent_target demo_session 1 ''m'' 0"

definition demo_queue :: event_queue where
  "demo_queue = snd (push queue_default demo_event)"

lemma demo_queue_of: "queue_of demo_queue demo_session = [\<lparr>qe_event = demo_event, qe_delivered = False\<rparr>]"
  by (simp add: demo_queue_def queue_of_push demo_event_def add_event_def drop_overflow_fit
      QUEUED_EVENTS_def)

lemma demo_queue_inv: "queue_inv demo_queue"
  by (simp add: demo_queue_def push_inv queue_inv_default)

theorem replay_until_ack_witness:
  "demo_event \<in> set (list_events (fold queue_step [Hand_Out demo_session {}, Restart_Daemon] demo_queue) demo_session)"
  using replay_until_ack [OF demo_queue_inv, of demo_event demo_session "[Hand_Out demo_session {}, Restart_Daemon]"]
  by (simp add: demo_queue_of QUEUED_EVENTS_def)

theorem withdraw_until_delivered_witness:
  "fst (withdraw demo_queue demo_session (e_id demo_event)) \<and>
   \<not> fst (withdraw (snd (hand_out demo_queue demo_session {})) demo_session (e_id demo_event))"
  using withdraw_until_delivered [OF demo_queue_inv, of demo_session "e_id demo_event" "{}"]
  by (simp add: demo_queue_of)

theorem child_life_witness:
  "child_later demo_child
     (children (core_registry (app_core (fold serve [By_Client demo_world None (Some ''{}'')] child_app))) ! 0)"
  using child_life [of 0 child_app "[By_Client demo_world None (Some ''{}'')]"]
  by (simp add: child_app_def)

theorem registry_run_limits_witness:
  "distinct (map c_id (children (snd (next_sequence registry_default ''k''))))"
proof -
  have "reach (\<lambda>r. r = registry_default) (registry_step (w_runtime demo_world) 1)
      (snd (next_sequence registry_default ''k''))"
    by (rule reach_step [where s = registry_default]) (simp_all add: reach_init step_sequence)
  then show ?thesis using registry_run_limits by blast
qed

text \<open>A codec that reads back one registry and one queue, and the daemon that uses it.\<close>

definition codec_for :: "registry \<Rightarrow> queue_file \<Rightarrow> codecs" where
  "codec_for r q = \<lparr>enc_registry = (\<lambda>_. Inr ''r''), dec_registry = (\<lambda>_. Inr r),
                    enc_queue = (\<lambda>_. Inr ''q''), dec_queue = (\<lambda>_. Inr q)\<rparr>"

text \<open>The result and the core after a spawn do not depend on the codec or the disk.\<close>

lemma spawn_other_disk:
  assumes "spawn w owner params app = (Inr child, app1)"
  shows "\<exists>app2. spawn (w\<lparr>w_codec := codec, w_io := io\<rparr>) owner params app = (Inr child, app2) \<and>
    app_core app2 = app_core app1"
proof -
  let ?w = "w\<lparr>w_codec := codec, w_io := io\<rparr>"
  have same: "spawn_change ?w = spawn_change w" 
    by (intro ext) (simp add: spawn_change_def split: prod.splits sum.splits)
  let ?ch = "spawn_change w (o_max_depth (a_options app)) owner params"
  obtain r app2 where u: "app_update ?w ?ch app = (r, app2)" by fastforce
  from app_updateD(1,2) [OF u] app_updateD(1,2) [OF assms [unfolded spawn_def]] u same
  show ?thesis by (simp add: spawn_def)
qed

lemma demo_spawn: "\<exists>child app'. spawn demo_world demo_session demo_params demo_app = (Inr child, app')"
  using demo_admission [of demo_app] by (auto simp: demo_app_def options_new_def)

theorem spawn_survives_restart_witness:
  "\<exists>(w :: nat world) child app' st. spawn w demo_session demo_params demo_app = (Inr child, app') \<and>
     state_load (w_codec w) (st_files (a_state app')) (st_dir (a_state app')) = Inr st \<and>
     core_registry (st_core st) = core_registry (app_core app')"
proof -
  obtain child app1 where sp: "spawn demo_world demo_session demo_params demo_app = (Inr child, app1)"
    using demo_spawn by blast
  let ?codec = "codec_for (core_registry (app_core app1)) (to_file (core_queue (app_core app1)))"
  let ?w = "demo_world\<lparr>w_codec := ?codec, w_io := (Saved, Saved)\<rparr>"
  obtain app2 where "spawn ?w demo_session demo_params demo_app = (Inr child, app2)"
    and "app_core app2 = app_core app1"
    using spawn_other_disk [OF sp] by blast
  then show ?thesis
    using spawn_survives_restart [OF demo_app_inv, of ?w demo_session demo_params child app2 "''r''" "''q''"]
    by (fastforce simp: codec_for_def)
qed

theorem spawn_half_saved_witness:
  "\<exists>(w :: nat world) child app'. spawn w demo_session demo_params demo_app = (Inr child, app') \<and>
     st_files (a_state app') (path_join ''/state'' REGISTRY_FILE) = Contents (''r'' @ [newline]) \<and>
     st_files (a_state app') (path_join ''/state'' EVENTS_FILE) = Missing"
proof -
  obtain child app1 where sp: "spawn demo_world demo_session demo_params demo_app = (Inr child, app1)"
    using demo_spawn by blast
  let ?w = "demo_world\<lparr>w_codec := demo_codec, w_io := (Saved, Write_Failed ''full'' Missing)\<rparr>"
  obtain app2 where sp2: "spawn ?w demo_session demo_params demo_app = (Inr child, app2)"
    using spawn_other_disk [OF sp] by blast
  have "st_dir (a_state demo_app) = ''/state''" "st_files (a_state demo_app) = (\<lambda>_. Missing)"
    by (simp_all add: demo_app_def)
  then show ?thesis
    using spawn_half_saved [OF sp2, of "''full''" Missing "''r''" "''q''"] sp2
    by (fastforce simp: demo_codec_def)
qed

end
