(* ===== verification/Sse_Props.thy ===== *)
theory Sse_Props
  imports Sse Core_Props
begin

text \<open>
  What the event stream promises: how events are split into frames, what a new subscription gets,
  and that no event is lost between the critical sections of a listener, whatever runs between them.
\<close>

section \<open>Frames\<close>

definition frame_size :: "(event \<Rightarrow> nat) \<Rightarrow> event list \<Rightarrow> nat" where
  "frame_size len es = sum_list (map len es)"

lemma frame_size_simps [simp]:
  "frame_size len [] = 0" "frame_size len (e # es) = len e + frame_size len es"
  "frame_size len (es @ fs) = frame_size len es + frame_size len fs"
  by (simp_all add: frame_size_def)

lemma budget_usize [simp]: "frame_budget < usize_max"
  by (simp add: frame_budget_def SSE_FRAME_def usize_max_def)

lemma over_budget: "frame_budget < sat_add (min a usize_max) b \<longleftrightarrow> frame_budget < a + b"
  by (simp add: sat_add_def min_add_distrib_left trans_less_add1)

lemma sat_add_min: "sat_add (min a usize_max) b = min (a + b) usize_max"
  by (simp add: sat_add_def)

text \<open>A frame that fits: within the budget, or a single event.\<close>

definition fits :: "(event \<Rightarrow> nat) \<Rightarrow> event list \<Rightarrow> bool" where
  "fits len f \<longleftrightarrow> frame_size len f \<le> frame_budget \<or> length f = 1"

text \<open>Frames in order: none empty, each fits, and none could have taken the first event of the next.\<close>

fun greedy :: "(event \<Rightarrow> nat) \<Rightarrow> event list list \<Rightarrow> bool" where
  "greedy len [] \<longleftrightarrow> True"
| "greedy len [f] \<longleftrightarrow> f \<noteq> [] \<and> fits len f"
| "greedy len (f # g # fs) \<longleftrightarrow>
     f \<noteq> [] \<and> fits len f \<and> frame_budget < frame_size len f + len (hd g) \<and> greedy len (g # fs)"

lemma greedy_snoc:
  "greedy len (fs @ [f, g]) \<longleftrightarrow>
     greedy len (fs @ [f]) \<and> frame_budget < frame_size len f + len (hd g) \<and> g \<noteq> [] \<and> fits len g"
  by (induction fs rule: greedy.induct) auto

lemma greedy_grow:
  "greedy len (fs @ [f]) \<Longrightarrow> f \<noteq> [] \<Longrightarrow> fits len (f @ [e]) \<Longrightarrow> greedy len (fs @ [f @ [e]])"
proof (induction fs rule: greedy.induct)
qed auto

lemma chunk_loop_concat:
  "concat (chunk_loop len frames frame used es) = concat frames @ frame @ es"
  by (induction len frames frame used es rule: chunk_loop.induct) auto

lemma chunk_loop_greedy:
  assumes "greedy len (frames @ [frame])" "used = min (frame_size len frame) usize_max"
  shows "greedy len (chunk_loop len frames frame used es)"
  using assms
proof (induction es arbitrary: frames frame used)
  case Nil
  then show ?case by simp
next
  case (Cons e es)
  have ne: "frame \<noteq> []" using Cons.prems(1) by (induction frames rule: greedy.induct) auto
  show ?case
  proof (cases "frame_budget < sat_add used (len e)")
    case True
    then have "greedy len ((frames @ [frame]) @ [[e]])"
      using Cons.prems by (simp add: greedy_snoc over_budget fits_def)
    with True ne show ?thesis by (simp add: Cons.IH sat_add_def)
  next
    case False
    then have "fits len (frame @ [e])" using Cons.prems(2) by (simp add: over_budget fits_def)
    with Cons.prems ne have "greedy len (frames @ [frame @ [e]])" by (simp add: greedy_grow)
    with False Cons.prems(2) show ?thesis by (simp add: Cons.IH sat_add_min)
  qed
qed

lemma chunk_empty [simp]: "chunk fj [] = [[]]"
  by (simp add: chunk_def)

lemma chunk_concat [simp]: "concat (chunk fj es) = es"
  by (simp add: chunk_def chunk_loop_concat)

lemma chunk_greedy: "es \<noteq> [] \<Longrightarrow> greedy (event_length fj) (chunk fj es)"
  by (cases es) (simp_all add: chunk_def sat_add_def chunk_loop_greedy fits_def)

lemma greedy_mem: "greedy len fs \<Longrightarrow> list_all (\<lambda>f. f \<noteq> [] \<and> fits len f) fs"
  by (induction fs rule: greedy.induct) auto

section \<open>Notifications\<close>

definition ids_of :: "event_queue \<Rightarrow> target \<Rightarrow> string set" where
  "ids_of q t = qe_id ` set (queue_of q t)"

lemma ids_of_list: "e_id ` set (list_events q t) = ids_of q t"
  by (simp add: ids_of_def list_events_queue_of image_image)

abbreviation app_ids :: "'v app \<Rightarrow> target \<Rightarrow> string set" where
  "app_ids app \<equiv> ids_of (core_queue (app_core app))"

text \<open>A change announces every target whose queue it makes longer.\<close>

definition announces :: "core \<Rightarrow> core \<Rightarrow> bool" where
  "announces c c' \<longleftrightarrow>
     (queue_inv (core_queue c) \<longrightarrow> queue_inv (core_queue c')) \<and>
     set (bm_keys (core_notify c)) \<subseteq> set (bm_keys (core_notify c')) \<and>
     (queue_inv (core_queue c) \<longrightarrow>
       (\<forall>t. target_key t \<notin> set (bm_keys (core_notify c')) \<longrightarrow>
         ids_of (core_queue c') t \<subseteq> ids_of (core_queue c) t))"

lemma announces_trans: "announces a b \<Longrightarrow> announces b c \<Longrightarrow> announces a c"
  unfolding announces_def by blast

lemma announces_same:
  "core_queue c' = core_queue c \<Longrightarrow> core_notify c' = core_notify c \<Longrightarrow> announces c c'"
  by (simp add: announces_def)

lemma bm_insert_keys: "fst ` set (bm_insert k v m) = insert k (fst ` set m)"
  by (induction k v m rule: bm_insert.induct) auto

lemma ids_of_add_event: "qe_id ` set (add_event e es) \<subseteq> insert (e_id e) (qe_id ` set es)"
  using drop_overflow_set [of "es @ [\<lparr>qe_event = e, qe_delivered = False\<rparr>]"]
  by (auto simp: add_event_def)

lemma announces_enqueue: "announces c (snd (enqueue c e))"
  by (auto simp: announces_def bm_insert_keys push_inv ids_of_def queue_of_push)

lemma announces_on_queue:
  assumes "\<And>q. queue_inv q \<Longrightarrow> queue_inv (snd (f q)) \<and> (\<forall>t. ids_of (snd (f q)) t \<subseteq> ids_of q t)"
  shows "announces c (snd (on_queue f c))"
  using assms by (simp add: announces_def)

lemma ids_of_ack: "queue_inv q \<Longrightarrow> ids_of (snd (ack q t ids)) t' \<subseteq> ids_of q t'"
  by (auto simp: ids_of_def queue_of_ack queue_inv_wf)

lemma ids_of_withdraw: "ids_of (snd (withdraw q t eid)) t' \<subseteq> ids_of q t'"
proof -
  have "set (withdraw_from eid es) \<subseteq> set es" for es
    by (auto simp: withdraw_from_def split: option.splits dest: subsetD [OF set_remove_at])
  then show ?thesis unfolding ids_of_def queue_of_withdraw by (simp add: image_mono)
qed

lemma ids_of_hand_out [simp]: "ids_of (snd (hand_out q t seen)) t' = ids_of q t'"
proof -
  have "map qe_id (queue_of (snd (hand_out q t seen)) t') = map qe_id (queue_of q t')"
    by (simp add: queue_of_hand_out)
  then show ?thesis unfolding ids_of_def by (metis list.set_map)
qed

lemma announces_registry: "announces c (snd (on_registry f c))"
  by (rule announces_same) simp_all

lemma announces_message: "announces c (snd (enqueue (after_sequence c key) e))"
  by (rule announces_trans [OF _ announces_enqueue]) (simp add: after_sequence_def announces_registry)

lemma announces_spawn: "announces c (snd (spawn_change w md owner params c))"
proof -
  obtain x c' where a: "on_registry (\<lambda>r. admit (w_runtime w) r owner params md (w_now w)) c = (x, c')"
    by fastforce
  have "announces c c'"
    using announces_registry [of c "\<lambda>r. admit (w_runtime w) r owner params md (w_now w)"] by (simp add: a)
  then show ?thesis
    using announces_trans [OF _ announces_enqueue] by (simp add: spawn_change_def a split: sum.splits)
qed

lemma announces_fail: "announces c (snd (fail_change now t cid reason c))"
proof -
  obtain x c' where a: "on_registry (\<lambda>r. registry_fail r t cid) c = (x, c')" by fastforce
  have "announces c c'"
    using announces_registry [of c "\<lambda>r. registry_fail r t cid"] by (simp add: a)
  then show ?thesis
    using announces_trans [OF _ announces_message]
    by (simp add: fail_change_def a Let_def split_beta after_sequence_def split: sum.splits)
qed

lemma announces_changes:
  "announces c (snd (to_parent_change now sender msg c))"
  "announces c (snd (to_child_change now sender name msg c))"
  "announces c (snd (enqueue_change e c))"
  "announces c (snd (withdraw_change t eid c))"
  "announces c (snd (ack_change t ids c))"
  "announces c (snd (hand_change t claimed c))"
proof -
  show "announces c (snd (to_parent_change now sender msg c))"
    using announces_message [of c]
    by (simp add: to_parent_change_def Let_def split_beta after_sequence_def announces_same split: option.splits)
  show "announces c (snd (to_child_change now sender name msg c))"
    using announces_message [of c]
    by (simp add: to_child_change_def Let_def split_beta after_sequence_def announces_same split: option.splits)
  show "announces c (snd (enqueue_change e c))"
    by (simp add: enqueue_change_def map_prod_def split_beta announces_enqueue)
  show "announces c (snd (withdraw_change t eid c))"
    unfolding withdraw_change_def
    by (rule announces_on_queue) (simp add: map_prod_def split_beta withdraw_inv ids_of_withdraw)
  show "announces c (snd (ack_change t ids c))"
    unfolding ack_change_def
    by (rule announces_on_queue) (simp add: map_prod_def split_beta ack_inv ids_of_ack)
  show "announces c (snd (hand_change t claimed c))"
    unfolding hand_change_def
    by (rule announces_on_queue) (simp add: map_prod_def split_beta hand_out_inv)
qed

text \<open>The same of the application: the keys \<open>update\<close> appended are those it sends to the listeners.\<close>

definition announced :: "'v app \<Rightarrow> 'v app \<Rightarrow> bool" where
  "announced app app' \<longleftrightarrow>
     (\<exists>keys. st_changes (a_state app') = st_changes (a_state app) @ keys \<and>
       (queue_inv (core_queue (app_core app)) \<longrightarrow>
         queue_inv (core_queue (app_core app')) \<and>
         (\<forall>t. target_key t \<notin> set keys \<longrightarrow> app_ids app' t \<subseteq> app_ids app t)))"

lemma announced_update:
  assumes "\<And>c. announces c (snd (change c))"
  shows "announced app (snd (app_update w change app))"
  using assms [of "app_core app"] update_changes [of "w_codec w" "unat (w_pid w)" "w_io w" change "a_state app"]
  unfolding announced_def announces_def by (auto simp: app_update_def split_beta)

interpretation announced: app_relation "\<lambda>_. True" announced
proof
  fix a b c :: "'v app"
  assume "announced a b" "announced b c"
  then show "announced a c" unfolding announced_def by (elim exE conjE) (auto intro!: exI)
next
  fix app :: "'v app" and m w
  show "announced app app" "announced app (app\<lparr>a_kernels := m\<rparr>)" "announced app (app_touch w app)"
    by (simp_all add: announced_def app_touch_def)
qed (rule announced_update, simp add: announces_spawn announces_fail announces_changes announces_registry)+

section \<open>A listener among everything else\<close>

text \<open>
  The daemon with one listener: the keys taken by updates that have not been sent yet, and what the
  listener's receiver still holds. A receiver that falls behind loses the oldest keys and is told so.
\<close>

record 'v sse_sys =
  y_app :: "'v app"
  y_flight :: "string list"
  y_chan :: "string list"
  y_lagged :: bool
  y_listener :: listener

definition publish :: "'v app \<Rightarrow> 'v sse_sys \<Rightarrow> 'v sse_sys" where
  "publish app' y =
     y\<lparr>y_app := app',
       y_flight := y_flight y @
         drop (length (st_changes (a_state (y_app y)))) (st_changes (a_state app'))\<rparr>"

fun outside_signal :: "signal \<Rightarrow> bool" where
  "outside_signal (Change key) \<longleftrightarrow> False"
| "outside_signal Lagged \<longleftrightarrow> False"
| "outside_signal Changes_Closed \<longleftrightarrow> True"
| "outside_signal (Heartbeat_Tick at) \<longleftrightarrow> True"
| "outside_signal Shutdown \<longleftrightarrow> True"
| "outside_signal Tx_Closed \<longleftrightarrow> True"

inductive sse_step :: "frame_json \<Rightarrow> 'v sse_sys \<Rightarrow> 'v sse_sys \<Rightarrow> bool" for fj :: frame_json where
  sys_serve: "sse_step fj y (publish (serve a (y_app y)) y)"
| sys_other: "sse_step fj y (publish (snd (app_update w (hand_change t claimed) (y_app y))) y)"
| sys_notify: "y_flight y = xs @ k # ys \<Longrightarrow>
    sse_step fj y (y\<lparr>y_flight := xs @ ys, y_chan := y_chan y @ [k]\<rparr>)"
| sys_overflow: "y_chan y = k # ks \<Longrightarrow> sse_step fj y (y\<lparr>y_chan := ks, y_lagged := True\<rparr>)"
| sys_poll: "l_phase (y_listener y) \<noteq> L_Wait \<Longrightarrow>
    listener_poll w fj (y_app y) (y_listener y) = (l, app') \<Longrightarrow>
    sse_step fj y ((publish app' y)\<lparr>y_listener := l\<rparr>)"
| sys_recv: "l_phase (y_listener y) = L_Wait \<Longrightarrow> \<not> y_lagged y \<Longrightarrow> y_chan y = k # ks \<Longrightarrow>
    sse_step fj y (y\<lparr>y_chan := ks, y_listener := on_signal fj (Change k) (y_listener y)\<rparr>)"
| sys_lagged: "l_phase (y_listener y) = L_Wait \<Longrightarrow> y_lagged y \<Longrightarrow>
    sse_step fj y (y\<lparr>y_lagged := False, y_listener := on_signal fj Lagged (y_listener y)\<rparr>)"
| sys_signal: "l_phase (y_listener y) = L_Wait \<Longrightarrow> outside_signal s \<Longrightarrow>
    sse_step fj y (y\<lparr>y_listener := on_signal fj s (y_listener y)\<rparr>)"

definition sse_init :: "'v sse_sys \<Rightarrow> bool" where
  "sse_init y \<longleftrightarrow>
     queue_inv (core_queue (app_core (y_app y))) \<and>
     (\<exists>t left. y_listener y = listener_new t left)"

text \<open>The ids a client has been sent, and those in frames still to come.\<close>

fun frame_ids :: "sse_frame \<Rightarrow> string set" where
  "frame_ids (Subscribed t) = {}"
| "frame_ids (Events t es) = e_id ` set es"
| "frame_ids (Heartbeat at) = {}"

definition sent_ids :: "listener \<Rightarrow> string set" where
  "sent_ids l = \<Union> (frame_ids ` set (l_sent l))"

fun coming_ids :: "listener_phase \<Rightarrow> string set" where
  "coming_ids (L_Send fs) = e_id ` set (concat fs)"
| "coming_ids L_Start = {}"
| "coming_ids (L_Check r) = {}"
| "coming_ids (L_Hand r) = {}"
| "coming_ids L_Wait = {}"
| "coming_ids L_Closed = UNIV"

text \<open>Phases in which the listener will look at the queue before it waits again.\<close>

fun will_look :: "listener_phase \<Rightarrow> bool" where
  "will_look L_Start \<longleftrightarrow> True"
| "will_look (L_Check r) \<longleftrightarrow> True"
| "will_look (L_Hand r) \<longleftrightarrow> True"
| "will_look (L_Send fs) \<longleftrightarrow> False"
| "will_look L_Wait \<longleftrightarrow> False"
| "will_look L_Closed \<longleftrightarrow> True"

definition wake_pending :: "'v sse_sys \<Rightarrow> bool" where
  "wake_pending y \<longleftrightarrow>
     y_lagged y \<or> target_key (l_target (y_listener y)) \<in> set (y_flight y) \<union> set (y_chan y)"

definition claims_ok :: "listener \<Rightarrow> bool" where
  "claims_ok l \<longleftrightarrow> l_claimed l \<subseteq> sent_ids l \<union> coming_ids (l_phase l)"

definition caught_up :: "'v app \<Rightarrow> listener \<Rightarrow> bool" where
  "caught_up app l \<longleftrightarrow> will_look (l_phase l) \<or> app_ids app (l_target l) \<subseteq> l_claimed l"

definition sse_inv :: "'v sse_sys \<Rightarrow> bool" where
  "sse_inv y \<longleftrightarrow>
     queue_inv (core_queue (app_core (y_app y))) \<and> claims_ok (y_listener y) \<and>
     (wake_pending y \<or> caught_up (y_app y) (y_listener y))"

lemma send_then_fields [simp]:
  "l_target (send_then fj f p l) = l_target l" "l_claimed (send_then fj f p l) = l_claimed l"
  by (simp_all add: send_then_def send_frame_def split_beta split: sum.splits)

lemma send_then_cases:
  assumes "\<And>f. \<exists>d. fj_frame fj f = Inr d"
  shows "l_phase (send_then fj f p l) = L_Closed \<or>
    l_phase (send_then fj f p l) = p \<and> l_sent (send_then fj f p l) = l_sent l @ [f]"
  using assms [of f] by (auto simp: send_then_def send_frame_def split_beta split: sum.splits)

lemma claims_ok_sent:
  assumes "\<And>f. \<exists>d. fj_frame fj f = Inr d"
    and "l_claimed l \<subseteq> sent_ids l \<union> frame_ids f \<union> coming_ids p"
  shows "claims_ok (send_then fj f p l)"
proof -
  have "l_phase (send_then fj f p l) = L_Closed \<or>
      l_phase (send_then fj f p l) = p \<and> sent_ids (send_then fj f p l) = sent_ids l \<union> frame_ids f"
    using send_then_cases [OF assms(1), of f p l] by (auto simp: sent_ids_def)
  with assms(2) show ?thesis by (auto simp: claims_ok_def)
qed

text \<open>What a hand-out leaves the listener with: exactly the ids that are queued.\<close>

lemma hand_claims:
  "retained q t claimed \<union> e_id ` set (fst (hand_out q t (retained q t claimed))) = ids_of q t"
  unfolding eq.hand_ids retained_def ids_of_list by (auto simp: ids_of_def)

lemma hand_result:
  "fst (app_update w (hand_change t claimed) app) =
     Inr (fst (hand_out (core_queue (app_core app)) t (retained (core_queue (app_core app)) t claimed)))"
  by (simp add: hand_change_def map_prod_def split_beta)

lemma hand_queue:
  "core_queue (app_core (snd (app_update w (hand_change t claimed) app))) =
     snd (hand_out (core_queue (app_core app)) t (retained (core_queue (app_core app)) t claimed))"
  by (simp add: hand_change_def map_prod_def split_beta)

lemma hand_announced: "announced app (snd (app_update w (hand_change t claimed) app))"
  by (rule announced_update) (rule announces_changes)

text \<open>The poll that hands out: the claims are what is queued, the frames what is new.\<close>

definition handed :: "'v app \<Rightarrow> listener \<Rightarrow> event list" where
  "handed app l =
     fst (hand_out (core_queue (app_core app)) (l_target l)
       (retained (core_queue (app_core app)) (l_target l) (l_claimed l)))"

lemma handed_eq:
  "handed app l =
     filter (\<lambda>e. e_id e \<notin> l_claimed l) (list_events (core_queue (app_core app)) (l_target l))"
  by (auto simp: handed_def hand_out_events list_events_queue_of filter_map o_def retained_def
      intro!: arg_cong [where f = "map qe_event"] filter_cong)

lemma listener_poll_hand:
  assumes "l_phase l = L_Hand replay"
  shows "listener_poll w fj app l =
    (l\<lparr>l_claimed := app_ids app (l_target l),
       l_phase := if handed app l = [] \<and> \<not> replay then L_Wait else L_Send (chunk fj (handed app l))\<rparr>,
     snd (app_update w (hand_change (l_target l) (l_claimed l)) app))"
  using assms hand_claims [of "core_queue (app_core app)" "l_target l" "l_claimed l"]
    hand_result [of w "l_target l" "l_claimed l" app]
  by (simp add: listener_poll_def Let_def split_beta handed_def del: app_update_simps)

lemma publish_fields [simp]:
  "y_app (publish app' y) = app'" "y_chan (publish app' y) = y_chan y"
  "y_lagged (publish app' y) = y_lagged y" "y_listener (publish app' y) = y_listener y"
  by (simp_all add: publish_def)

lemma publish_same [simp]: "publish (y_app y) y = y"
  by (simp add: publish_def)

lemma publish_inv:
  assumes "announced (y_app y) app'" and "sse_inv y"
  shows "sse_inv (publish app' y)"
proof -
  let ?l = "y_listener y"
  obtain keys where k: "st_changes (a_state app') = st_changes (a_state (y_app y)) @ keys"
      "queue_inv (core_queue (app_core app'))"
      "target_key (l_target ?l) \<notin> set keys \<Longrightarrow>
        app_ids app' (l_target ?l) \<subseteq> app_ids (y_app y) (l_target ?l)"
    using assms unfolding announced_def sse_inv_def by blast
  have flight: "y_flight (publish app' y) = y_flight y @ keys" by (simp add: publish_def k(1))
  have "wake_pending (publish app' y) \<or> caught_up app' ?l"
  proof (cases "target_key (l_target ?l) \<in> set keys \<or> wake_pending y")
    case True
    then show ?thesis by (auto simp: wake_pending_def flight)
  next
    case False
    then show ?thesis using assms(2) k(3) by (auto simp: sse_inv_def caught_up_def)
  qed
  with assms(2) k(2) show ?thesis by (simp add: sse_inv_def)
qed

lemma signal_inv:
  assumes json: "\<And>f. \<exists>d. fj_frame fj f = Inr d"
    and "l_phase l = L_Wait" "claims_ok l"
  shows "claims_ok (on_signal fj s l)" "l_target (on_signal fj s l) = l_target l"
    and "outside_signal s \<Longrightarrow> caught_up app l \<Longrightarrow> caught_up app (on_signal fj s l)"
proof -
  have c: "l_claimed l \<subseteq> sent_ids l" using assms(2,3) by (simp add: claims_ok_def)
  then show "claims_ok (on_signal fj s l)"
    using assms(3) claims_ok_sent [OF json, of l _ L_Wait]
    by (cases s) (auto simp: claims_ok_def sent_ids_def)
  show "l_target (on_signal fj s l) = l_target l" by (cases s) simp_all
  show "caught_up app (on_signal fj s l)" if "outside_signal s" "caught_up app l"
    using that assms(2) by (cases s) (auto simp: caught_up_def)
qed

lemma sent_ids_update [simp]:
  "sent_ids (l\<lparr>l_phase := p\<rparr>) = sent_ids l" "sent_ids (l\<lparr>l_claimed := c\<rparr>) = sent_ids l"
  by (simp_all add: sent_ids_def)

lemma claims_closed [simp]: "l_phase l = L_Closed \<Longrightarrow> claims_ok l"
  by (simp add: claims_ok_def)

lemma poll_claims:
  assumes json: "\<And>f. \<exists>d. fj_frame fj f = Inr d"
    and "claims_ok l" and poll: "listener_poll w fj app l = (l', app')"
  shows "claims_ok l'" "l_target l' = l_target l"
proof -
  have "claims_ok l' \<and> l_target l' = l_target l"
  proof (cases "l_phase l")
    case L_Start
    have "claims_ok (send_then fj (Subscribed (l_target l)) (L_Check True) l)"
      using assms(2) L_Start by (intro claims_ok_sent [OF json]) (auto simp: claims_ok_def)
    with L_Start poll show ?thesis by (auto simp: listener_poll_def split: if_splits)
  next
    case (L_Check r)
    with poll assms(2) show ?thesis
      by (auto simp: listener_poll_def claims_ok_def Let_def split: if_splits)
  next
    case (L_Hand r)
    have "app_ids app (l_target l) \<subseteq> l_claimed l \<union> e_id ` set (handed app l)"
      by (auto simp: handed_eq simp flip: ids_of_list)
    with L_Hand assms(2)
    have "app_ids app (l_target l) \<subseteq> sent_ids l \<union> e_id ` set (handed app l)"
      by (auto simp: claims_ok_def)
    then show ?thesis
      using L_Hand poll by (auto simp: listener_poll_hand claims_ok_def split: if_splits simp del: set_concat)
  next
    case (L_Send fs)
    show ?thesis
    proof (cases fs)
      case Nil
      with L_Send poll assms(2) show ?thesis
        by (auto simp: listener_poll_def claims_ok_def)
    next
      case (Cons f rest)
      have "claims_ok (send_then fj (Events (l_target l) f) (L_Send rest) l)"
        using assms(2) L_Send Cons by (intro claims_ok_sent [OF json]) (auto simp: claims_ok_def)
      with L_Send Cons poll show ?thesis by (auto simp: listener_poll_def)
    qed
  qed (use poll assms(2) in \<open>auto simp: listener_poll_def\<close>)
  then show "claims_ok l'" "l_target l' = l_target l" by auto
qed

lemma poll_app: "listener_poll w fj app l = (l', app') \<Longrightarrow> announced app app'"
  using hand_announced announced.rel_refl
  by (auto simp: listener_poll_def Let_def split_beta split: listener_phase.splits list.splits)

lemma poll_ids:
  "listener_poll w fj app l = (l', app') \<Longrightarrow> app_ids app' t = app_ids app t"
  by (auto simp: listener_poll_def Let_def split_beta hand_queue split: listener_phase.splits list.splits
      simp del: app_update_simps)

lemma poll_caught_up:
  assumes poll: "listener_poll w fj app l = (l', app')" and "caught_up app l"
  shows "caught_up app' l'"
proof (cases "l_phase l")
  case L_Start
  then show ?thesis using poll
    by (auto simp: listener_poll_def caught_up_def send_then_def split_beta split: if_splits)
next
  case (L_Check r)
  then show ?thesis using poll
    by (auto simp: listener_poll_def caught_up_def Let_def list_ex_iff split: if_splits
        simp flip: ids_of_list)
next
  case (L_Hand r)
  then have "l_claimed l' = app_ids app (l_target l)" "l_target l' = l_target l"
    using poll by (auto simp: listener_poll_hand)
  then show ?thesis using poll_ids [OF poll] by (simp add: caught_up_def)
next
  case (L_Send fs)
  then show ?thesis using poll assms(2)
    by (cases fs) (auto simp: listener_poll_def caught_up_def)
qed (use poll assms(2) in \<open>auto simp: listener_poll_def caught_up_def\<close>)

definition lost_event :: "'v sse_sys \<Rightarrow> bool" where
  "lost_event y \<longleftrightarrow>
     l_phase (y_listener y) = L_Wait \<and> \<not> wake_pending y \<and>
     \<not> app_ids (y_app y) (l_target (y_listener y)) \<subseteq> sent_ids (y_listener y)"

lemma sse_inv_step:
  assumes json: "\<And>f. \<exists>d. fj_frame fj f = Inr d"
    and inv: "sse_inv y" and "sse_step fj y y'"
  shows "sse_inv y'"
  using assms(3)
proof cases
  case (sys_serve a)
  then show ?thesis using publish_inv [OF announced.rel_serve [OF TrueI] inv] by simp
next
  case (sys_other w t claimed)
  then show ?thesis using publish_inv [OF hand_announced inv] by simp
next
  case (sys_notify xs k ys)
  then show ?thesis using inv by (auto simp: sse_inv_def wake_pending_def)
next
  case (sys_overflow k ks)
  then show ?thesis using inv by (simp add: sse_inv_def wake_pending_def)
next
  case (sys_poll w l app')
  have "sse_inv (publish app' y)" by (rule publish_inv [OF poll_app [OF sys_poll(3)] inv])
  moreover have "claims_ok l" "l_target l = l_target (y_listener y)"
    using poll_claims [OF json _ sys_poll(3)] inv by (auto simp: sse_inv_def)
  moreover have "wake_pending (publish app' y) \<or> caught_up app' l"
    using inv poll_caught_up [OF sys_poll(3)]
    by (auto simp: sse_inv_def wake_pending_def publish_def)
  ultimately show ?thesis using sys_poll(1) by (simp add: sse_inv_def wake_pending_def)
next
  case (sys_recv k ks)
  then show ?thesis using inv signal_inv(1,2) [OF json sys_recv(2), of "Change k"]
    by (auto simp: sse_inv_def wake_pending_def caught_up_def)
next
  case sys_lagged
  then show ?thesis using inv signal_inv(1,2) [OF json sys_lagged(2), of Lagged]
    by (auto simp: sse_inv_def wake_pending_def caught_up_def)
next
  case (sys_signal s)
  then show ?thesis using inv signal_inv [OF json sys_signal(2), of s]
    by (auto simp: sse_inv_def wake_pending_def)
qed

definition json_total :: "frame_json \<Rightarrow> bool" where
  "json_total fj \<longleftrightarrow> (\<forall>f. \<exists>d. fj_frame fj f = Inr d)"

lemma sse_init_inv: "sse_init y \<Longrightarrow> sse_inv y"
  by (auto simp: sse_init_def sse_inv_def claims_ok_def caught_up_def listener_new_def)

interpretation listening: safety sse_init "sse_step fj"
  "\<lambda>y. json_total fj \<longrightarrow> sse_inv y" "\<lambda>y. json_total fj \<and> lost_event y" for fj
proof
  show "sse_init y \<Longrightarrow> json_total fj \<longrightarrow> sse_inv y" for y :: "'a sse_sys" by (simp add: sse_init_inv)
next
  fix y y' :: "'a sse_sys"
  assume "json_total fj \<longrightarrow> sse_inv y" "sse_step fj y y'"
  then show "json_total fj \<longrightarrow> sse_inv y'" by (metis json_total_def sse_inv_step)
next
  fix y :: "'a sse_sys"
  assume "json_total fj \<longrightarrow> sse_inv y"
  then show "\<not> (json_total fj \<and> lost_event y)"
    by (auto simp: sse_inv_def lost_event_def claims_ok_def caught_up_def)
qed

section \<open>A subscription from its start\<close>

fun listener_run :: "'v world \<Rightarrow> frame_json \<Rightarrow> nat \<Rightarrow> listener \<times> 'v app \<Rightarrow> listener \<times> 'v app" where
  "listener_run w fj 0 s = s"
| "listener_run w fj (Suc n) s = listener_run w fj n (listener_poll w fj (snd s) (fst s))"

lemma listener_run_add: "listener_run w fj (m + n) s = listener_run w fj n (listener_run w fj m s)"
  by (induction m arbitrary: s) simp_all

lemma send_stays:
  assumes "json_total fj" "l_left l = None"
  shows "send_then fj f p l = l\<lparr>l_sent := l_sent l @ [f], l_phase := p\<rparr>"
proof -
  obtain d where "fj_frame fj f = Inr d" using assms(1) unfolding json_total_def by blast
  with assms(2) show ?thesis by (simp add: send_then_def send_frame_def)
qed

lemma send_run:
  assumes "json_total fj" "l_left l = None" "l_phase l = L_Send fs"
  shows "listener_run w fj (Suc (length fs)) (l, app) =
    (l\<lparr>l_sent := l_sent l @ map (Events (l_target l)) fs, l_phase := L_Wait\<rparr>, app)"
  using assms(2,3)
proof (induction fs arbitrary: l)
  case Nil
  then show ?case by (simp add: listener_poll_def)
next
  case (Cons f fs)
  have "listener_poll w fj app l =
      (l\<lparr>l_sent := l_sent l @ [Events (l_target l) f], l_phase := L_Send fs\<rparr>, app)"
    using Cons.prems by (simp add: listener_poll_def send_stays [OF assms(1)])
  with Cons.prems Cons.IH [of "l\<lparr>l_sent := l_sent l @ [Events (l_target l) f], l_phase := L_Send fs\<rparr>"]
  show ?case by simp
qed

lemma replay_run:
  fixes t :: target
  assumes "json_total fj" "\<not> a_shutdown app"
  defines "es \<equiv> list_events (core_queue (app_core app)) t"
  shows "listener_run w fj (4 + length (chunk fj es)) (listener_new t None, app) =
    (\<lparr>l_target = t, l_claimed = app_ids app t, l_phase = L_Wait,
      l_sent = Subscribed t # map (Events t) (chunk fj es), l_left = None\<rparr>,
     snd (app_update w (hand_change t {}) app))"
proof -
  let ?l = "listener_new t None"
  let ?l1 = "?l\<lparr>l_sent := [Subscribed t], l_phase := L_Check True\<rparr>"
  let ?l3 = "?l1\<lparr>l_claimed := app_ids app t, l_phase := L_Send (chunk fj es)\<rparr>"
  have "listener_poll w fj app ?l = (?l1, app)"
    using assms(2) send_stays [OF assms(1), of ?l]
    by (simp add: listener_poll_def listener_new_def)
  moreover have "listener_poll w fj app ?l1 = (?l1\<lparr>l_phase := L_Hand True\<rparr>, app)"
    by (simp add: listener_poll_def)
  moreover have "handed app (?l1\<lparr>l_phase := L_Hand True\<rparr>) = es"
    by (simp add: handed_eq listener_new_def es_def)
  then have "listener_poll w fj app (?l1\<lparr>l_phase := L_Hand True\<rparr>) =
      (?l3, snd (app_update w (hand_change t {}) app))"
    by (simp add: listener_poll_hand) (simp add: listener_new_def)
  ultimately have "listener_run w fj 3 (?l, app) = (?l3, snd (app_update w (hand_change t {}) app))"
    by (simp add: eval_nat_numeral)
  moreover have "4 + length (chunk fj es) = 3 + Suc (length (chunk fj es))" by simp
  ultimately have "listener_run w fj (4 + length (chunk fj es)) (?l, app) =
      listener_run w fj (Suc (length (chunk fj es))) (?l3, snd (app_update w (hand_change t {}) app))"
    by (simp only: listener_run_add)
  also have "\<dots> = (?l3\<lparr>l_sent := l_sent ?l3 @ map (Events (l_target ?l3)) (chunk fj es),
      l_phase := L_Wait\<rparr>, snd (app_update w (hand_change t {}) app))"
    by (rule send_run [OF assms(1)]) (simp_all add: listener_new_def)
  finally show ?thesis by (simp add: listener_new_def)
qed

section \<open>The properties of the event stream\<close>

text \<open>
  C3. No event is lost on the way to a listener: in every interleaving of the listener with
  requests, other listeners, acknowledgements, late and dropped notifications, whenever the listener
  waits, every queued event of its target has been sent to its client or a wake-up is on its way.
\<close>

theorem no_event_lost:
  assumes "json_total fj" and "reach sse_init (sse_step fj) y" and "l_phase (y_listener y) = L_Wait"
    and "e \<in> set (list_events (core_queue (app_core (y_app y))) (l_target (y_listener y)))"
  shows "e_id e \<in> sent_ids (y_listener y) \<or> wake_pending y"
proof -
  have "e_id e \<in> app_ids (y_app y) (l_target (y_listener y))"
    using assms(4) by (auto simp flip: ids_of_list)
  moreover have "\<not> lost_event y" using listening.never_bad [OF assms(2)] assms(1) by blast
  ultimately show ?thesis using assms(3) by (auto simp: lost_event_def)
qed

text \<open>
  A new listener gets \<open>subscribed\<close>, then every queued event of its target in queue order, in at
  least one frame, and then waits; the events stay queued and are marked delivered.
\<close>

theorem subscribe_replays:
  assumes "json_total fj" "\<not> a_shutdown app"
    and "es = list_events (core_queue (app_core app)) t"
    and "listener_run w fj (4 + length (chunk fj es)) (listener_new t None, app) = (l, app')"
  shows "l_phase l = L_Wait \<and> l_sent l = Subscribed t # map (Events t) (chunk fj es) \<and>
    concat (chunk fj es) = es \<and> list_events (core_queue (app_core app')) t = es \<and>
    list_all qe_delivered (queue_of (core_queue (app_core app')) t)"
proof -
  have l: "l = \<lparr>l_target = t, l_claimed = app_ids app t, l_phase = L_Wait,
      l_sent = Subscribed t # map (Events t) (chunk fj es), l_left = None\<rparr>"
    and app': "app' = snd (app_update w (hand_change t {}) app)"
    using replay_run [OF assms(1,2), of w t] assms(3,4) by simp_all
  have q: "core_queue (app_core app') = snd (hand_out (core_queue (app_core app)) t {})"
    unfolding app' hand_queue by (simp add: retained_def)
  show ?thesis
    by (simp add: l q list_events_queue_of queue_of_hand_out list_all_iff assms(3))
qed

text \<open>
  C20. Splitting events into frames keeps them all, in order; frames are never empty unless there is
  nothing to send, each is within the budget or holds a single event, and none could have taken the
  first event of the next.
\<close>

theorem chunk_correct:
  "concat (chunk fj es) = es \<and>
   (if es = [] then chunk fj es = [[]] else greedy (event_length fj) (chunk fj es))"
  by (simp add: chunk_greedy)

section \<open>Witnesses\<close>

definition poll_sys :: "'v world \<Rightarrow> frame_json \<Rightarrow> 'v sse_sys \<Rightarrow> 'v sse_sys" where
  "poll_sys w fj y =
     (let (l, app') = listener_poll w fj (y_app y) (y_listener y)
      in (publish app' y)\<lparr>y_listener := l\<rparr>)"

lemma poll_sys_reach:
  assumes "reach sse_init (sse_step fj) y"
  shows "reach sse_init (sse_step fj) (poll_sys w fj y)"
proof (cases "l_phase (y_listener y) = L_Wait")
  case True
  then have "poll_sys w fj y = y" by (simp add: poll_sys_def listener_poll_def)
  with assms show ?thesis by simp
next
  case False
  obtain l app' where p: "listener_poll w fj (y_app y) (y_listener y) = (l, app')" by fastforce
  show ?thesis using reach_step [OF assms sys_poll [OF False p]] by (simp add: poll_sys_def p)
qed

lemma poll_sys_run:
  "(y_listener ((poll_sys w fj ^^ n) y), y_app ((poll_sys w fj ^^ n) y)) =
     listener_run w fj n (y_listener y, y_app y)"
proof (induction n arbitrary: y)
  case (Suc n)
  then show ?case by (simp add: poll_sys_def split_beta del: funpow.simps add: funpow_Suc_right)
qed simp

definition demo_frames :: frame_json where
  "demo_frames = \<lparr>fj_event = (\<lambda>_. Inr ''{}''), fj_frame = (\<lambda>_. Inr ''{}'')\<rparr>"

definition queue_app :: "nat app" where
  "queue_app = demo_app\<lparr>a_state := (a_state demo_app)\<lparr>st_core := (app_core demo_app)\<lparr>core_queue := demo_queue\<rparr>\<rparr>\<rparr>"

definition demo_sys :: "nat sse_sys" where
  "demo_sys = \<lparr>y_app = queue_app, y_flight = [], y_chan = [], y_lagged = False,
     y_listener = listener_new demo_session None\<rparr>"

lemma queue_app_simps [simp]:
  "core_queue (app_core queue_app) = demo_queue" "\<not> a_shutdown queue_app"
  by (simp_all add: queue_app_def demo_app_def)

lemma demo_frames_total: "json_total demo_frames"
  by (simp add: json_total_def demo_frames_def)

lemma demo_events: "list_events demo_queue demo_session = [demo_event]"
  by (simp add: list_events_queue_of demo_queue_of)

lemma demo_chunk: "chunk demo_frames [demo_event] = [[demo_event]]"
  by (simp add: chunk_def)

theorem subscribe_replays_witness:
  "\<exists>l app'. listener_run demo_world demo_frames 5 (listener_new demo_session None, queue_app) = (l, app') \<and>
     l_sent l = [Subscribed demo_session, Events demo_session [demo_event]]"
proof -
  obtain l app' where run:
    "listener_run demo_world demo_frames 5 (listener_new demo_session None, queue_app) = (l, app')"
    by fastforce
  have "l_sent l = [Subscribed demo_session, Events demo_session [demo_event]]"
    using subscribe_replays [OF demo_frames_total, of queue_app "[demo_event]" demo_session demo_world l app']
      run
    by (simp add: demo_events demo_chunk)
  with run show ?thesis by blast
qed

theorem no_event_lost_witness:
  "\<exists>y. reach sse_init (sse_step demo_frames) (y :: nat sse_sys) \<and>
     l_phase (y_listener y) = L_Wait \<and>
     (e_id demo_event \<in> sent_ids (y_listener y) \<or> wake_pending y)"
proof -
  let ?y = "(poll_sys demo_world demo_frames ^^ 5) demo_sys"
  have "sse_init demo_sys"
    unfolding sse_init_def demo_sys_def by (auto simp: demo_queue_inv)
  then have r: "reach sse_init (sse_step demo_frames) ((poll_sys demo_world demo_frames ^^ n) demo_sys)" for n
    by (induction n) (simp_all add: reach_init poll_sys_reach)
  have run: "(y_listener ?y, y_app ?y) = listener_run demo_world demo_frames 5
      (listener_new demo_session None, queue_app)"
    using poll_sys_run [where w = demo_world and fj = demo_frames and n = 5 and y = demo_sys] by (simp add: demo_sys_def)
  then have wait: "l_phase (y_listener ?y) = L_Wait" and "l_target (y_listener ?y) = demo_session"
    and "core_queue (app_core (y_app ?y)) = snd (hand_out demo_queue demo_session {})"
    using replay_run [OF demo_frames_total, where app = queue_app and w = demo_world and t = demo_session]
      hand_queue [of demo_world demo_session "{}" queue_app]
    by (simp_all add: demo_events demo_chunk retained_def del: app_update_simps)
  then have "e_id demo_event \<in> sent_ids (y_listener ?y) \<or> wake_pending ?y"
    using wait no_event_lost [OF demo_frames_total r [of 5], of demo_event]
    by (simp add: list_events_queue_of queue_of_hand_out demo_queue_of)
  with wait show ?thesis using r [of 5] by blast
qed

end
