(* ===== verification/Progress.thy ===== *)
theory Progress
  imports Prelude
begin

text \<open>
  Bounds on progress: tasks that take turns with everything else. Steps are named by labels; some of
  them help a task, the others may come in between in any number.
\<close>

text \<open>The number of helpful labels of a run, each judged in the state it is taken in.\<close>

fun helped :: "('l \<Rightarrow> 's \<Rightarrow> 's) \<Rightarrow> ('l \<Rightarrow> 's \<Rightarrow> bool) \<Rightarrow> 'l list \<Rightarrow> 's \<Rightarrow> nat" where
  "helped act helps [] s = 0"
| "helped act helps (l # ls) s = (if helps l s then 1 else 0) + helped act helps ls (act l s)"

lemma helped_filter: "helped act (\<lambda>l _. p l) ls s = length (filter p ls)"
  by (induction ls arbitrary: s) simp_all

text \<open>
  The contract of a task that gets on: no label that is allowed raises its rank, and a helpful one
  lowers it. Then it is through after as many helpful labels as its rank.
\<close>

locale progress =
  fixes act :: "'l \<Rightarrow> 's \<Rightarrow> 's"
    and allowed :: "'l \<Rightarrow> bool"
    and helps :: "'l \<Rightarrow> 's \<Rightarrow> bool"
    and inv :: "'s \<Rightarrow> bool"
    and rank :: "'s \<Rightarrow> nat"
  assumes act_inv: "inv s \<Longrightarrow> allowed l \<Longrightarrow> inv (act l s)"
    and act_rank: "inv s \<Longrightarrow> allowed l \<Longrightarrow> rank (act l s) \<le> rank s"
    and act_helps: "inv s \<Longrightarrow> allowed l \<Longrightarrow> helps l s \<Longrightarrow> 0 < rank s \<Longrightarrow> rank (act l s) < rank s"
begin

lemma run_inv: "inv s \<Longrightarrow> list_all allowed ls \<Longrightarrow> inv (fold act ls s)"
  by (induction ls arbitrary: s) (auto intro: act_inv)

lemma run_rank: "inv s \<Longrightarrow> list_all allowed ls \<Longrightarrow> rank (fold act ls s) \<le> rank s - helped act helps ls s"
proof (induction ls arbitrary: s)
  case (Cons l ls)
  then have "rank (fold act ls (act l s)) \<le> rank (act l s) - helped act helps ls (act l s)"
    using act_inv by simp
  moreover have "rank (act l s) \<le> rank s - (if helps l s then 1 else 0)"
    using Cons.prems act_rank [of s l] act_helps [of s l] by (cases "rank s = 0") auto
  ultimately show ?case by simp
qed simp

lemma gets_through:
  "inv s \<Longrightarrow> list_all allowed ls \<Longrightarrow> rank s \<le> helped act helps ls s \<Longrightarrow> rank (fold act ls s) = 0"
  using run_rank [of s ls] by simp

end

text \<open>
  Without a bound on what comes in between, progress is a matter of fairness: the rank is a pair, no
  label raises it before the goal is reached, and helpful ones come up again and again.
\<close>

abbreviation lower :: "((nat \<times> nat) \<times> (nat \<times> nat)) set" where
  "lower \<equiv> less_than <*lex*> less_than"

lemma lower_wf: "wf lower"
  by (simp add: wf_lex_prod)

lemma lower_trans: "trans lower"
  by (simp add: trans_lex_prod)

locale fair_progress =
  fixes act :: "'l \<Rightarrow> 's \<Rightarrow> 's"
    and helps :: "'l \<Rightarrow> 's \<Rightarrow> bool"
    and inv :: "'s \<Rightarrow> bool"
    and goal :: "'s \<Rightarrow> bool"
    and rank :: "'s \<Rightarrow> nat \<times> nat"
  assumes act_inv: "inv s \<Longrightarrow> inv (act l s)"
    and act_rank: "inv s \<Longrightarrow> \<not> goal s \<Longrightarrow> goal (act l s) \<or> rank (act l s) = rank s \<or> (rank (act l s), rank s) \<in> lower"
    and act_helps: "inv s \<Longrightarrow> \<not> goal s \<Longrightarrow> helps l s \<Longrightarrow> goal (act l s) \<or> (rank (act l s), rank s) \<in> lower"
begin

lemma fair_inv: "(\<And>n. s (Suc n) = act (ls n) (s n)) \<Longrightarrow> inv (s 0) \<Longrightarrow> inv (s n)"
  by (induction n) (simp_all add: act_inv)

lemma fair_rank:
  assumes run: "\<And>n. s (Suc n) = act (ls n) (s n)" "inv (s 0)" and no_goal: "\<And>n. \<not> goal (s n)"
  shows "n \<le> m \<Longrightarrow> rank (s m) = rank (s n) \<or> (rank (s m), rank (s n)) \<in> lower"
proof (induction m)
  case (Suc m)
  show ?case
  proof (cases "n = Suc m")
    case False
    then have "rank (s m) = rank (s n) \<or> (rank (s m), rank (s n)) \<in> lower" using Suc by simp
    moreover have "rank (s (Suc m)) = rank (s m) \<or> (rank (s (Suc m)), rank (s m)) \<in> lower"
      using act_rank [OF fair_inv [OF run, of m] no_goal, of "ls m"] no_goal [of "Suc m"] by (simp add: run(1))
    ultimately show ?thesis using lower_trans unfolding trans_def by metis
  qed simp
qed simp

text \<open>It is enough that a helpful label comes up as long as the rank stays as it is.\<close>

lemma reaches_goal_or_stays:
  assumes run: "\<And>n. s (Suc n) = act (ls n) (s n)" "inv (s 0)"
    and fair: "\<And>n. (\<And>k. \<not> goal (s k)) \<Longrightarrow> \<exists>m \<ge> n. rank (s m) \<noteq> rank (s n) \<or> helps (ls m) (s m)"
  shows "\<exists>n. goal (s n)"
proof (rule ccontr)
  assume "\<nexists>n. goal (s n)"
  then have no_goal: "\<not> goal (s n)" for n by blast
  have "rank (s n) \<noteq> r" for n r
  proof (induction r arbitrary: n rule: wf_induct_rule [OF lower_wf])
    case (1 r)
    show ?case
    proof
      assume r: "rank (s n) = r"
      obtain m where m: "n \<le> m" "rank (s m) \<noteq> rank (s n) \<or> helps (ls m) (s m)" using fair [OF no_goal] by blast
      have falls: "rank (s m) = rank (s n) \<or> (rank (s m), rank (s n)) \<in> lower"
        by (rule fair_rank [OF run no_goal m(1)])
      have "(rank (s (Suc m)), rank (s m)) \<in> lower" if "helps (ls m) (s m)"
        using act_helps [OF fair_inv [OF run, of m] no_goal that] no_goal [of "Suc m"] by (simp add: run(1))
      then have "\<exists>k. (rank (s k), r) \<in> lower" using m(2) falls r by metis
      with 1 show False by blast
    qed
  qed
  then show False by blast
qed

lemma reaches_goal:
  assumes "\<And>n. s (Suc n) = act (ls n) (s n)" "inv (s 0)"
    and "\<And>n. (\<And>k. \<not> goal (s k)) \<Longrightarrow> \<exists>m \<ge> n. helps (ls m) (s m)"
  shows "\<exists>n. goal (s n)"
  by (rule reaches_goal_or_stays [OF assms(1,2)]) (use assms(3) in blast)

end

end
