(* ===== verification/Sse_Progress.thy ===== *)
theory Sse_Progress
  imports Sse_Props Progress
begin

text \<open>
  A queued event reaches the client: in every fair run of the daemon with a listener, however requests,
  other listeners and late notifications come in between.
\<close>

section \<open>Runs\<close>

text \<open>The steps of the system by their labels; a turn of the listener is the poll or the receive it can do.\<close>

datatype 'v sse_label =
  S_Serve "'v asked"
  | S_Other "'v world" target "string set"
  | S_Notify nat
  | S_Overflow
  | S_Turn "'v world"
  | S_Signal signal

definition receive :: "frame_json \<Rightarrow> 'v sse_sys \<Rightarrow> 'v sse_sys" where
  "receive fj y =
     (if y_lagged y then y\<lparr>y_lagged := False, y_listener := on_signal fj Lagged (y_listener y)\<rparr>
      else case y_chan y of
             [] \<Rightarrow> y
           | k # ks \<Rightarrow> y\<lparr>y_chan := ks, y_listener := on_signal fj (Change k) (y_listener y)\<rparr>)"

fun sse_act :: "frame_json \<Rightarrow> 'v sse_label \<Rightarrow> 'v sse_sys \<Rightarrow> 'v sse_sys" where
  "sse_act fj (S_Serve a) y = publish (serve a (y_app y)) y"
| "sse_act fj (S_Other w t claimed) y = publish (snd (app_update w (hand_change t claimed) (y_app y))) y"
| "sse_act fj (S_Notify i) y =
     (if i < length (y_flight y)
      then y\<lparr>y_flight := remove_at i (y_flight y), y_chan := y_chan y @ [y_flight y ! i]\<rparr> else y)"
| "sse_act fj S_Overflow y =
     (case y_chan y of [] \<Rightarrow> y | k # ks \<Rightarrow> y\<lparr>y_chan := ks, y_lagged := True\<rparr>)"
| "sse_act fj (S_Turn w) y =
     (if l_phase (y_listener y) = L_Wait then receive fj y else poll_sys w fj y)"
| "sse_act fj (S_Signal s) y =
     (if l_phase (y_listener y) = L_Wait \<and> outside_signal s
      then y\<lparr>y_listener := on_signal fj s (y_listener y)\<rparr> else y)"

lemma remove_at_split: "i < length xs \<Longrightarrow> xs = take i xs @ xs ! i # drop (Suc i) xs"
  by (rule id_take_nth_drop)

lemma receive_step:
  assumes "l_phase (y_listener y) = L_Wait"
  shows "receive fj y = y \<or> sse_step fj y (receive fj y)"
proof (cases "y_lagged y")
  case True
  then show ?thesis using sys_lagged [OF assms True, of fj] by (simp add: receive_def)
next
  case False
  show ?thesis
  proof (cases "y_chan y")
    case (Cons k ks)
    with False show ?thesis using sys_recv [OF assms False Cons, of fj] by (simp add: receive_def)
  qed (use False in \<open>simp add: receive_def\<close>)
qed

text \<open>The labelled steps are the steps of the relation.\<close>

lemma sse_act_step: "sse_act fj l y = y \<or> sse_step fj y (sse_act fj l y)"
proof (cases l)
  case (S_Notify i)
  then show ?thesis
    using remove_at_split [of i "y_flight y"] sys_notify [of y "take i (y_flight y)" "y_flight y ! i" "drop (Suc i) (y_flight y)"]
    by (auto simp: remove_at_def)
next
  case (S_Turn w)
  show ?thesis
  proof (cases "l_phase (y_listener y) = L_Wait")
    case False
    then show ?thesis using S_Turn sys_poll [OF False] by (simp add: poll_sys_def split_beta)
  qed (use S_Turn receive_step in simp)
qed (auto intro: sse_step.intros split: list.splits simp del: on_signal.simps)

lemma sse_step_act: "sse_step fj y y' \<Longrightarrow> \<exists>l. y' = sse_act fj l y"
proof (induction rule: sse_step.induct)
  case (sys_serve y a)
  then show ?case by (intro exI [of _ "S_Serve a"]) simp
next
  case (sys_other y w t claimed)
  then show ?case by (intro exI [of _ "S_Other w t claimed"]) simp
next
  case (sys_notify y xs k ys)
  then show ?case by (intro exI [of _ "S_Notify (length xs)"]) (simp add: remove_at_def)
next
  case (sys_overflow y k ks)
  then show ?case by (intro exI [of _ S_Overflow]) simp
next
  case (sys_poll y w l app')
  then show ?case by (intro exI [of _ "S_Turn w"]) (simp add: poll_sys_def)
next
  case (sys_recv y k ks)
  then show ?case by (intro exI [of _ "S_Turn undefined"]) (simp add: receive_def)
next
  case (sys_lagged y)
  then show ?case by (intro exI [of _ "S_Turn undefined"]) (simp add: receive_def)
next
  case (sys_signal y s)
  then show ?case by (intro exI [of _ "S_Signal s"]) simp
qed

lemma sse_act_inv: "json_total fj \<Longrightarrow> sse_inv y \<Longrightarrow> sse_inv (sse_act fj l y)"
  using sse_act_step [of fj l y] sse_inv_step [of fj y "sse_act fj l y"] by (auto simp: json_total_def)

lemma on_signal_target [simp]: "l_target (on_signal fj s l) = l_target l"
  by (cases s) simp_all

lemma poll_target: "l_target (fst (listener_poll w fj app l)) = l_target l"
  by (simp add: listener_poll_def Let_def split_beta split: listener_phase.splits list.splits)

lemma sse_act_target [simp]: "l_target (y_listener (sse_act fj l y)) = l_target (y_listener y)"
  by (cases l) (auto simp: receive_def publish_def poll_sys_def split_beta poll_target
      simp del: on_signal.simps split: list.splits)

section \<open>The way of an event\<close>

text \<open>What there is to wait for: the event is sent, the listener is gone or the event is not queued.\<close>

definition delivered :: "string \<Rightarrow> 'v sse_sys \<Rightarrow> bool" where
  "delivered eid y \<longleftrightarrow> eid \<in> sent_ids (y_listener y) \<or> l_phase (y_listener y) = L_Closed \<or>
     eid \<notin> app_ids (y_app y) (l_target (y_listener y))"

definition own_key :: "'v sse_sys \<Rightarrow> string" where
  "own_key y = target_key (l_target (y_listener y))"

lemma own_key_act [simp]: "own_key (sse_act fj l y) = own_key y"
  by (simp add: own_key_def)

fun phase_rank :: "string \<Rightarrow> listener_phase \<Rightarrow> nat \<times> nat" where
  "phase_rank eid (L_Send fs) = (if eid \<in> e_id ` set (concat fs) then 0 else 6, length fs)"
| "phase_rank eid L_Closed = (0, 0)"
| "phase_rank eid (L_Hand r) = (1, 0)"
| "phase_rank eid (L_Check r) = (2, 0)"
| "phase_rank eid L_Start = (3, 0)"
| "phase_rank eid L_Wait = (5, 0)"

text \<open>While the listener waits, its wake-up may already be in the channel, behind other keys.\<close>

definition way_rank :: "string \<Rightarrow> 'v sse_sys \<Rightarrow> nat \<times> nat" where
  "way_rank eid y =
     (if l_phase (y_listener y) = L_Wait \<and> (y_lagged y \<or> own_key y \<in> set (y_chan y))
      then (4, if y_lagged y then 0 else length (takeWhile (\<lambda>k. k \<noteq> own_key y) (y_chan y)))
      else phase_rank eid (l_phase (y_listener y)))"

definition in_flight :: "'v sse_sys \<Rightarrow> bool" where
  "in_flight y \<longleftrightarrow>
     l_phase (y_listener y) = L_Wait \<and> \<not> y_lagged y \<and> own_key y \<notin> set (y_chan y)"

lemma in_flight_rank: "in_flight y \<longleftrightarrow> fst (way_rank eid y) = 5"
  by (cases "l_phase (y_listener y)") (simp_all add: in_flight_def way_rank_def)

text \<open>A turn of the listener helps, or, while the wake-up is not even in the channel, its sender.\<close>

fun forwards :: "'v sse_label \<Rightarrow> 'v sse_sys \<Rightarrow> bool" where
  "forwards (S_Turn w) y \<longleftrightarrow> \<not> in_flight y"
| "forwards (S_Notify i) y \<longleftrightarrow> in_flight y \<and> i < length (y_flight y) \<and> y_flight y ! i = own_key y"
| "forwards (S_Serve a) y \<longleftrightarrow> False"
| "forwards (S_Other w t claimed) y \<longleftrightarrow> False"
| "forwards S_Overflow y \<longleftrightarrow> False"
| "forwards (S_Signal s) y \<longleftrightarrow> False"

definition gets_on :: "string \<Rightarrow> 'v sse_sys \<Rightarrow> 'v sse_sys \<Rightarrow> bool" where
  "gets_on eid y y' \<longleftrightarrow> delivered eid y' \<or> (way_rank eid y', way_rank eid y) \<in> lower"

text \<open>What is known of an event that is queued and not delivered, phase by phase.\<close>

lemma looks_for:
  assumes "sse_inv y" "\<not> delivered eid y" "will_look (l_phase (y_listener y))"
  shows "eid \<notin> l_claimed (y_listener y)"
proof -
  have "coming_ids (l_phase (y_listener y)) = {}"
    using assms(2,3) by (cases "l_phase (y_listener y)") (simp_all add: delivered_def)
  with assms(1,2) show ?thesis by (auto simp: sse_inv_def claims_ok_def delivered_def)
qed

lemma flight_holds:
  assumes "sse_inv y" "\<not> delivered eid y" "in_flight y"
  shows "own_key y \<in> set (y_flight y)"
proof -
  have "\<not> caught_up (y_app y) (y_listener y)"
    using assms by (auto simp: sse_inv_def claims_ok_def delivered_def caught_up_def in_flight_def)
  then show ?thesis
    using assms(1,3) by (auto simp: sse_inv_def wake_pending_def in_flight_def own_key_def)
qed

lemma way_rank_waiting: "l_phase (y_listener y) = L_Wait \<Longrightarrow> fst (way_rank eid y) < 6"
  by (simp add: way_rank_def)

lemma way_rank_busy:
  "l_phase (y_listener y) \<noteq> L_Wait \<Longrightarrow> way_rank eid y = phase_rank eid (l_phase (y_listener y))"
  by (simp add: way_rank_def)

lemma phase_lowers:
  assumes "(phase_rank eid (l_phase (y_listener y')), way_rank eid y) \<in> lower"
    and "l_phase (y_listener y') \<noteq> L_Wait"
  shows "gets_on eid y y'"
  using assms by (simp add: gets_on_def way_rank_busy)

lemma queued_event:
  assumes "\<not> delivered eid y"
  obtains e where "e \<in> set (list_events (core_queue (app_core (y_app y))) (l_target (y_listener y)))" "e_id e = eid"
proof -
  have "eid \<in> app_ids (y_app y) (l_target (y_listener y))" using assms by (simp add: delivered_def)
  then show ?thesis using that by (auto simp flip: ids_of_list)
qed

text \<open>Frame after frame, an event gets nearer to the front or is sent.\<close>

lemma send_gets_on:
  assumes json: "json_total fj" and new: "\<not> delivered eid y"
    and "l_phase (y_listener y) = L_Send (f # fs)"
  shows "gets_on eid y ((publish app' y)\<lparr>y_listener :=
    send_then fj (Events (l_target (y_listener y)) f) (L_Send fs) (y_listener y)\<rparr>)"
    (is "gets_on eid y ?y'")
proof -
  let ?l = "y_listener y"
  let ?l' = "send_then fj (Events (l_target ?l) f) (L_Send fs) ?l"
  from json have "\<And>f. \<exists>d. fj_frame fj f = Inr d" by (simp add: json_total_def)
  then consider "l_phase ?l' = L_Closed"
    | "l_phase ?l' = L_Send fs" "l_sent ?l' = l_sent ?l @ [Events (l_target ?l) f]"
    using send_then_cases by blast
  then show ?thesis
  proof cases
    case 1
    then show ?thesis by (simp add: gets_on_def delivered_def)
  next
    case 2
    show ?thesis
    proof (cases "eid \<in> e_id ` set f")
      case True
      with 2 show ?thesis by (auto simp: gets_on_def delivered_def sent_ids_def)
    next
      case False
      then have "(phase_rank eid (L_Send fs), phase_rank eid (L_Send (f # fs))) \<in> lower" by auto
      with 2 assms(3) show ?thesis by (intro phase_lowers) (simp_all add: way_rank_busy del: phase_rank.simps)
    qed
  qed
qed

lemma poll_gets_on:
  assumes json: "json_total fj" and inv: "sse_inv y" and new: "\<not> delivered eid y"
    and busy: "l_phase (y_listener y) \<noteq> L_Wait"
  shows "gets_on eid y (poll_sys w fj y)"
proof (cases "l_phase (y_listener y)")
  case L_Start
  from json have "\<And>f. \<exists>d. fj_frame fj f = Inr d" by (simp add: json_total_def)
  then have "l_phase (y_listener (poll_sys w fj y)) \<in> {L_Closed, L_Check True}"
    using send_then_cases [of fj "Subscribed (l_target (y_listener y))" "L_Check True" "y_listener y"] L_Start
    by (auto simp: poll_sys_def listener_poll_def)
  then show ?thesis using L_Start by (intro phase_lowers) (auto simp: way_rank_busy)
next
  case (L_Check r)
  obtain e where "e \<in> set (list_events (core_queue (app_core (y_app y))) (l_target (y_listener y)))"
    "e_id e \<notin> l_claimed (y_listener y)"
    using queued_event [OF new] looks_for [OF inv new] L_Check by (metis will_look.simps(2))
  then have "list_ex (\<lambda>e. e_id e \<notin> l_claimed (y_listener y))
      (list_events (core_queue (app_core (y_app y))) (l_target (y_listener y)))"
    by (auto simp: list_ex_iff)
  with L_Check show ?thesis
    by (intro phase_lowers) (simp_all add: poll_sys_def listener_poll_def way_rank_busy)
next
  case (L_Hand r)
  obtain e where "e \<in> set (list_events (core_queue (app_core (y_app y))) (l_target (y_listener y)))"
    "e_id e = eid" by (rule queued_event [OF new])
  moreover have "eid \<notin> l_claimed (y_listener y)" using looks_for [OF inv new] L_Hand by simp
  ultimately have "e \<in> set (handed (y_app y) (y_listener y))" "e_id e = eid" by (simp_all add: handed_eq)
  then have "eid \<in> e_id ` set (concat (chunk fj (handed (y_app y) (y_listener y))))"
    "handed (y_app y) (y_listener y) \<noteq> []" by (auto simp del: set_concat)
  with L_Hand show ?thesis
    by (intro phase_lowers) (simp_all add: poll_sys_def listener_poll_hand way_rank_busy del: set_concat)
next
  case (L_Send fs)
  show ?thesis
  proof (cases fs)
    case Nil
    with L_Send have "way_rank eid y = (6, 0)" "l_phase (y_listener (poll_sys w fj y)) = L_Wait"
      by (simp_all add: way_rank_busy poll_sys_def listener_poll_def)
    then show ?thesis
      using way_rank_waiting [of "poll_sys w fj y" eid] by (cases "way_rank eid (poll_sys w fj y)") (simp add: gets_on_def)
  next
    case (Cons f rest)
    with L_Send show ?thesis
      using send_gets_on [OF json new, of f rest "y_app y"]
      by (simp add: poll_sys_def listener_poll_def)
  qed
qed (use busy new in \<open>auto simp: delivered_def\<close>)

text \<open>A listener that waits is woken by its own key; every other key brings that one nearer.\<close>

lemma receive_gets_on:
  assumes new: "\<not> delivered eid y"
    and "l_phase (y_listener y) = L_Wait" and "\<not> in_flight y"
  shows "gets_on eid y (receive fj y)"
proof (cases "y_lagged y")
  case True
  with assms(2) show ?thesis by (simp add: receive_def gets_on_def way_rank_def)
next
  case False
  with assms(2,3) obtain k ks where c: "y_chan y = k # ks" "own_key y \<in> set (k # ks)"
    by (cases "y_chan y") (auto simp: in_flight_def)
  show ?thesis
  proof (cases "k = own_key y")
    case True
    with False c assms(2) show ?thesis by (simp add: receive_def gets_on_def way_rank_def own_key_def)
  next
    case neq: False
    with False c assms(2) show ?thesis
      by (auto simp: receive_def gets_on_def way_rank_def own_key_def)
  qed
qed

lemma turn_gets_on:
  assumes "json_total fj" "sse_inv y" "\<not> delivered eid y" "\<not> in_flight y"
  shows "gets_on eid y (sse_act fj (S_Turn w) y)"
  using assms by (cases "l_phase (y_listener y) = L_Wait") (simp_all add: poll_gets_on receive_gets_on)

text \<open>What leaves the listener and its channel alone leaves the event where it is.\<close>

lemma way_rank_cong:
  "y_listener y' = y_listener y \<Longrightarrow> y_chan y' = y_chan y \<Longrightarrow> y_lagged y' = y_lagged y \<Longrightarrow>
     way_rank eid y' = way_rank eid y"
  by (simp add: way_rank_def own_key_def)

lemma in_flight_turn: "in_flight y \<Longrightarrow> way_rank eid (sse_act fj (S_Turn w) y) = way_rank eid y"
  by (auto simp: in_flight_def receive_def way_rank_def own_key_def split: list.splits)

lemma notify_rank:
  assumes "i < length (y_flight y)"
  shows "way_rank eid (sse_act fj (S_Notify i) y) = way_rank eid y \<or>
    (way_rank eid (sse_act fj (S_Notify i) y), way_rank eid y) \<in> lower"
  using assms by (auto simp: way_rank_def own_key_def takeWhile_append)

lemma overflow_rank:
  "way_rank eid (sse_act fj S_Overflow y) = way_rank eid y \<or>
     (way_rank eid (sse_act fj S_Overflow y), way_rank eid y) \<in> lower"
  by (auto simp: way_rank_def own_key_def split: list.splits)

lemma signal_rank:
  assumes "json_total fj"
  shows "delivered eid (sse_act fj (S_Signal s) y) \<or> way_rank eid (sse_act fj (S_Signal s) y) = way_rank eid y"
proof (cases "l_phase (y_listener y) = L_Wait \<and> outside_signal s")
  case True
  from assms have json: "\<And>f. \<exists>d. fj_frame fj f = Inr d" by (simp add: json_total_def)
  have "l_phase (on_signal fj s (y_listener y)) \<in> {L_Wait, L_Closed}"
    using True send_then_cases [OF json, of "Heartbeat _" L_Wait "y_listener y"] by (cases s) auto
  then show ?thesis using True by (auto simp: delivered_def way_rank_def own_key_def simp del: on_signal.simps)
qed auto

lemma act_rank:
  assumes "json_total fj" "sse_inv y" "\<not> delivered eid y"
  shows "delivered eid (sse_act fj l y) \<or> way_rank eid (sse_act fj l y) = way_rank eid y \<or>
    (way_rank eid (sse_act fj l y), way_rank eid y) \<in> lower"
proof (cases l)
  case (S_Turn w)
  show ?thesis
  proof (cases "in_flight y")
    case False
    then show ?thesis using turn_gets_on [OF assms] S_Turn unfolding gets_on_def by blast
  qed (simp only: S_Turn in_flight_turn simp_thms)
next
  case (S_Notify i)
  then show ?thesis
    using notify_rank [of i y eid fj] by (cases "i < length (y_flight y)") (simp_all del: sse_act.simps, simp)
next
  case S_Overflow
  then show ?thesis using overflow_rank by blast
next
  case (S_Signal s)
  then show ?thesis using signal_rank [OF assms(1)] by blast
next
  case (S_Serve a)
  then show ?thesis by (intro disjI2 disjI1 way_rank_cong) simp_all
next
  case (S_Other w t claimed)
  then show ?thesis by (intro disjI2 disjI1 way_rank_cong) simp_all
qed

lemma forwards_gets_on:
  assumes "json_total fj" "sse_inv y" "\<not> delivered eid y" "forwards l y"
  shows "gets_on eid y (sse_act fj l y)"
proof (cases l)
  case (S_Notify i)
  then show ?thesis using assms(4) by (simp add: in_flight_def way_rank_def own_key_def gets_on_def)
next
  case (S_Turn w)
  then show ?thesis using turn_gets_on [OF assms(1-3)] assms(4) by (simp del: sse_act.simps)
qed (use assms(4) in simp_all)

interpretation way: fair_progress "sse_act fj" "forwards" "\<lambda>y. json_total fj \<and> sse_inv y" "delivered eid" "way_rank eid"
  for fj eid
proof
  fix y :: "'v sse_sys" and l
  assume inv: "json_total fj \<and> sse_inv y"
  then show "json_total fj \<and> sse_inv (sse_act fj l y)" by (simp add: sse_act_inv)
  assume new: "\<not> delivered eid y"
  show "delivered eid (sse_act fj l y) \<or> way_rank eid (sse_act fj l y) = way_rank eid y \<or>
      (way_rank eid (sse_act fj l y), way_rank eid y) \<in> lower"
    using inv new by (intro act_rank) simp_all
  assume "forwards l y"
  then show "delivered eid (sse_act fj l y) \<or> (way_rank eid (sse_act fj l y), way_rank eid y) \<in> lower"
    using forwards_gets_on [OF _ _ new] inv unfolding gets_on_def by blast
qed

section \<open>Fair runs\<close>

text \<open>
  A run of the daemon from a state it can reach: the listener is given a turn again and again (so its
  connection goes on taking frames, or is closed), and every key an update sends on reaches the
  listener's receiver. Nothing is assumed of what else runs.
\<close>

definition fair_run :: "frame_json \<Rightarrow> (nat \<Rightarrow> 'v sse_label) \<Rightarrow> (nat \<Rightarrow> 'v sse_sys) \<Rightarrow> bool" where
  "fair_run fj ls y \<longleftrightarrow>
     reach sse_init (sse_step fj) (y 0) \<and> (\<forall>n. y (Suc n) = sse_act fj (ls n) (y n)) \<and>
     (\<forall>n. \<exists>m \<ge> n. \<exists>w. ls m = S_Turn w) \<and>
     (\<forall>n k. k \<in> set (y_flight (y n)) \<longrightarrow>
       (\<exists>m \<ge> n. \<exists>i < length (y_flight (y m)). ls m = S_Notify i \<and> y_flight (y m) ! i = k))"

lemma run_target:
  "(\<And>n. y (Suc n) = sse_act fj (ls n) (y n)) \<Longrightarrow> l_target (y_listener (y n)) = l_target (y_listener (y 0))"
  by (induction n) simp_all

lemma fair_run_reach: "fair_run fj ls y \<Longrightarrow> reach sse_init (sse_step fj) (y n)"
proof (induction n)
  case (Suc n)
  then have "y (Suc n) = sse_act fj (ls n) (y n)" by (simp add: fair_run_def)
  with Suc sse_act_step [of fj "ls n" "y n"] show ?case by (metis reach_step)
qed (simp add: fair_run_def)

lemma fair_run_later:
  assumes "fair_run fj ls y"
  shows "fair_run fj (\<lambda>k. ls (n + k)) (\<lambda>k. y (n + k))"
proof -
  have "\<exists>m \<ge> a. \<exists>w. ls (n + m) = S_Turn w" for a
  proof -
    obtain m w where "n + a \<le> m" "ls m = S_Turn w" using assms unfolding fair_run_def by blast
    then show ?thesis by (intro exI [of _ "m - n"]) simp
  qed
  moreover have "\<exists>m \<ge> a. \<exists>i < length (y_flight (y (n + m))). ls (n + m) = S_Notify i \<and> y_flight (y (n + m)) ! i = k"
    if flight: "k \<in> set (y_flight (y (n + a)))" for a k
  proof -
    obtain m i where "n + a \<le> m" "i < length (y_flight (y m))" "ls m = S_Notify i" "y_flight (y m) ! i = k"
      using assms flight unfolding fair_run_def by blast
    then show ?thesis by (intro exI [of _ "m - n"]) auto
  qed
  ultimately show ?thesis
    using assms fair_run_reach [OF assms, of n] by (simp add: fair_run_def)
qed

text \<open>As long as the event is not delivered, somebody who can help it gets a turn.\<close>

lemma fair_forwards:
  assumes json: "json_total fj" and run: "fair_run fj ls y" and new: "\<And>k. \<not> delivered eid (y k)"
  shows "\<exists>m \<ge> n. forwards (ls m) (y m)"
proof -
  have act: "\<And>n. y (Suc n) = sse_act fj (ls n) (y n)" and "reach sse_init (sse_step fj) (y 0)"
    using run by (simp_all add: fair_run_def)
  then have inv0: "json_total fj \<and> sse_inv (y 0)" using listening.reach_inv json by blast
  have inv: "sse_inv (y k)" for k using way.fair_inv [of y fj ls, OF act inv0] by simp
  have falls: "fst (way_rank eid (y b)) \<le> fst (way_rank eid (y a))" if "a \<le> b" for a b
    using way.fair_rank [of y fj ls eid a b, OF act inv0 new that]
    by (cases "way_rank eid (y b)"; cases "way_rank eid (y a)") auto
  have turn: "\<exists>m \<ge> n. \<exists>w. ls m = S_Turn w" for n using run unfolding fair_run_def by blast
  obtain m w where m: "n \<le> m" "ls m = S_Turn w" using turn by blast
  show ?thesis
  proof (cases "in_flight (y m)")
    case False
    with m show ?thesis by auto
  next
    case True
    obtain m' i where m': "m \<le> m'" "i < length (y_flight (y m'))" "ls m' = S_Notify i" "y_flight (y m') ! i = own_key (y m)"
      using flight_holds [OF inv new True] run unfolding fair_run_def by blast
    have own: "own_key (y m') = own_key (y m)"
      using run_target [of y fj ls m', OF act] run_target [of y fj ls m, OF act] by (simp add: own_key_def)
    show ?thesis
    proof (cases "in_flight (y m')")
      case in_m': True
      with m m' own show ?thesis by (intro exI [of _ m']) simp
    next
      case False
      then have "fst (way_rank eid (y m')) < 5"
        using falls [OF m'(1)] True in_flight_rank [of "y m" eid] in_flight_rank [of "y m'" eid] by simp
      moreover obtain m'' w' where t: "m' \<le> m''" "ls m'' = S_Turn w'" using turn by blast
      ultimately have "\<not> in_flight (y m'')" using falls [OF t(1)] in_flight_rank [of "y m''" eid] by simp
      with m m' t show ?thesis by (intro exI [of _ m'']) simp
    qed
  qed
qed

text \<open>
  C4. Every queued event reaches its client: in every fair run of the daemon, an event that is queued
  for a listener's target is eventually in a frame sent to the client, unless the client is gone or the
  event has been acknowledged, withdrawn or dropped.
\<close>

theorem event_delivered:
  assumes "json_total fj" and "fair_run fj ls y"
    and "e \<in> set (list_events (core_queue (app_core (y_app (y n)))) (l_target (y_listener (y n))))"
  shows "\<exists>m \<ge> n. e_id e \<in> sent_ids (y_listener (y m)) \<or> l_phase (y_listener (y m)) = L_Closed \<or>
    e_id e \<notin> e_id ` set (list_events (core_queue (app_core (y_app (y m)))) (l_target (y_listener (y m))))"
proof -
  have later: "fair_run fj (\<lambda>k. ls (n + k)) (\<lambda>k. y (n + k))" by (rule fair_run_later [OF assms(2)])
  then have act: "\<And>k. y (n + Suc k) = sse_act fj (ls (n + k)) (y (n + k))"
    and "reach sse_init (sse_step fj) (y (n + 0))" by (simp_all add: fair_run_def)
  then have "sse_inv (y (n + 0))" using listening.reach_inv assms(1) by blast
  then obtain k where "delivered (e_id e) (y (n + k))"
    using way.reaches_goal [of "\<lambda>k. y (n + k)" fj "\<lambda>k. ls (n + k)" "e_id e", OF act]
      fair_forwards [OF assms(1) later] assms(1) by blast
  then show ?thesis unfolding delivered_def ids_of_list by (intro exI [of _ "n + k"]) simp
qed

section \<open>Witness\<close>

text \<open>A daemon without requests, in which a new listener is given every turn.\<close>

definition quiet :: "'v sse_sys \<Rightarrow> bool" where
  "quiet y \<longleftrightarrow> y_flight y = [] \<and> y_chan y = [] \<and> \<not> y_lagged y \<and> core_notify (app_core (y_app y)) = []"

lemma hand_quiet:
  assumes "core_notify (app_core app) = []"
  shows "core_notify (app_core (snd (app_update w (hand_change t claimed) app))) = []"
    and "st_changes (a_state (snd (app_update w (hand_change t claimed) app))) = st_changes (a_state app)"
  using assms update_changes [of "w_codec w" "unat (w_pid w)" "w_io w" "hand_change t claimed" "a_state app"]
  by (simp_all add: app_update_def split_beta hand_change_def map_prod_def update_core)

lemma poll_quiet:
  assumes "core_notify (app_core app) = []" "listener_poll w fj app l = (l', app')"
  shows "core_notify (app_core app') = []" "st_changes (a_state app') = st_changes (a_state app)"
  using assms hand_quiet [OF assms(1)]
  by (auto simp: listener_poll_def Let_def split_beta simp del: app_update_simps split: listener_phase.splits list.splits)

lemma turn_quiet: "quiet y \<Longrightarrow> quiet (sse_act fj (S_Turn w) y)"
proof -
  assume q: "quiet y"
  obtain l app' where p: "listener_poll w fj (y_app y) (y_listener y) = (l, app')" by fastforce
  have "core_notify (app_core app') = []" "st_changes (a_state app') = st_changes (a_state (y_app y))"
    using q poll_quiet [OF _ p] by (simp_all add: quiet_def)
  with q show ?thesis by (simp add: quiet_def receive_def poll_sys_def p publish_def)
qed

definition demo_turns :: "nat \<Rightarrow> nat sse_sys" where
  "demo_turns n = (sse_act demo_frames (S_Turn demo_world) ^^ n) demo_sys"

lemma demo_turns_fair: "fair_run demo_frames (\<lambda>_. S_Turn demo_world) demo_turns"
proof -
  have "sse_init demo_sys" unfolding sse_init_def demo_sys_def by (auto simp: demo_queue_inv)
  moreover have "quiet demo_sys"
    by (simp add: quiet_def demo_sys_def queue_app_def demo_app_def core_default_def)
  then have "quiet (demo_turns n)" for n
    unfolding demo_turns_def by (induction n) (simp_all add: turn_quiet del: sse_act.simps)
  then have "y_flight (demo_turns n) = []" for n by (simp add: quiet_def)
  moreover have "demo_turns 0 = demo_sys" "\<And>n. demo_turns (Suc n) = sse_act demo_frames (S_Turn demo_world) (demo_turns n)"
    by (simp_all add: demo_turns_def del: sse_act.simps)
  ultimately show ?thesis
    unfolding fair_run_def by (simp add: reach_init del: sse_act.simps) blast
qed

theorem event_delivered_witness:
  "\<exists>m. e_id demo_event \<in> sent_ids (y_listener (demo_turns m)) \<or> l_phase (y_listener (demo_turns m)) = L_Closed \<or>
     e_id demo_event \<notin> e_id ` set (list_events (core_queue (app_core (y_app (demo_turns m))))
       (l_target (y_listener (demo_turns m))))"
proof -
  have "demo_event \<in> set (list_events (core_queue (app_core (y_app (demo_turns 0)))) (l_target (y_listener (demo_turns 0))))"
    by (simp add: demo_turns_def demo_sys_def listener_new_def demo_events)
  from event_delivered [OF demo_frames_total demo_turns_fair this] show ?thesis by blast
qed

end
