(* ===== verification/Sse_Once.thy ===== *)
theory Sse_Once
  imports Sse_Progress
begin

text \<open>
  At most once: a subscription is sent no event twice as long as no id that has left the queue comes
  back to it. With \<open>event_delivered\<close>, every event is sent exactly once in a fair run.
\<close>

section \<open>What has been sent, in order\<close>

fun frame_list :: "sse_frame \<Rightarrow> string list" where
  "frame_list (Subscribed t) = []"
| "frame_list (Events t es) = map e_id es"
| "frame_list (Heartbeat at) = []"

definition sent_list :: "listener \<Rightarrow> string list" where
  "sent_list l = concat (map frame_list (l_sent l))"

fun coming_list :: "listener_phase \<Rightarrow> string list" where
  "coming_list (L_Send fs) = map e_id (concat fs)"
| "coming_list L_Start = []"
| "coming_list (L_Check r) = []"
| "coming_list (L_Hand r) = []"
| "coming_list L_Wait = []"
| "coming_list L_Closed = []"

text \<open>The ids on their way through a listener: sent, then still to be sent.\<close>

definition way_list :: "listener \<Rightarrow> string list" where
  "way_list l = sent_list l @ coming_list (l_phase l)"

lemma sent_list_ids: "set (sent_list l) = sent_ids l"
proof -
  have "set (frame_list f) = frame_ids f" for f by (cases f) auto
  then show ?thesis by (simp add: sent_list_def sent_ids_def)
qed

lemma send_then_way:
  "way_list (send_then fj f p l) = sent_list l @ coming_list p \<or>
   way_list (send_then fj f p l) = sent_list l @ frame_list f @ coming_list p \<or>
   way_list (send_then fj f p l) = sent_list l"
  by (auto simp: send_then_def send_frame_def way_list_def sent_list_def split: sum.splits)

section \<open>One step\<close>

text \<open>A step leaves the ids on their way alone, lets some go, or hands out ids it had not claimed.\<close>

definition hands_out :: "'v sse_sys \<Rightarrow> 'v sse_sys \<Rightarrow> bool" where
  "hands_out y y' \<longleftrightarrow>
     (let l = y_listener y; queued = app_ids (y_app y) (l_target l)
      in \<exists>new. distinct new \<and> set new = queued - l_claimed l \<and>
           l_claimed (y_listener y') = queued \<and> way_list (y_listener y') = way_list l @ new)"

definition lets_go :: "'v sse_sys \<Rightarrow> 'v sse_sys \<Rightarrow> bool" where
  "lets_go y y' \<longleftrightarrow>
     l_claimed (y_listener y') = l_claimed (y_listener y) \<and>
     (\<exists>before gone after. way_list (y_listener y) = before @ gone @ after \<and>
        way_list (y_listener y') = before @ after)"

lemma lets_go_same:
  "l_claimed (y_listener y') = l_claimed (y_listener y) \<Longrightarrow> way_list (y_listener y') = way_list (y_listener y) \<Longrightarrow>
     lets_go y y'"
  unfolding lets_go_def by (metis append.assoc append_Nil2)

lemma lets_go_cut:
  assumes "l_claimed (y_listener y') = l_claimed (y_listener y)"
    and "way_list (y_listener y) = before @ gone @ after" "way_list (y_listener y') = before @ after"
  shows "lets_go y y'"
  using assms unfolding lets_go_def by blast

lemma idle_way: "coming_list (l_phase l) = [] \<Longrightarrow> way_list l = sent_list l"
  by (simp add: way_list_def)

lemma handed_ids:
  assumes "queue_inv (core_queue (app_core app))"
  shows "distinct (map e_id (handed app l))"
    and "e_id ` set (handed app l) = app_ids app (l_target l) - l_claimed l"
proof -
  have "queue_ok (l_target l) (queue_of (core_queue (app_core app)) (l_target l))"
    using assms by (rule queue_inv_queue_of)
  then have "distinct (map e_id (list_events (core_queue (app_core app)) (l_target l)))"
    by (simp add: queue_ok_def list_events_queue_of o_def)
  then show "distinct (map e_id (handed app l))"
    unfolding handed_eq by (rule distinct_map_filter)
  show "e_id ` set (handed app l) = app_ids app (l_target l) - l_claimed l"
    unfolding handed_eq by (auto simp flip: ids_of_list)
qed

lemma poll_way:
  assumes inv: "queue_inv (core_queue (app_core (y_app y)))"
  shows "hands_out y (poll_sys w fj y) \<or> lets_go y (poll_sys w fj y)"
proof (cases "l_phase (y_listener y)")
  case L_Start
  then show ?thesis
    using send_then_way [of fj "Subscribed (l_target (y_listener y))" "L_Check True" "y_listener y"]
    by (intro disjI2 lets_go_same) (auto simp: poll_sys_def listener_poll_def way_list_def sent_list_def)
next
  case (L_Check r)
  then show ?thesis
    by (intro disjI2 lets_go_same) (auto simp: poll_sys_def listener_poll_def way_list_def sent_list_def Let_def)
next
  case (L_Hand r)
  let ?es = "handed (y_app y) (y_listener y)"
  have "way_list (y_listener (poll_sys w fj y)) = way_list (y_listener y) @ map e_id ?es"
    using L_Hand by (simp add: poll_sys_def listener_poll_hand way_list_def sent_list_def)
  moreover have "l_claimed (y_listener (poll_sys w fj y)) = app_ids (y_app y) (l_target (y_listener y))"
    using L_Hand by (simp add: poll_sys_def listener_poll_hand)
  ultimately show ?thesis
    using handed_ids [OF inv] unfolding hands_out_def Let_def by (intro disjI1 exI [of _ "map e_id ?es"]) simp
next
  case (L_Send fs)
  show ?thesis
  proof (cases fs)
    case Nil
    with L_Send show ?thesis
      by (intro disjI2 lets_go_same) (simp_all add: poll_sys_def listener_poll_def way_list_def sent_list_def)
  next
    case (Cons f rest)
    let ?l = "y_listener y"
    have "y_listener (poll_sys w fj y) = send_then fj (Events (l_target ?l) f) (L_Send rest) ?l"
      using L_Send Cons by (simp add: poll_sys_def listener_poll_def)
    moreover have "way_list ?l = sent_list ?l @ map e_id f @ map e_id (concat rest)"
      using L_Send Cons by (simp add: way_list_def)
    ultimately show ?thesis
      using send_then_way [of fj "Events (l_target ?l) f" "L_Send rest" ?l]
      by (intro disjI2) (fastforce intro: lets_go_cut [where before = "sent_list ?l" and gone = "[]" and after = "map e_id f @ map e_id (concat rest)"]
          lets_go_cut [where before = "sent_list ?l" and after = "[]"] lets_go_cut [where before = "sent_list ?l" and gone = "map e_id f"])
  qed
qed (auto intro: lets_go_same simp: poll_sys_def listener_poll_def)

lemma wait_signal_way:
  assumes "l_phase l = L_Wait"
  shows "way_list (on_signal fj s l) = way_list l \<and> l_claimed (on_signal fj s l) = l_claimed l"
proof (cases s)
  case (Heartbeat_Tick at)
  with assms send_then_way [of fj "Heartbeat at" L_Wait l] show ?thesis by (auto simp: idle_way)
qed (use assms in \<open>auto simp: way_list_def sent_list_def\<close>)

lemma act_way:
  assumes "sse_inv y"
  shows "hands_out y (sse_act fj l y) \<or> lets_go y (sse_act fj l y)"
proof (cases "\<exists>w. l = S_Turn w \<and> l_phase (y_listener y) \<noteq> L_Wait")
  case True
  then obtain w where "sse_act fj l y = poll_sys w fj y" by auto
  with poll_way [of y w fj] assms show ?thesis by (simp add: sse_inv_def)
next
  case False
  then have "way_list (y_listener (sse_act fj l y)) = way_list (y_listener y) \<and>
      l_claimed (y_listener (sse_act fj l y)) = l_claimed (y_listener y)"
    using wait_signal_way [of "y_listener y" fj]
    by (cases l) (auto simp: receive_def simp del: on_signal.simps split: list.splits)
  then show ?thesis by (simp add: lets_go_same)
qed

section \<open>Runs\<close>

definition queued_ids :: "'v sse_sys \<Rightarrow> string set" where
  "queued_ids y = app_ids (y_app y) (l_target (y_listener y))"

text \<open>No id that has left the queue of the listener's target comes back to it.\<close>

definition never_requeued :: "(nat \<Rightarrow> 'v sse_sys) \<Rightarrow> bool" where
  "never_requeued y \<longleftrightarrow>
     (\<forall>i j k eid. i \<le> j \<and> j \<le> k \<and> eid \<in> queued_ids (y i) \<and> eid \<notin> queued_ids (y j) \<longrightarrow> eid \<notin> queued_ids (y k))"

definition was_queued :: "(nat \<Rightarrow> 'v sse_sys) \<Rightarrow> nat \<Rightarrow> string set" where
  "was_queued y n = (\<Union>k \<le> n. queued_ids (y k))"

definition has_left :: "(nat \<Rightarrow> 'v sse_sys) \<Rightarrow> nat \<Rightarrow> string set" where
  "has_left y n = {eid. \<exists>i j. i \<le> j \<and> j \<le> n \<and> eid \<in> queued_ids (y i) \<and> eid \<notin> queued_ids (y j)}"

lemma history_mono:
  "was_queued y n \<subseteq> was_queued y (Suc n)" "has_left y n \<subseteq> has_left y (Suc n)"
  "queued_ids (y n) \<subseteq> was_queued y n"
  unfolding was_queued_def has_left_def by (blast intro: le_SucI)+

lemma was_queued_now: "eid \<in> was_queued y n \<Longrightarrow> eid \<in> queued_ids (y n) \<or> eid \<in> has_left y n"
  by (auto simp: was_queued_def has_left_def)

lemma left_for_good: "never_requeued y \<Longrightarrow> eid \<in> has_left y n \<Longrightarrow> eid \<notin> queued_ids (y n)"
  unfolding never_requeued_def has_left_def by blast

definition once_inv :: "(nat \<Rightarrow> 'v sse_sys) \<Rightarrow> nat \<Rightarrow> bool" where
  "once_inv y n \<longleftrightarrow>
     distinct (way_list (y_listener (y n))) \<and>
     set (way_list (y_listener (y n))) \<subseteq> l_claimed (y_listener (y n)) \<union> has_left y n \<and>
     l_claimed (y_listener (y n)) \<subseteq> was_queued y n"

lemma once_inv_hands_out:
  assumes once: "never_requeued y" and inv: "once_inv y n" and step: "hands_out (y n) (y (Suc n))"
  shows "once_inv y (Suc n)"
proof -
  obtain new where new: "distinct new" "set new = queued_ids (y n) - l_claimed (y_listener (y n))"
      "l_claimed (y_listener (y (Suc n))) = queued_ids (y n)"
      "way_list (y_listener (y (Suc n))) = way_list (y_listener (y n)) @ new"
    using step unfolding hands_out_def Let_def queued_ids_def by blast
  have "set (way_list (y_listener (y n))) \<inter> set new = {}"
    using inv left_for_good [OF once] unfolding once_inv_def new(2) by blast
  moreover have "set (way_list (y_listener (y n))) \<subseteq> queued_ids (y n) \<union> has_left y n"
    using inv was_queued_now [of _ y n] unfolding once_inv_def by blast
  ultimately show ?thesis
    using inv new history_mono [of y n] unfolding once_inv_def by auto
qed

lemma once_inv_lets_go:
  assumes inv: "once_inv y n" and step: "lets_go (y n) (y (Suc n))"
  shows "once_inv y (Suc n)"
proof -
  obtain before gone after where "way_list (y_listener (y n)) = before @ gone @ after"
      "way_list (y_listener (y (Suc n))) = before @ after"
      "l_claimed (y_listener (y (Suc n))) = l_claimed (y_listener (y n))"
    using step unfolding lets_go_def by blast
  then show ?thesis
    using inv history_mono [of y n] unfolding once_inv_def by auto
qed

lemma once_inv_run:
  assumes "json_total fj" "never_requeued y" "sse_init (y 0)" "\<And>k. y (Suc k) = sse_act fj (ls k) (y k)"
  shows "once_inv y n"
proof (induction n)
  case 0
  then show ?case
    using assms(3) by (auto simp: sse_init_def once_inv_def listener_new_def way_list_def sent_list_def)
next
  case (Suc n)
  have "json_total fj \<and> sse_inv (y n)"
    using way.fair_inv [of y fj ls, OF assms(4)] assms(1) sse_init_inv [OF assms(3)] by simp
  then have "hands_out (y n) (y (Suc n)) \<or> lets_go (y n) (y (Suc n))"
    using act_way [of "y n" fj "ls n"] by (simp add: assms(4))
  then show ?case using once_inv_hands_out [OF assms(2) Suc] once_inv_lets_go [OF Suc] by blast
qed

section \<open>The property\<close>

text \<open>
  C5. No event is sent twice on a subscription, in any run of the daemon, as long as no id that has
  left the queue of the target is queued there again: however hand-outs, acknowledgements, other
  listeners, lost notifications and failing serialisations interleave, the ids sent are distinct.
\<close>

theorem sent_once:
  assumes "json_total fj" and "sse_init (y 0)" and "\<And>k. y (Suc k) = sse_act fj (ls k) (y k)"
    and "never_requeued y"
  shows "distinct (sent_list (y_listener (y n)))"
  using once_inv_run [OF assms(1,4,2,3), of n] by (simp add: once_inv_def way_list_def)

section \<open>Witness\<close>

lemma demo_turns_queue: "queued_ids (demo_turns n) = {e_id demo_event}"
proof -
  have poll: "queued_ids (poll_sys w fj y) = queued_ids y" for w fj and y :: "nat sse_sys"
    by (simp add: queued_ids_def poll_sys_def split_beta poll_target)
      (metis poll_ids prod.collapse)
  have "queued_ids (receive fj y) = queued_ids y" for fj and y :: "nat sse_sys"
    by (auto simp: queued_ids_def receive_def simp del: on_signal.simps split: list.splits)
  then have "queued_ids (sse_act fj (S_Turn w) y) = queued_ids y" for w fj and y :: "nat sse_sys"
    by (simp add: poll)
  then have "queued_ids (demo_turns n) = queued_ids demo_sys"
    unfolding demo_turns_def by (induction n) (simp_all del: sse_act.simps)
  then show ?thesis
    by (simp add: queued_ids_def demo_sys_def listener_new_def demo_events flip: ids_of_list)
qed

theorem sent_once_witness: "distinct (sent_list (y_listener (demo_turns 5)))"
proof -
  have "sse_init demo_sys" unfolding sse_init_def demo_sys_def by (auto simp: demo_queue_inv)
  then show ?thesis
    using sent_once [OF demo_frames_total, of demo_turns "\<lambda>_. S_Turn demo_world"] demo_turns_queue
    by (simp add: demo_turns_def never_requeued_def del: sse_act.simps)
qed

end
