(* ===== verification/Lock.thy ===== *)
theory Lock
  imports Options
begin

text \<open>
  \<open>crates/daemon/src/lock.rs\<close>: the pid file that keeps a second daemon out of a state directory.
  Every system call of \<open>acquire\<close> and \<open>drop\<close> is one step of a process, so contenders interleave
  between any two of them. Paths lead to inodes, because an open file stays the same file when its
  path is renamed.
\<close>

section \<open>The file system and the processes\<close>

datatype lock_stage =
  A_Idle
  | A_Create nat
  | A_Write nat nat
  | A_Read nat
  | A_Check nat "nat option"
  | A_Rename nat
  | A_Remove nat
  | A_Held
  | A_Drop
  | A_Unlink
  | A_Released
  | A_Failed string

record lock_sys =
  k_dir :: "string \<Rightarrow> nat option"
  k_inode :: "nat \<Rightarrow> string"
  k_next :: nat
  k_live :: "nat \<Rightarrow> bool"
  k_stage :: "nat \<Rightarrow> lock_stage"

definition ATTEMPTS :: nat where "ATTEMPTS = 5"

definition lock_path :: "string \<Rightarrow> string" where
  "lock_path dir = path_join dir ''daemon.lock''"

text \<open>\<open>path.with_extension\<close>: the extension \<open>lock\<close> gives way to \<open>lock.<pid>.stale\<close>.\<close>

definition stale_path :: "string \<Rightarrow> nat \<Rightarrow> string" where
  "stale_path dir pid = path_join dir (''daemon.'' @ ''lock.'' @ dec pid @ ''.stale'')"

definition pid_line :: "nat \<Rightarrow> string" where
  "pid_line pid = dec pid @ [newline]"

definition file_text :: "lock_sys \<Rightarrow> string \<Rightarrow> string option" where
  "file_text s path = map_option (k_inode s) (k_dir s path)"

definition parse_pid :: "string \<Rightarrow> nat option" where
  "parse_pid txt =
     (if valid_utf8 txt then
        (case parse_uint u32_max (trim txt) of
           None \<Rightarrow> None | Some pid \<Rightarrow> if 0 < pid then Some pid else None)
      else None)"

text \<open>What a system call reports; a failed write leaves some text behind.\<close>

datatype lock_io = Io_Ok | Io_Error string string

text \<open>A file that cannot be read is one without a pid.\<close>

definition read_pid :: "lock_io \<Rightarrow> lock_sys \<Rightarrow> string \<Rightarrow> nat option" where
  "read_pid io s path =
     (case io of Io_Ok \<Rightarrow> Option.bind (file_text s path) parse_pid | Io_Error _ _ \<Rightarrow> None)"

definition process_alive :: "lock_sys \<Rightarrow> nat \<Rightarrow> bool" where
  "process_alive s pid \<longleftrightarrow> pid < 2 ^ 31 \<and> k_live s pid"

section \<open>The steps of a process\<close>

definition set_stage :: "nat \<Rightarrow> lock_stage \<Rightarrow> lock_sys \<Rightarrow> lock_sys" where
  "set_stage p st s = s\<lparr>k_stage := (k_stage s)(p := st)\<rparr>"

definition holder_name :: "nat option \<Rightarrow> string" where
  "holder_name holder = (case holder of None \<Rightarrow> ''unknown'' | Some pid \<Rightarrow> dec pid)"

definition lock_poll :: "string \<Rightarrow> lock_io \<Rightarrow> nat \<Rightarrow> lock_sys \<Rightarrow> lock_sys" where
  "lock_poll dir io p s =
     (let path = lock_path dir
      in case k_stage s p of
           A_Create n \<Rightarrow>
             if ATTEMPTS \<le> n
             then set_stage p (A_Failed (''could not acquire the recurse state lock at '' @ path)) s
             else (case io of
                     Io_Error error _ \<Rightarrow>
                       set_stage p (A_Failed (''create '' @ path @ '': '' @ error)) s
                   | Io_Ok \<Rightarrow>
                       if k_dir s path \<noteq> None then set_stage p (A_Read n) s
                       else set_stage p (A_Write n (k_next s))
                              (s\<lparr>k_dir := (k_dir s)(path \<mapsto> k_next s),
                                 k_inode := (k_inode s)(k_next s := []),
                                 k_next := Suc (k_next s)\<rparr>))
         | A_Write n i \<Rightarrow>
             (case io of
                Io_Ok \<Rightarrow> set_stage p A_Held (s\<lparr>k_inode := (k_inode s)(i := pid_line p)\<rparr>)
              | Io_Error error partial \<Rightarrow>
                  set_stage p (A_Failed (''create '' @ path @ '': '' @ error))
                    (s\<lparr>k_inode := (k_inode s)(i := partial)\<rparr>))
         | A_Read n \<Rightarrow> set_stage p (A_Check n (read_pid io s path)) s
         | A_Check n holder \<Rightarrow>
             if (case holder of None \<Rightarrow> True | Some pid \<Rightarrow> process_alive s pid)
             then set_stage p (A_Failed (''another recurse daemon (pid '' @ holder_name holder @
                    '') is using '' @ dir @ ''; stop it or set RECURSE_STATE_DIR'')) s
             else set_stage p (A_Rename n) s
         | A_Rename n \<Rightarrow>
             (case (io, k_dir s path) of
                (Io_Ok, Some i) \<Rightarrow>
                  set_stage p (A_Remove n)
                    (s\<lparr>k_dir := (k_dir s)(path := None, stale_path dir p \<mapsto> i)\<rparr>)
              | _ \<Rightarrow> set_stage p (A_Create (Suc n)) s)
         | A_Remove n \<Rightarrow>
             set_stage p (A_Create (Suc n))
               (case io of
                  Io_Ok \<Rightarrow> s\<lparr>k_dir := (k_dir s)(stale_path dir p := None)\<rparr>
                | Io_Error _ _ \<Rightarrow> s)
         | A_Drop \<Rightarrow>
             set_stage p (if read_pid io s path = Some p then A_Unlink else A_Released) s
         | A_Unlink \<Rightarrow>
             set_stage p A_Released
               (case io of
                  Io_Ok \<Rightarrow> s\<lparr>k_dir := (k_dir s)(path := None)\<rparr>
                | Io_Error _ _ \<Rightarrow> s)
         | A_Idle \<Rightarrow> s
         | A_Held \<Rightarrow> s
         | A_Released \<Rightarrow> s
         | A_Failed _ \<Rightarrow> s)"

text \<open>
  What can happen: a process with some pid starts, calls \<open>acquire\<close>, makes its next system call,
  drops the lock, or exits (or crashes) at any point. A pid may be used again.
\<close>

datatype lock_label = Spawned nat | Acquire nat | Poll nat lock_io | Drop_Lock nat | Exits nat

fun lock_step :: "string \<Rightarrow> lock_label \<Rightarrow> lock_sys \<Rightarrow> lock_sys" where
  "lock_step dir (Spawned p) s =
     (if 0 < p \<and> p < 2 ^ 31 then s\<lparr>k_live := (k_live s)(p := True)\<rparr> else s)"
| "lock_step dir (Acquire p) s =
     (if k_live s p \<and> k_stage s p = A_Idle then set_stage p (A_Create 0) s else s)"
| "lock_step dir (Poll p io) s = lock_poll dir io p s"
| "lock_step dir (Drop_Lock p) s = (if k_stage s p = A_Held then set_stage p A_Drop s else s)"
| "lock_step dir (Exits p) s =
     set_stage p A_Idle (s\<lparr>k_live := (k_live s)(p := False)\<rparr>)"

fun actor :: "lock_label \<Rightarrow> nat" where
  "actor (Spawned p) = p"
| "actor (Acquire p) = p"
| "actor (Poll p io) = p"
| "actor (Drop_Lock p) = p"
| "actor (Exits p) = p"

text \<open>A process that holds the lock: it has returned from \<open>acquire\<close> and not finished \<open>drop\<close>.\<close>

definition holds_lock :: "lock_sys \<Rightarrow> nat \<Rightarrow> bool" where
  "holds_lock s p \<longleftrightarrow> k_stage s p = A_Held \<or> k_stage s p = A_Drop \<or> k_stage s p = A_Unlink"

text \<open>Between reading a pid from the file and renaming the file away.\<close>

fun taking_over :: "lock_stage \<Rightarrow> bool" where
  "taking_over (A_Check n h) \<longleftrightarrow> True"
| "taking_over (A_Rename n) \<longleftrightarrow> True"
| "taking_over A_Idle \<longleftrightarrow> False"
| "taking_over (A_Create n) \<longleftrightarrow> False"
| "taking_over (A_Write n i) \<longleftrightarrow> False"
| "taking_over (A_Read n) \<longleftrightarrow> False"
| "taking_over (A_Remove n) \<longleftrightarrow> False"
| "taking_over A_Held \<longleftrightarrow> False"
| "taking_over A_Drop \<longleftrightarrow> False"
| "taking_over A_Unlink \<longleftrightarrow> False"
| "taking_over A_Released \<longleftrightarrow> False"
| "taking_over (A_Failed e) \<longleftrightarrow> False"

text \<open>Steps in which nobody else is in the middle of a take-over.\<close>

inductive quiet_step :: "string \<Rightarrow> lock_sys \<Rightarrow> lock_sys \<Rightarrow> bool" for dir :: string where
  quiet: "(\<forall>p. p \<noteq> actor l \<longrightarrow> \<not> taking_over (k_stage s p)) \<Longrightarrow> quiet_step dir s (lock_step dir l s)"

definition lock_start :: "lock_sys \<Rightarrow> bool" where
  "lock_start s \<longleftrightarrow>
     (\<forall>p. k_stage s p = A_Idle) \<and> (\<forall>p. k_live s p \<longrightarrow> 0 < p \<and> p < 2 ^ 31)"

end
