(* ===== verification/Lock_Props.thy ===== *)
theory Lock_Props
  imports Lock Progress
begin

text \<open>
  What the pid file guarantees: mutual exclusion as long as take-overs are undisturbed, how it is lost
  otherwise, that every acquire returns, and that a stale file is taken over.
\<close>

section \<open>Pid lines\<close>

lemma white_space_newline: "is_ws [newline]"
  by (simp add: is_ws_def white_space_def)

lemma newline_not_cont: "\<not> is_cont newline"
  by (simp add: is_cont_def)

lemma dec_printable: "list_all printable (dec n)"
  using dec_digits [of n] by (auto simp: list_all_iff digits10_def printable_def)

lemma dec_no_space: "c \<in> set (dec n) \<Longrightarrow> \<not> is_ws [c]"
  using dec_printable [of n] dec_digits [of n]
  by (auto simp: list_all_iff printable_ws digits10_def)

lemma dropWhile_none: "xs = [] \<or> \<not> P (hd xs) \<Longrightarrow> dropWhile P xs = xs"
  by (cases xs) auto

lemma trim_pid_line: "trim (pid_line p) = dec p"
proof -
  let ?ds = "map (\<lambda>c. [c]) (dec p)"
  have c: "chars (pid_line p) = ?ds @ [[newline]]"
    by (simp add: pid_line_def chars_append newline_not_cont chars_ascii dec_printable)
  have hd: "\<not> is_ws (hd (?ds @ [[newline]]))" "\<not> is_ws (hd (rev ?ds))"
    using dec_no_space [of _ p] by (simp_all add: hd_map hd_append hd_rev last_map)
  have "trim_start (pid_line p) = pid_line p"
    by (metis c concat_chars dropWhile_none hd(1) trim_start_def)
  moreover have "dropWhile is_ws (rev (chars (pid_line p))) = rev ?ds"
    using hd(2) by (simp add: c white_space_newline dropWhile_none)
  ultimately show ?thesis by (simp add: trim_def trim_end_def concat_singles)
qed

lemma parse_pid_line: "0 < p \<Longrightarrow> p < 2 ^ 31 \<Longrightarrow> parse_pid (pid_line p) = Some p"
proof -
  assume p: "0 < p" "p < 2 ^ 31"
  have "valid_utf8 (pid_line p)"
    by (simp add: pid_line_def newline_not_cont) (simp add: valid_utf8_def is_cont_def)
  with p show ?thesis by (simp add: parse_pid_def trim_pid_line parse_uint_dec)
qed

section \<open>The invariant of quiet runs\<close>

text \<open>What the lock file says, for each stage of a process.\<close>

fun file_says :: "string option \<Rightarrow> (nat \<Rightarrow> bool) \<Rightarrow> nat \<Rightarrow> lock_stage \<Rightarrow> bool" where
  "file_says txt alive p (A_Write n i) \<longleftrightarrow> txt = Some []"
| "file_says txt alive p A_Held \<longleftrightarrow> txt = Some (pid_line p)"
| "file_says txt alive p A_Drop \<longleftrightarrow> txt = Some (pid_line p)"
| "file_says txt alive p A_Unlink \<longleftrightarrow> txt = Some (pid_line p)"
| "file_says txt alive p (A_Check n h) \<longleftrightarrow> h = None \<or> Option.bind txt parse_pid = h"
| "file_says txt alive p (A_Rename n) \<longleftrightarrow> (\<exists>q. Option.bind txt parse_pid = Some q \<and> \<not> alive q)"
| "file_says txt alive p A_Idle \<longleftrightarrow> True"
| "file_says txt alive p (A_Create n) \<longleftrightarrow> True"
| "file_says txt alive p (A_Read n) \<longleftrightarrow> True"
| "file_says txt alive p (A_Remove n) \<longleftrightarrow> True"
| "file_says txt alive p A_Released \<longleftrightarrow> True"
| "file_says txt alive p (A_Failed e) \<longleftrightarrow> True"

fun owner_stage :: "lock_stage \<Rightarrow> bool" where
  "owner_stage (A_Write n i) \<longleftrightarrow> True"
| "owner_stage A_Held \<longleftrightarrow> True"
| "owner_stage A_Drop \<longleftrightarrow> True"
| "owner_stage A_Unlink \<longleftrightarrow> True"
| "owner_stage (A_Check n h) \<longleftrightarrow> False"
| "owner_stage (A_Rename n) \<longleftrightarrow> False"
| "owner_stage A_Idle \<longleftrightarrow> False"
| "owner_stage (A_Create n) \<longleftrightarrow> False"
| "owner_stage (A_Read n) \<longleftrightarrow> False"
| "owner_stage (A_Remove n) \<longleftrightarrow> False"
| "owner_stage A_Released \<longleftrightarrow> False"
| "owner_stage (A_Failed e) \<longleftrightarrow> False"

text \<open>The inode a process has open is the one the path leads to.\<close>

fun open_file :: "nat option \<Rightarrow> lock_stage \<Rightarrow> bool" where
  "open_file i (A_Write n j) \<longleftrightarrow> i = Some j"
| "open_file i st \<longleftrightarrow> True"

definition lock_inv :: "string \<Rightarrow> lock_sys \<Rightarrow> bool" where
  "lock_inv dir s \<longleftrightarrow>
     (\<forall>p. k_live s p \<longrightarrow> 0 < p \<and> p < 2 ^ 31) \<and>
     (\<forall>p. k_stage s p \<noteq> A_Idle \<longrightarrow> k_live s p) \<and>
     (\<forall>p. file_says (file_text s (lock_path dir)) (process_alive s) p (k_stage s p) \<and>
          open_file (k_dir s (lock_path dir)) (k_stage s p)) \<and>
     (\<forall>p q. owner_stage (k_stage s p) \<longrightarrow> owner_stage (k_stage s q) \<longrightarrow> p = q)"

lemma lock_invD:
  assumes "lock_inv dir s"
  shows "k_live s p \<Longrightarrow> 0 < p \<and> p < 2 ^ 31"
    and "k_stage s p \<noteq> A_Idle \<Longrightarrow> k_live s p"
    and "file_says (file_text s (lock_path dir)) (process_alive s) p (k_stage s p)"
    and "open_file (k_dir s (lock_path dir)) (k_stage s p)"
    and "owner_stage (k_stage s p) \<Longrightarrow> owner_stage (k_stage s q) \<Longrightarrow> p = q"
  using assms by (simp_all add: lock_inv_def)

lemma parse_pid_empty [simp]: "parse_pid [] = None"
  by (simp add: parse_pid_def trim_def trim_start_def trim_end_def parse_uint_def)

text \<open>Somebody who owns the file keeps it from looking stale.\<close>

lemma owner_not_stale:
  assumes "lock_inv dir s" "owner_stage (k_stage s p)"
    and "Option.bind (file_text s (lock_path dir)) parse_pid = Some q"
  shows "q = p \<and> process_alive s q"
proof -
  have "k_stage s p \<noteq> A_Idle" using assms(2) by auto
  then have live: "k_live s p" "0 < p" "p < 2 ^ 31"
    using lock_invD(1,2) [OF assms(1), of p] by auto
  have "file_says (file_text s (lock_path dir)) (process_alive s) p (k_stage s p)"
    by (rule lock_invD(3) [OF assms(1)])
  with assms(2,3) live show ?thesis
    by (cases "k_stage s p") (auto simp: parse_pid_line process_alive_def)
qed

lemma owner_has_file:
  "lock_inv dir s \<Longrightarrow> owner_stage (k_stage s p) \<Longrightarrow> k_dir s (lock_path dir) \<noteq> None"
  using lock_invD(3) [of dir s p] by (cases "k_stage s p") (auto simp: file_text_def)

lemma lock_start_inv: "lock_start s \<Longrightarrow> lock_inv dir s"
  by (simp add: lock_start_def lock_inv_def)

text \<open>
  A step of \<open>p\<close> that leaves the others where they are. If it changes the lock file, or who is alive,
  nobody else may own the file or be taking over.
\<close>

lemma lock_inv_actor:
  assumes inv: "lock_inv dir s"
    and others: "\<And>q. q \<noteq> p \<Longrightarrow> k_stage s' q = k_stage s q \<and> \<not> taking_over (k_stage s q)"
    and live: "\<And>q. q \<noteq> p \<Longrightarrow> k_live s' q = k_live s q"
      "k_live s' p \<Longrightarrow> 0 < p \<and> p < 2 ^ 31" "k_stage s' p \<noteq> A_Idle \<Longrightarrow> k_live s' p"
    and own: "file_says (file_text s' (lock_path dir)) (process_alive s') p (k_stage s' p)"
      "open_file (k_dir s' (lock_path dir)) (k_stage s' p)"
    and same: "(\<exists>q. q \<noteq> p \<and> owner_stage (k_stage s q)) \<Longrightarrow>
      file_text s' (lock_path dir) = file_text s (lock_path dir) \<and>
      k_dir s' (lock_path dir) = k_dir s (lock_path dir) \<and> \<not> owner_stage (k_stage s' p)"
  shows "lock_inv dir s'"
proof -
  have "file_says (file_text s' (lock_path dir)) (process_alive s') q (k_stage s' q) \<and>
      open_file (k_dir s' (lock_path dir)) (k_stage s' q)" for q
  proof (cases "q = p")
    case True
    with own show ?thesis by simp
  next
    case False
    then have st: "k_stage s' q = k_stage s q" "\<not> taking_over (k_stage s q)" using others by auto
    have "file_says (file_text s (lock_path dir)) (process_alive s) q (k_stage s q) \<and>
      open_file (k_dir s (lock_path dir)) (k_stage s q)" using lock_invD(3,4) [OF inv] by blast
    moreover have "owner_stage (k_stage s q) \<Longrightarrow>
        file_text s' (lock_path dir) = file_text s (lock_path dir) \<and>
        k_dir s' (lock_path dir) = k_dir s (lock_path dir)"
      using same False by blast
    ultimately show ?thesis using st by (cases "k_stage s q") auto
  qed
  moreover have "q = r" if "owner_stage (k_stage s' q)" "owner_stage (k_stage s' r)" for q r
  proof (cases "q = p \<or> r = p")
    case True
    then show ?thesis using that others same by (metis (no_types))
  next
    case False
    then show ?thesis using that others lock_invD(5) [OF inv, of q r] by simp
  qed
  moreover have "k_live s' q \<Longrightarrow> 0 < q \<and> q < 2 ^ 31" "k_stage s' q \<noteq> A_Idle \<Longrightarrow> k_live s' q" for q
    using live others lock_invD(1,2) [OF inv, of q] by (cases "q = p"; auto)+
  ultimately show ?thesis unfolding lock_inv_def by blast
qed

lemma stale_path_other [simp]: "stale_path dir p \<noteq> lock_path dir" "lock_path dir \<noteq> stale_path dir p"
  by (simp_all add: stale_path_def lock_path_def path_join_relative starts_with_def)

lemma set_stage_fields [simp]:
  "k_stage (set_stage p st s) = (k_stage s)(p := st)" "k_dir (set_stage p st s) = k_dir s"
  "k_live (set_stage p st s) = k_live s" "k_inode (set_stage p st s) = k_inode s"
  "file_text (set_stage p st s) path = file_text s path"
  "process_alive (set_stage p st s) = process_alive s"
  by (simp_all add: set_stage_def file_text_def process_alive_def fun_eq_iff)

lemma lock_poll_others:
  "q \<noteq> p \<Longrightarrow> k_stage (lock_poll dir io p s) q = k_stage s q"
  "k_live (lock_poll dir io p s) = k_live s"
  by (auto simp: lock_poll_def Let_def split: lock_stage.splits lock_io.splits option.splits)

lemma lock_poll_own:
  assumes "lock_inv dir s"
  shows "file_says (file_text (lock_poll dir io p s) (lock_path dir)) (process_alive (lock_poll dir io p s))
      p (k_stage (lock_poll dir io p s) p)"
    and "open_file (k_dir (lock_poll dir io p s) (lock_path dir)) (k_stage (lock_poll dir io p s) p)"
  using lock_invD(3,4) [OF assms, of p]
  by (auto simp: lock_poll_def Let_def file_text_def read_pid_def process_alive_def
      split: lock_stage.splits lock_io.splits option.splits if_splits)

lemma lock_poll_same:
  assumes inv: "lock_inv dir s" and q: "q \<noteq> p" "owner_stage (k_stage s q)"
  shows "file_text (lock_poll dir io p s) (lock_path dir) = file_text s (lock_path dir) \<and>
    k_dir (lock_poll dir io p s) (lock_path dir) = k_dir s (lock_path dir) \<and>
    \<not> owner_stage (k_stage (lock_poll dir io p s) p)"
proof -
  have no: "\<not> owner_stage (k_stage s p)" using lock_invD(5) [OF inv, of p q] q by blast
  have present: "k_dir s (lock_path dir) \<noteq> None" by (rule owner_has_file [OF inv q(2)])
  show ?thesis
  proof (cases "k_stage s p")
    case (A_Rename n)
    then obtain r where "Option.bind (file_text s (lock_path dir)) parse_pid = Some r" "\<not> process_alive s r"
      using lock_invD(3) [OF inv, of p] by auto
    with owner_not_stale [OF inv q(2)] show ?thesis by blast
  qed (use no present in \<open>auto simp: lock_poll_def Let_def file_text_def split: lock_io.splits\<close>)
qed

lemma lock_poll_idle: "k_stage s p = A_Idle \<Longrightarrow> lock_poll dir io p s = s"
  by (simp add: lock_poll_def)

lemma quiet_step_inv:
  assumes inv: "lock_inv dir s" and "quiet_step dir s s'"
  shows "lock_inv dir s'"
  using assms(2)
proof cases
  case (quiet l)
  note D = lock_invD [OF inv]
  show ?thesis
  proof (cases l)
    case (Spawned p)
    show ?thesis
    proof (cases "k_live s p")
      case True
      then have "(k_live s)(p := True) = k_live s" by (simp add: fun_upd_idem)
      then have "s' = s" using quiet Spawned by simp
      with inv show ?thesis by simp
    next
      case False
      with D(2) have "k_stage s p = A_Idle" by blast
      then show ?thesis
        by (intro lock_inv_actor [OF inv, of p])
          (use quiet Spawned D(1) [of p] D(5) in \<open>auto simp: file_text_def split: if_splits\<close>)
    qed
  next
    case (Acquire p)
    show ?thesis
      by (rule lock_inv_actor [OF inv, of p])
        (use quiet Acquire D(1-4) [of p] D(5) in \<open>auto split: if_splits\<close>)
  next
    case (Poll p io)
    have "k_stage s' p \<noteq> A_Idle \<Longrightarrow> k_live s p"
      using D(2) [of p] lock_poll_idle [of s p dir io] quiet Poll by (cases "k_stage s p = A_Idle") auto
    then show ?thesis
      by (intro lock_inv_actor [OF inv, of p])
        (use quiet Poll D(1) [of p] lock_poll_own [OF inv, of io p] lock_poll_same [OF inv, of _ p io] in
          \<open>auto simp: lock_poll_others\<close>)
  next
    case (Drop_Lock p)
    show ?thesis
      by (rule lock_inv_actor [OF inv, of p])
        (use quiet Drop_Lock D(1-4) [of p] D(5) in \<open>auto split: if_splits\<close>)
  next
    case (Exits p)
    show ?thesis
      by (rule lock_inv_actor [OF inv, of p])
        (use quiet Exits D(1-4) [of p] D(5) in \<open>auto simp: file_text_def split: if_splits\<close>)
  qed
qed

interpretation lock: safety lock_start "quiet_step dir" "lock_inv dir"
  "\<lambda>s. \<exists>p q. p \<noteq> q \<and> holds_lock s p \<and> holds_lock s q" for dir
proof
  show "lock_start s \<Longrightarrow> lock_inv dir s" for s by (rule lock_start_inv)
  show "lock_inv dir s \<Longrightarrow> quiet_step dir s t \<Longrightarrow> lock_inv dir t" for s t by (rule quiet_step_inv)
next
  fix s assume inv: "lock_inv dir s"
  have "holds_lock s p \<Longrightarrow> owner_stage (k_stage s p)" for p by (auto simp: holds_lock_def)
  then show "\<not> (\<exists>p q. p \<noteq> q \<and> holds_lock s p \<and> holds_lock s q)"
    using lock_invD(5) [OF inv] by blast
qed

section \<open>Every acquire returns\<close>

text \<open>An upper bound on the polls an acquire still needs, and the attempt counts that occur.\<close>

fun acquire_rank :: "lock_stage \<Rightarrow> nat" where
  "acquire_rank (A_Create n) = 5 * (ATTEMPTS - n) + 2"
| "acquire_rank (A_Write n i) = 1"
| "acquire_rank (A_Read n) = 5 * (ATTEMPTS - n) + 1"
| "acquire_rank (A_Check n h) = 5 * (ATTEMPTS - n)"
| "acquire_rank (A_Rename n) = 5 * (ATTEMPTS - n) - 1"
| "acquire_rank (A_Remove n) = 5 * (ATTEMPTS - n) - 2"
| "acquire_rank A_Held = 0"
| "acquire_rank (A_Failed e) = 0"
| "acquire_rank A_Idle = 0"
| "acquire_rank A_Drop = 0"
| "acquire_rank A_Unlink = 0"
| "acquire_rank A_Released = 0"

fun acquiring :: "lock_stage \<Rightarrow> bool" where
  "acquiring (A_Create n) \<longleftrightarrow> True"
| "acquiring (A_Write n i) \<longleftrightarrow> True"
| "acquiring (A_Read n) \<longleftrightarrow> n < ATTEMPTS"
| "acquiring (A_Check n h) \<longleftrightarrow> n < ATTEMPTS"
| "acquiring (A_Rename n) \<longleftrightarrow> n < ATTEMPTS"
| "acquiring (A_Remove n) \<longleftrightarrow> n < ATTEMPTS"
| "acquiring A_Held \<longleftrightarrow> True"
| "acquiring (A_Failed e) \<longleftrightarrow> True"
| "acquiring A_Idle \<longleftrightarrow> False"
| "acquiring A_Drop \<longleftrightarrow> False"
| "acquiring A_Unlink \<longleftrightarrow> False"
| "acquiring A_Released \<longleftrightarrow> False"

lemma own_poll_rank:
  assumes "acquiring (k_stage s p)"
  shows "acquiring (k_stage (lock_poll dir io p s) p) \<and>
    acquire_rank (k_stage (lock_poll dir io p s) p) \<le> acquire_rank (k_stage s p) - 1"
  using assms
  by (cases "k_stage s p")
    (auto simp: lock_poll_def Let_def split: lock_io.splits option.splits)

lemma step_rank:
  assumes "acquiring (k_stage s p)" "l \<noteq> Exits p" "l \<noteq> Drop_Lock p"
  shows "acquiring (k_stage (lock_step dir l s) p) \<and>
    acquire_rank (k_stage (lock_step dir l s) p) \<le>
      acquire_rank (k_stage s p) - (if \<exists>io. l = Poll p io then 1 else 0)"
proof (cases "\<exists>io. l = Poll p io")
  case True
  then show ?thesis using own_poll_rank [OF assms(1)] by auto
next
  case False
  then have "k_stage (lock_step dir l s) p = k_stage s p"
    using assms by (cases l) (auto simp: lock_poll_others split: if_splits)
  with assms(1) False show ?thesis by simp
qed

definition own_polls :: "nat \<Rightarrow> lock_label list \<Rightarrow> nat" where
  "own_polls p ls = length (filter (\<lambda>l. \<exists>io. l = Poll p io) ls)"

interpretation acquiring: progress "lock_step dir" "\<lambda>l. l \<noteq> Exits p \<and> l \<noteq> Drop_Lock p"
    "\<lambda>l _. \<exists>io. l = Poll p io" "\<lambda>s. acquiring (k_stage s p)" "\<lambda>s. acquire_rank (k_stage s p)"
  for dir p
proof
  fix s :: lock_sys and l
  assume s: "acquiring (k_stage s p)" and l: "l \<noteq> Exits p \<and> l \<noteq> Drop_Lock p"
  have step: "acquiring (k_stage (lock_step dir l s) p) \<and> acquire_rank (k_stage (lock_step dir l s) p) \<le>
      acquire_rank (k_stage s p) - (if \<exists>io. l = Poll p io then 1 else 0)"
    using s l by (intro step_rank) auto
  show "acquiring (k_stage (lock_step dir l s) p)" using step by blast
  show "acquire_rank (k_stage (lock_step dir l s) p) \<le> acquire_rank (k_stage s p)" using step by auto
  show "acquire_rank (k_stage (lock_step dir l s) p) < acquire_rank (k_stage s p)"
    if "\<exists>io. l = Poll p io" "0 < acquire_rank (k_stage s p)"
    using step that by auto
qed

section \<open>A take-over, call by call\<close>

lemma poll_taken:
  "k_stage s p = A_Create n \<Longrightarrow> n < ATTEMPTS \<Longrightarrow> k_dir s (lock_path dir) = Some i \<Longrightarrow>
     lock_poll dir Io_Ok p s = set_stage p (A_Read n) s"
  by (simp add: lock_poll_def)

lemma poll_free:
  "k_stage s p = A_Create n \<Longrightarrow> n < ATTEMPTS \<Longrightarrow> k_dir s (lock_path dir) = None \<Longrightarrow>
     lock_poll dir Io_Ok p s = set_stage p (A_Write n (k_next s))
       (s\<lparr>k_dir := (k_dir s)(lock_path dir \<mapsto> k_next s), k_inode := (k_inode s)(k_next s := []),
          k_next := Suc (k_next s)\<rparr>)"
  by (simp add: lock_poll_def)

lemma poll_write:
  "k_stage s p = A_Write n i \<Longrightarrow>
     lock_poll dir Io_Ok p s = set_stage p A_Held (s\<lparr>k_inode := (k_inode s)(i := pid_line p)\<rparr>)"
  by (simp add: lock_poll_def)

lemma poll_read:
  "k_stage s p = A_Read n \<Longrightarrow>
     lock_poll dir io p s = set_stage p (A_Check n (read_pid io s (lock_path dir))) s"
  by (simp add: lock_poll_def)

lemma poll_stale:
  "k_stage s p = A_Check n (Some q) \<Longrightarrow> \<not> process_alive s q \<Longrightarrow>
     lock_poll dir io p s = set_stage p (A_Rename n) s"
  by (simp add: lock_poll_def)

lemma poll_rename:
  "k_stage s p = A_Rename n \<Longrightarrow> k_dir s (lock_path dir) = Some i \<Longrightarrow>
     lock_poll dir Io_Ok p s = set_stage p (A_Remove n)
       (s\<lparr>k_dir := (k_dir s)(lock_path dir := None, stale_path dir p \<mapsto> i)\<rparr>)"
  by (simp add: lock_poll_def)

lemma poll_remove:
  "k_stage s p = A_Remove n \<Longrightarrow>
     lock_poll dir Io_Ok p s = set_stage p (A_Create (Suc n))
       (s\<lparr>k_dir := (k_dir s)(stale_path dir p := None)\<rparr>)"
  by (simp add: lock_poll_def)

lemmas poll_calls = poll_taken poll_free poll_write poll_read poll_stale poll_rename poll_remove

section \<open>A run with two holders\<close>

definition race_start :: lock_sys where
  "race_start = \<lparr>k_dir = (\<lambda>_. None), k_inode = (\<lambda>_. []), k_next = 0,
     k_live = (\<lambda>p. p = 1 \<or> p = 2 \<or> p = 3), k_stage = (\<lambda>_. A_Idle)\<rparr>"

definition race_run :: "lock_label list" where
  "race_run =
     [Acquire 1, Poll 1 Io_Ok, Poll 1 Io_Ok,
      Acquire 2, Poll 2 Io_Ok, Poll 2 Io_Ok,
      Drop_Lock 1, Poll 1 Io_Ok, Poll 1 Io_Ok, Exits 1,
      Acquire 3, Poll 3 Io_Ok, Poll 3 Io_Ok,
      Poll 2 Io_Ok, Poll 2 Io_Ok, Poll 2 Io_Ok, Poll 2 Io_Ok, Poll 2 Io_Ok]"

section \<open>The properties of the lock\<close>

text \<open>
  C23. No two processes hold the lock, from any leftover lock file and through crashes, exits and
  take-overs, as long as nobody else does anything while a process is between reading the pid of
  the holder and renaming the file.
\<close>

theorem lock_exclusive:
  assumes "reach lock_start (quiet_step dir) s" and "holds_lock s p" and "holds_lock s q"
  shows "p = q"
  using lock.never_bad [OF assms(1)] assms(2,3) by blast

text \<open>
  C37. Without that condition the lock can be held twice: a contender that has read a holder's pid
  takes the file of the next holder away, when the first has let go and exited in between. No
  process crashes and no stale file is needed.
\<close>

theorem lock_takeover_race:
  "lock_start race_start \<and>
   holds_lock (fold (lock_step ''/s'') race_run race_start) 2 \<and>
   holds_lock (fold (lock_step ''/s'') race_run race_start) 3"
proof -
  have pid: "parse_pid (pid_line 1) = Some 1" by (rule parse_pid_line) simp_all
  show ?thesis
    by (simp add: race_run_def race_start_def lock_start_def lock_poll_def ATTEMPTS_def
        read_pid_def file_text_def pid process_alive_def holds_lock_def set_stage_def
        del: set_stage_fields One_nat_def)
qed

text \<open>
  C24. Every \<open>acquire\<close> returns: after at most 27 of its own steps a process holds the lock or has
  got an error, whatever the file system answers and the others do.
\<close>

theorem acquire_returns:
  assumes "k_stage s p = A_Idle" "k_live s p"
    and "\<forall>l \<in> set ls. l \<noteq> Exits p \<and> l \<noteq> Drop_Lock p" and "27 \<le> own_polls p ls"
  shows "k_stage (fold (lock_step dir) (Acquire p # ls) s) p = A_Held \<or>
    (\<exists>e. k_stage (fold (lock_step dir) (Acquire p # ls) s) p = A_Failed e)"
proof -
  let ?s = "lock_step dir (Acquire p) s" and ?t = "fold (lock_step dir) (Acquire p # ls) s"
  have s: "k_stage ?s p = A_Create 0" using assms(1,2) by simp
  have "helped (lock_step dir) (\<lambda>l _. \<exists>io. l = Poll p io) ls ?s = own_polls p ls"
    by (simp add: helped_filter own_polls_def)
  then have "acquiring (k_stage ?t p)" "acquire_rank (k_stage ?t p) = 0"
    using acquiring.run_inv [of ?s p ls dir] acquiring.gets_through [of ?s p ls dir] s assms(3,4)
    by (simp_all add: list_all_iff ATTEMPTS_def)
  then show ?thesis by (cases "k_stage ?t p") auto
qed

text \<open>
  A stale lock file is taken over: when the pid in it belongs to no live process, a process that
  is left alone holds the lock after seven steps, the file has its own pid and the old file is gone.
\<close>

theorem stale_lock_taken:
  assumes "k_stage s p = A_Idle" "k_live s p" and "read_pid Io_Ok s (lock_path dir) = Some q"
    and "\<not> process_alive s q"
  shows "k_stage (fold (lock_step dir) (Acquire p # replicate 7 (Poll p Io_Ok)) s) p = A_Held \<and>
    file_text (fold (lock_step dir) (Acquire p # replicate 7 (Poll p Io_Ok)) s) (lock_path dir) =
      Some (pid_line p) \<and>
    file_text (fold (lock_step dir) (Acquire p # replicate 7 (Poll p Io_Ok)) s) (stale_path dir p) = None"
proof -
  obtain i where i: "k_dir s (lock_path dir) = Some i"
    using assms(3) by (cases "k_dir s (lock_path dir)") (auto simp: read_pid_def file_text_def)
  let ?path = "lock_path dir"
  let ?s0 = "set_stage p (A_Create 0) s"
  let ?s3 = "set_stage p (A_Rename 0) s"
  let ?s5 = "set_stage p (A_Create (Suc 0)) (s\<lparr>k_dir := (k_dir s)(?path := None, stale_path dir p := None)\<rparr>)"
  have again: "set_stage p st (set_stage p st' s) = set_stage p st s" for st st' by (simp add: set_stage_def)
  have sev: "replicate 7 x = [x, x, x] @ [x, x] @ [x, x]" for x :: lock_label by (simp add: eval_nat_numeral)
  have "read_pid Io_Ok ?s0 ?path = Some q" "read_pid Io_Ok (set_stage p st s) ?path = Some q" for st
    using assms(3) by (simp_all add: read_pid_def)
  then have "fold (lock_step dir) (replicate 3 (Poll p Io_Ok)) ?s0 = ?s3"
    using assms(4) i by (simp add: eval_nat_numeral poll_calls ATTEMPTS_def again)
  moreover have "fold (lock_step dir) (replicate 2 (Poll p Io_Ok)) ?s3 = ?s5"
    using i by (simp add: eval_nat_numeral poll_calls set_stage_def)
  moreover have "lock_step dir (Acquire p) s = ?s0" using assms(1,2) by simp
  ultimately have run: "fold (lock_step dir) (Acquire p # replicate 7 (Poll p Io_Ok)) s =
      fold (lock_step dir) (replicate 2 (Poll p Io_Ok)) ?s5"
    by (simp add: sev eval_nat_numeral del: lock_step.simps)
  have free: "k_dir ?s5 ?path = None" by simp
  show ?thesis
    unfolding run
    using free by (simp add: eval_nat_numeral poll_free poll_write ATTEMPTS_def) (simp add: file_text_def)
qed

section \<open>Witnesses\<close>

lemma step_others: "q \<noteq> actor l \<Longrightarrow> k_stage (lock_step dir l s) q = k_stage s q"
  by (cases l) (simp_all add: lock_poll_others)

lemma idle_others:
  "\<forall>l \<in> set ls. actor l = p \<Longrightarrow> q \<noteq> p \<Longrightarrow> k_stage (fold (lock_step dir) ls s) q = k_stage s q"
  by (induction ls arbitrary: s) (simp_all add: step_others)

lemma race_start_ok: "lock_start race_start"
  by (simp add: lock_start_def race_start_def)

theorem lock_exclusive_witness:
  "\<exists>s. reach lock_start (quiet_step ''/s'') s \<and> holds_lock s 1 \<and> \<not> holds_lock s 2"
proof -
  let ?s = "fold (lock_step ''/s'') [Acquire 1, Poll 1 Io_Ok, Poll 1 Io_Ok] race_start"
  have q: "quiet_step ''/s'' s (lock_step ''/s'' l s)" if "\<forall>p. p \<noteq> 1 \<longrightarrow> \<not> taking_over (k_stage s p)" "actor l = 1"
    for s l using that by (auto intro: quiet)
  have alone: "\<forall>p. p \<noteq> 1 \<longrightarrow> \<not> taking_over (k_stage (fold (lock_step ''/s'') ls race_start) p)"
    if "\<forall>l \<in> set ls. actor l = 1" for ls
    using that idle_others [of ls 1 _ "''/s''" race_start] by (auto simp: race_start_def)
  have run: "reach lock_start (quiet_step ''/s'') (fold (lock_step ''/s'') ls race_start)"
    if "\<forall>l \<in> set ls. actor l = 1" for ls
    using that
  proof (induction ls rule: rev_induct)
    case Nil
    then show ?case using race_start_ok by (simp add: reach_init)
  next
    case (snoc l ls)
    then have "quiet_step ''/s'' (fold (lock_step ''/s'') ls race_start)
        (fold (lock_step ''/s'') (ls @ [l]) race_start)"
      using q [OF alone] by simp
    moreover have "reach lock_start (quiet_step ''/s'') (fold (lock_step ''/s'') ls race_start)"
      using snoc by simp
    ultimately show ?case by (rule reach_step [rotated])
  qed
  have "reach lock_start (quiet_step ''/s'') ?s" by (rule run) simp
  moreover have "holds_lock ?s 1"
    by (simp add: race_start_def holds_lock_def lock_poll_def Let_def ATTEMPTS_def)
  ultimately show ?thesis using lock_exclusive [of "''/s''" ?s 1 2] by fastforce
qed

theorem acquire_returns_witness:
  "\<exists>st. k_stage (fold (lock_step ''/s'') (Acquire 1 # replicate 27 (Poll 1 Io_Ok)) race_start) 1 = st \<and>
     (st = A_Held \<or> (\<exists>e. st = A_Failed e))"
  using acquire_returns [of race_start 1 "replicate 27 (Poll 1 Io_Ok)" "''/s''"]
  by (simp add: race_start_def own_polls_def)

theorem stale_lock_taken_witness:
  "\<exists>s. read_pid Io_Ok s (lock_path ''/s'') = Some 9 \<and>
     k_stage (fold (lock_step ''/s'') (Acquire 1 # replicate 7 (Poll 1 Io_Ok)) s) 1 = A_Held"
proof -
  let ?s = "race_start\<lparr>k_dir := [lock_path ''/s'' \<mapsto> 0], k_inode := (\<lambda>_. pid_line 9), k_next := 1\<rparr>"
  have "parse_pid (pid_line 9) = Some 9" by (rule parse_pid_line) simp_all
  then have r: "read_pid Io_Ok ?s (lock_path ''/s'') = Some 9"
    by (simp add: read_pid_def file_text_def)
  then show ?thesis
    using stale_lock_taken [of ?s 1 "''/s''" 9] by (auto simp: race_start_def process_alive_def)
qed

end
