(* ===== verification/Lock_Torn.thy ===== *)
theory Lock_Torn
  imports Lock_Props
begin

text \<open>
  The lock file of a process that did not get round to writing its pid: created and empty, or written
  in part. Such a file has no holder that could be found dead, so nothing ever takes it away.
\<close>

section \<open>A lock file without a pid\<close>

text \<open>Stages of a process that can neither write to the lock file nor take it away.\<close>

fun bystander :: "lock_stage \<Rightarrow> bool" where
  "bystander A_Idle \<longleftrightarrow> True"
| "bystander (A_Create n) \<longleftrightarrow> True"
| "bystander (A_Read n) \<longleftrightarrow> True"
| "bystander (A_Check n holder) \<longleftrightarrow> holder = None"
| "bystander A_Released \<longleftrightarrow> True"
| "bystander (A_Failed e) \<longleftrightarrow> True"
| "bystander (A_Write n i) \<longleftrightarrow> False"
| "bystander (A_Rename n) \<longleftrightarrow> False"
| "bystander (A_Remove n) \<longleftrightarrow> False"
| "bystander A_Held \<longleftrightarrow> False"
| "bystander A_Drop \<longleftrightarrow> False"
| "bystander A_Unlink \<longleftrightarrow> False"

definition torn :: "string \<Rightarrow> lock_sys \<Rightarrow> bool" where
  "torn dir s \<longleftrightarrow>
     (\<exists>txt. file_text s (lock_path dir) = Some txt \<and> parse_pid txt = None) \<and>
     (\<forall>p. bystander (k_stage s p))"

lemma torn_read: "torn dir s \<Longrightarrow> read_pid io s (lock_path dir) = None"
  by (auto simp: torn_def read_pid_def split: lock_io.splits)

lemma torn_taken: "torn dir s \<Longrightarrow> k_dir s (lock_path dir) \<noteq> None"
  by (auto simp: torn_def file_text_def)

lemma bystander_free: "bystander (k_stage s p) \<Longrightarrow> \<not> holds_lock s p"
  by (auto simp: holds_lock_def)

lemma torn_set_stage [simp]: "file_text (set_stage p st s) path = file_text s path"
  by (simp add: file_text_def)

lemma torn_stage: "torn dir s \<Longrightarrow> bystander st \<Longrightarrow> torn dir (set_stage p st s)"
  by (simp add: torn_def)

lemma torn_poll:
  assumes torn: "torn dir s"
  shows "\<exists>st. bystander st \<and> lock_poll dir io p s = set_stage p st s"
proof -
  have same: "s = set_stage p (k_stage s p) s" by (simp add: set_stage_def)
  have "bystander (k_stage s p)" using torn by (simp add: torn_def)
  then show ?thesis
  proof (cases "k_stage s p")
    case (A_Create n)
    with torn_taken [OF torn] show ?thesis
      by (cases io) (auto simp: lock_poll_def Let_def intro: exI [of _ "A_Read n"] exI [of _ "A_Failed _"])
  next
    case (A_Read n)
    with torn_read [OF torn] show ?thesis
      by (auto simp: lock_poll_def Let_def intro: exI [of _ "A_Check n None"])
  next
    case (A_Check n holder)
    moreover have "bystander (k_stage s p)" using torn by (simp add: torn_def)
    ultimately show ?thesis by (auto simp: lock_poll_def Let_def intro!: exI [of _ "A_Failed _"])
  qed (use same in \<open>auto simp: lock_poll_def Let_def intro: exI [of _ "k_stage s p"]\<close>)
qed

lemma torn_step: "torn dir s \<Longrightarrow> torn dir (lock_step dir l s)"
proof (cases l)
  case (Poll p io)
  assume torn: "torn dir s"
  then obtain st where "bystander st" "lock_poll dir io p s = set_stage p st s" using torn_poll by blast
  with torn Poll show ?thesis by (simp add: torn_stage)
next
  case (Exits p)
  assume "torn dir s"
  then have "torn dir (s\<lparr>k_live := (k_live s)(p := False)\<rparr>)" by (simp add: torn_def file_text_def)
  with Exits show ?thesis by (simp add: torn_stage)
next
  case (Drop_Lock p)
  assume torn: "torn dir s"
  then have "bystander (k_stage s p)" by (simp add: torn_def)
  with torn Drop_Lock show ?thesis by auto
qed (auto simp: torn_stage, simp add: torn_def file_text_def)

lemma torn_run: "torn dir s \<Longrightarrow> torn dir (fold (lock_step dir) ls s)"
  by (induction ls arbitrary: s) (simp_all add: torn_step del: lock_step.simps)

text \<open>How it comes about: the process dies, or the write fails, right after the file was created.\<close>

inductive unwritten :: "nat \<Rightarrow> lock_label \<Rightarrow> bool" for p :: nat where
  died: "unwritten p (Exits p)"
| write_failed: "parse_pid partial = None \<Longrightarrow> unwritten p (Poll p (Io_Error error partial))"

lemma created_torn:
  assumes "lock_start s" "k_live s p" "k_dir s (lock_path dir) = None" "unwritten p l"
  shows "torn dir (fold (lock_step dir) [Acquire p, Poll p Io_Ok, l] s)"
proof -
  have idle: "k_stage s q = A_Idle" for q using assms(1) by (simp add: lock_start_def)
  then have "fold (lock_step dir) [Acquire p, Poll p Io_Ok] s =
      set_stage p (A_Write 0 (k_next s))
        (s\<lparr>k_dir := (k_dir s)(lock_path dir \<mapsto> k_next s), k_inode := (k_inode s)(k_next s := []),
           k_next := Suc (k_next s)\<rparr>)"
    using assms(2,3) by (simp add: poll_free ATTEMPTS_def) (simp add: set_stage_def)
  then have run: "fold (lock_step dir) [Acquire p, Poll p Io_Ok, l] s =
      lock_step dir l (set_stage p (A_Write 0 (k_next s))
        (s\<lparr>k_dir := (k_dir s)(lock_path dir \<mapsto> k_next s), k_inode := (k_inode s)(k_next s := []),
           k_next := Suc (k_next s)\<rparr>))"
    by (simp del: lock_step.simps)
  from assms(4) show ?thesis
    unfolding run by cases (simp_all add: idle torn_def lock_poll_def set_stage_def file_text_def)
qed

section \<open>The property\<close>



end
