(* ===== verification/Json.thy ===== *)
theory Json
  imports Protocol
begin

text \<open>
  JSON values as \<open>serde_json::Value\<close> has them: the map of an object is a \<open>BTreeMap\<close>, so its keys are
  sorted and a later entry of \<open>json!\<close> replaces an earlier one. Floating point numbers do not occur in
  what the modelled code builds. Also the derived serialisers of the two structs that the command
  line and the MCP server send.
\<close>

section \<open>Values\<close>

datatype json_value =
  J_Null
  | J_Bool bool
  | J_Int int
  | J_String string
  | J_Array "json_value list"
  | J_Object "(string, json_value) btree"

text \<open>\<open>json!({...})\<close>.\<close>

definition json_object :: "(string \<times> json_value) list \<Rightarrow> json_value" where
  "json_object entries = J_Object (fold (\<lambda>(k, v). bm_insert k v) entries [])"

text \<open>\<open>Value::get\<close> with a string, \<open>Value::as_str\<close> and \<open>Value::is_null\<close>.\<close>

fun json_get :: "json_value \<Rightarrow> string \<Rightarrow> json_value option" where
  "json_get (J_Object m) k = bm_get m k"
| "json_get J_Null k = None"
| "json_get (J_Bool b) k = None"
| "json_get (J_Int i) k = None"
| "json_get (J_String s) k = None"
| "json_get (J_Array vs) k = None"

fun json_as_str :: "json_value \<Rightarrow> string option" where
  "json_as_str (J_String s) = Some s"
| "json_as_str J_Null = None"
| "json_as_str (J_Bool b) = None"
| "json_as_str (J_Int i) = None"
| "json_as_str (J_Object m) = None"
| "json_as_str (J_Array vs) = None"

definition json_is_null :: "json_value \<Rightarrow> bool" where
  "json_is_null v \<longleftrightarrow> v = J_Null"

section \<open>Serialised structs\<close>

definition target_value :: "target \<Rightarrow> json_value" where
  "target_value t =
     json_object [(''kind'', J_String (target_kind_as_str (t_kind t))), (''id'', J_String (t_id t))]"

text \<open>An absent option is skipped.\<close>

definition skip_none :: "string \<Rightarrow> string option \<Rightarrow> (string \<times> json_value) list" where
  "skip_none k v = (case v of None \<Rightarrow> [] | Some s \<Rightarrow> [(k, J_String s)])"

definition host_info_value :: "host_info \<Rightarrow> json_value" where
  "host_info_value h =
     json_object ([(''name'', J_String (host_name_str (h_name h)))] @
       skip_none ''version'' (h_version h) @
       [(''supports_children'', J_Bool (h_supports_children h))])"

definition register_params_value :: "register_params \<Rightarrow> json_value" where
  "register_params_value p =
     json_object ([(''target'', target_value (reg_target p)), (''cwd'', J_String (reg_cwd p)),
       (''host'', host_info_value (reg_host p))] @ skip_none ''model'' (reg_model p))"

section \<open>Lookup\<close>

lemma fold_insert_assoc:
  "bm_wf m \<Longrightarrow> bm_get (fold (\<lambda>(k, v). bm_insert k v) entries m) k =
     (case map_of (rev entries) k of Some v \<Rightarrow> Some v | None \<Rightarrow> bm_get m k)"
proof (induction entries arbitrary: m)
  case (Cons e entries)
  then show ?case
    by (cases e) (auto simp: bm_get_insert bm_wf_insert map_add_def split: option.splits)
qed simp

lemma json_get_object [simp]: "json_get (json_object entries) k = map_of (rev entries) k"
  using fold_insert_assoc [of "[]" entries k]
  by (simp add: json_object_def bm_wf_def split: option.splits)

lemma json_target_inject [simp]: "target_value t = target_value t' \<longleftrightarrow> t = t'"
proof
  assume "target_value t = target_value t'"
  then have "json_get (target_value t) k = json_get (target_value t') k" for k by simp
  from this [of "''kind''"] this [of "''id''"] show "t = t'"
    by (cases t; cases t') (simp add: target_value_def)
qed simp

end
