(* ===== verification/Launch.thy ===== *)
theory Launch
  imports Serve Json
begin

text \<open>
  The rest of \<open>crates/daemon/src/kernel/launch.rs\<close> and the logger: the command line and environment of
  a kernel process, what \<open>launch\<close> makes of the attempt to start it, and the tasks that move lines
  between the process and the daemon. The process itself is a parameter.
\<close>

section \<open>The command\<close>

record kernel_command =
  kc_program :: string
  kc_args :: "string list"
  kc_cwd :: string
  kc_env :: "(string \<times> string) list"
  kc_kill_on_drop :: bool
  kc_process_group :: nat

definition python_path :: "environment \<Rightarrow> string \<Rightarrow> string" where
  "python_path vars kernel_path =
     (case non_empty (vars ''PYTHONPATH'') of
        None \<Rightarrow> kernel_path
      | Some old \<Rightarrow> kernel_path @ '':'' @ old)"

text \<open>\<open>std::env::join_paths\<close>: a path with the separator in it cannot be joined.\<close>

definition join_paths :: "string list \<Rightarrow> (string, string) result" where
  "join_paths paths =
     (if list_ex (\<lambda>p. CHR '':'' \<in> set p) paths
      then Inl ''path segment contains separator `:`'' else Inr (join '':'' paths))"

text \<open>
  \<open>command\<close>: the directory test and the skill directories look at the file system, the target is
  rendered by \<open>serde_json\<close>.
\<close>

definition launch_command ::
  "environment \<Rightarrow> skill_fs \<Rightarrow> (target \<Rightarrow> (string, string) result) \<Rightarrow> options \<Rightarrow> target \<Rightarrow>
     target_record \<Rightarrow> u32 \<Rightarrow> kernel_command rpc_result" where
  "launch_command vars fs to_string opts t rec d =
     rbind (ok_or (unavailable ''recurse_kernel package not found; set RECURSE_KERNEL_PATH'')
              (o_kernel_path opts)) (\<lambda>kernel_path.
       if \<not> fs_is_dir fs (tr_cwd rec)
       then Inl (unavailable (''target cwd '' @ tr_cwd rec @ '' is not a directory''))
       else
         rbind (map_sum (\<lambda>error. unavailable (''skills path: '' @ error)) (\<lambda>p. p)
                  (join_paths (skill_dirs fs opts (Some (tr_cwd rec))))) (\<lambda>skills.
           Inr \<lparr>kc_program = o_python opts, kc_args = [''-u'', ''-m'', ''recurse_kernel''],
                kc_cwd = tr_cwd rec,
                kc_env =
                  [(''PYTHONPATH'', python_path vars kernel_path),
                   (''RECURSE_TARGET'', case to_string t of Inl _ \<Rightarrow> [] | Inr json \<Rightarrow> json),
                   (''RECURSE_DEPTH'', dec (unat d)),
                   (''RECURSE_MAX_DEPTH'', dec (unat (o_max_depth opts))),
                   (''RECURSE_SKILLS_PATH'', skills),
                   (''RECURSE_KERNEL_PROTOCOL'', dec (unat KERNEL_PROTOCOL_VERSION))],
                kc_kill_on_drop = True, kc_process_group = 0\<rparr>))"

text \<open>
  \<open>launch\<close>: the outcome of starting the process is its pid and whether its three streams were
  captured.
\<close>

definition launch ::
  "kernel_command rpc_result \<Rightarrow> (string, u32 option \<times> bool) result \<Rightarrow> options \<Rightarrow> u64 \<Rightarrow> 'v kernel rpc_result" where
  "launch command started opts now =
     rbind command (\<lambda>_.
       case started of
         Inl error \<Rightarrow> Inl (unavailable (''start '' @ o_python opts @ '': '' @ error))
       | Inr (pid, captured) \<Rightarrow>
           if \<not> captured then Inl (unavailable ''kernel stdio was not captured'')
           else Inr (kernel_new (case pid of None \<Rightarrow> 0 | Some p \<Rightarrow> p) now))"

section \<open>Lines between the daemon and the kernel\<close>

text \<open>
  \<open>write_lines\<close>: the bytes on the process's standard input for the messages taken from the channel; a
  message that cannot be rendered is skipped, and the first failed write ends the task.
\<close>

fun write_lines :: "('v to_kernel \<Rightarrow> (string, string) result) \<Rightarrow> nat option \<Rightarrow> 'v to_kernel list \<Rightarrow> string" where
  "write_lines to_vec left [] = []"
| "write_lines to_vec left (m # ms) =
     (case to_vec m of
        Inl _ \<Rightarrow> write_lines to_vec left ms
      | Inr line \<Rightarrow>
          (case left of
             Some 0 \<Rightarrow> []
           | Some (Suc n) \<Rightarrow> (line @ [newline]) @ write_lines to_vec (Some n) ms
           | None \<Rightarrow> (line @ [newline]) @ write_lines to_vec None ms))"

text \<open>
  \<open>read_protocol\<close>: each line is dispatched or logged; reading stops at the end and at an error.
\<close>

datatype 'v protocol_line = Dispatch "'v from_kernel" | Invalid_Line string

fun read_protocol ::
  "(string \<Rightarrow> (string, 'v from_kernel) result) \<Rightarrow> (string, string) result list \<Rightarrow> 'v protocol_line list" where
  "read_protocol from_str [] = []"
| "read_protocol from_str (Inl error # later) = []"
| "read_protocol from_str (Inr line # later) =
     (case from_str line of
        Inr m \<Rightarrow> Dispatch m
      | Inl error \<Rightarrow> Invalid_Line error) # read_protocol from_str later"

definition invalid_line_text :: "target \<Rightarrow> string \<Rightarrow> string" where
  "invalid_line_text t error = target_display t @ '': invalid kernel protocol line ('' @ error @ '')''"

section \<open>The logger\<close>

text \<open>The log file, when it could be opened, and what went to standard error.\<close>

record logger =
  lg_file :: "string option"
  lg_stderr :: bool
  lg_console :: string

definition logger_open :: "string option \<Rightarrow> bool \<Rightarrow> logger" where
  "logger_open opened stderr = \<lparr>lg_file = opened, lg_stderr = stderr, lg_console = []\<rparr>"

text \<open>Both writes may fail without anybody noticing; here they succeed.\<close>

definition log_write :: "u64 \<Rightarrow> string \<Rightarrow> string \<Rightarrow> logger \<Rightarrow> logger" where
  "log_write now level msg lg =
     (let line = dec (unat now) @ '' ['' @ level @ ''] '' @ msg @ [newline];
          lg = (if lg_stderr lg then lg\<lparr>lg_console := lg_console lg @ line\<rparr> else lg)
      in lg\<lparr>lg_file := map_option (\<lambda>txt. txt @ line) (lg_file lg)\<rparr>)"

definition log_info :: "u64 \<Rightarrow> string \<Rightarrow> logger \<Rightarrow> logger" where
  "log_info now msg = log_write now ''info'' msg"

definition log_warn :: "u64 \<Rightarrow> string \<Rightarrow> logger \<Rightarrow> logger" where
  "log_warn now msg = log_write now ''warn'' msg"

definition log_error :: "u64 \<Rightarrow> string \<Rightarrow> logger \<Rightarrow> logger" where
  "log_error now msg = log_write now ''error'' msg"

text \<open>What the process writes to its standard error, line by line, until the first line that cannot be read.\<close>

fun log_stderr :: "u64 list \<Rightarrow> target \<Rightarrow> (string, string) result list \<Rightarrow> logger \<Rightarrow> logger" where
  "log_stderr (now # nows) t (Inr line # later) lg =
     log_stderr nows t later (log_write now ''kernel'' (target_display t @ '': '' @ line) lg)"
| "log_stderr nows t (Inl error # later) lg = lg"
| "log_stderr nows t [] lg = lg"
| "log_stderr [] t (Inr line # later) lg = lg"

end
