(* ===== verification/Daemon.thy ===== *)
theory Daemon
  imports Launch Lock Sse
begin

text \<open>
  \<open>crates/daemon/src/lib.rs\<close> and \<open>Store::open\<close>: starting a daemon, serving, and the way down, as a
  labelled step function over the tasks that are still at work: connections with their requests,
  listeners, the task that stops the kernels, and the tasks that answer host requests and report
  exits.
\<close>

section \<open>Starting\<close>

definition store_open :: "(string, unit) result \<Rightarrow> (string, unit) result \<Rightarrow> string \<Rightarrow> (string, string) result" where
  "store_open create chmod dir =
     rbind (map_sum (\<lambda>e. ''create '' @ dir @ '': '' @ e) (\<lambda>u. u) create) (\<lambda>_.
     rbind (map_sum (\<lambda>e. ''chmod '' @ dir @ '': '' @ e) (\<lambda>u. u) chmod) (\<lambda>_. Inr dir))"

text \<open>The outcomes of the system calls of \<open>start\<close>; the lock is \<open>StateLock::acquire\<close>.\<close>

record start_calls =
  sc_create :: "(string, unit) result"
  sc_chmod :: "(string, unit) result"
  sc_acquire :: "(string, unit) result"
  sc_bind :: "(string, unit) result"
  sc_local_addr :: "(string, string) result"

definition app_new :: "options \<Rightarrow> state \<Rightarrow> u64 \<Rightarrow> nat \<Rightarrow> 'v app" where
  "app_new opts st started_at instant =
     \<lparr>a_options = opts, a_state = st, a_kernels = manager_default, a_started_at = started_at,
      a_shutdown = False, a_last_rpc = instant\<rparr>"

text \<open>
  The daemon or an error, and whether the lock is held on return: an early return after \<open>acquire\<close>
  drops it.
\<close>

definition daemon_start ::
  "start_calls \<Rightarrow> codecs \<Rightarrow> files \<Rightarrow> options \<Rightarrow> u64 \<Rightarrow> nat \<Rightarrow> (string, string \<times> 'v app) result \<times> bool" where
  "daemon_start sc codec files opts now instant =
     (case store_open (sc_create sc) (sc_chmod sc) (o_state_dir opts) of
        Inl e \<Rightarrow> (Inl e, False)
      | Inr dir \<Rightarrow>
          (case sc_acquire sc of
             Inl e \<Rightarrow> (Inl e, False)
           | Inr _ \<Rightarrow>
               let address = ''127.0.0.1:'' @ dec (unat (o_port opts));
                   outcome =
                     rbind (state_load codec files dir) (\<lambda>st.
                     rbind (map_sum (\<lambda>e. ''bind daemon to '' @ address @ '': '' @ e) (\<lambda>u. u) (sc_bind sc)) (\<lambda>_.
                     rbind (map_sum (\<lambda>e. ''read bound address: '' @ e) (\<lambda>a. a) (sc_local_addr sc)) (\<lambda>addr.
                       Inr (addr, app_new opts st now instant))))
               in (outcome, case outcome of Inl _ \<Rightarrow> False | Inr _ \<Rightarrow> True)))"

definition daemon_url :: "string \<Rightarrow> string" where
  "daemon_url addr = ''http://'' @ addr"

section \<open>Running\<close>

text \<open>
  \<open>run\<close> serves, drains the connections, waits for the kernels to be stopped, flushes the state, and
  drops the lock. The stopper marks every kernel first (\<open>Stop_Kernels\<close>); how it waits for their exits
  and kills is in Kernel_Stop, here it is through at some later point (\<open>Kernels_Stopped\<close>).
  The requests and exits of kernels are labels of their own: any target and pid may report, whether or
  not the manager has such a kernel, which includes every run of a real one.
\<close>

datatype run_phase = Serving | Draining | Stopping | Flushed | Returned
datatype stopper = Not_Spawned | Stopper_Running | Stopper_Waiting | Stopper_Done

record 'v daemon =
  dm_app :: "'v app"
  dm_phase :: run_phase
  dm_connections :: nat
  dm_stopper :: stopper
  dm_host_tasks :: "(target \<times> u32 \<times> string \<times> 'v) list"
  dm_locked :: bool

definition daemon_running :: "'v app \<Rightarrow> 'v daemon" where
  "daemon_running app =
     \<lparr>dm_app = app, dm_phase = Serving, dm_connections = 0, dm_stopper = Not_Spawned,
      dm_host_tasks = [], dm_locked = True\<rparr>"

datatype 'v daemon_label =
  Connect
  | Disconnect
  | Client_Request "'v world" "string option" "string option"
  | Listener_Claims "'v world" target "string set"
  | Kernel_Label "'v label"
  | Idle_Turn "'v world"
  | Terminate
  | Notice_Shutdown
  | Serve_Ends
  | Serve_Fails
  | Stop_Inline
  | Stop_Kernels
  | Kernels_Stopped
  | Flush_State "'v world"
  | Drop_State_Lock
  | Host_Spawned target u32 string 'v
  | Host_Runs "'v world" nat
  | Exit_Reported "'v world" target exit_info "i32 option" "i32 option"

fun daemon_step :: "'v daemon_label \<Rightarrow> 'v daemon \<Rightarrow> 'v daemon" where
  "daemon_step Connect d =
     (if dm_phase d = Serving then d\<lparr>dm_connections := Suc (dm_connections d)\<rparr> else d)"
| "daemon_step Disconnect d = d\<lparr>dm_connections := dm_connections d - 1\<rparr>"
| "daemon_step (Client_Request w header body) d =
     (if 0 < dm_connections d then d\<lparr>dm_app := snd (rpc_handle w header body (dm_app d))\<rparr> else d)"
| "daemon_step (Listener_Claims w t claimed) d =
     d\<lparr>dm_app := snd (app_update w (hand_change t claimed) (dm_app d))\<rparr>"
| "daemon_step (Kernel_Label l) d =
     d\<lparr>dm_app := (dm_app d)\<lparr>a_kernels := apply_label l (a_kernels (dm_app d))\<rparr>\<rparr>"
| "daemon_step (Idle_Turn w) d = d\<lparr>dm_app := idle_turn w (dm_app d)\<rparr>"
| "daemon_step Terminate d = d\<lparr>dm_app := request_shutdown (dm_app d)\<rparr>"
| "daemon_step Notice_Shutdown d =
     (if dm_phase d = Serving \<and> a_shutdown (dm_app d)
      then d\<lparr>dm_phase := Draining, dm_stopper := Stopper_Running\<rparr> else d)"
| "daemon_step Serve_Ends d =
     (if dm_phase d = Draining \<and> dm_connections d = 0 then d\<lparr>dm_phase := Stopping\<rparr> else d)"
| "daemon_step Serve_Fails d =
     (if dm_phase d = Serving \<or> dm_phase d = Draining then d\<lparr>dm_phase := Stopping\<rparr> else d)"
| "daemon_step Stop_Inline d =
     (if dm_phase d = Stopping \<and> dm_stopper d = Not_Spawned
      then d\<lparr>dm_stopper := Stopper_Running\<rparr> else d)"
| "daemon_step Stop_Kernels d =
     (if dm_stopper d = Stopper_Running
      then d\<lparr>dm_stopper := Stopper_Waiting,
             dm_app := (dm_app d)\<lparr>a_kernels := stop_all (a_kernels (dm_app d))\<rparr>\<rparr> else d)"
| "daemon_step Kernels_Stopped d =
     (if dm_stopper d = Stopper_Waiting then d\<lparr>dm_stopper := Stopper_Done\<rparr> else d)"
| "daemon_step (Flush_State w) d =
     (if dm_phase d = Stopping \<and> dm_stopper d = Stopper_Done
      then d\<lparr>dm_phase := Flushed,
             dm_app := (dm_app d)\<lparr>a_state :=
               flush (w_codec w) (unat (w_pid w)) (w_io w) (a_state (dm_app d))\<rparr>\<rparr> else d)"
| "daemon_step Drop_State_Lock d =
     (if dm_phase d = Flushed then d\<lparr>dm_phase := Returned, dm_locked := False\<rparr> else d)"
| "daemon_step (Host_Spawned t pid method params) d =
     d\<lparr>dm_host_tasks := dm_host_tasks d @ [(t, pid, method, params)]\<rparr>"
| "daemon_step (Host_Runs w i) d =
     (if i < length (dm_host_tasks d) then
        (let (t, pid, method, params) = dm_host_tasks d ! i
         in d\<lparr>dm_host_tasks := remove_at i (dm_host_tasks d),
              dm_app := snd (host_handle w t pid method params (dm_app d))\<rparr>)
      else d)"
| "daemon_step (Exit_Reported w t ex exit_code signal) d =
     d\<lparr>dm_app := report_exit w t ex exit_code signal (dm_app d)\<rparr>"

section \<open>The way down\<close>

text \<open>
  Tasks that outlive \<open>run\<close>: a host request, the report of an exit or the delivery of a listener that
  only runs after the flush, and a connection of a server that has failed.
\<close>

fun straggles :: "'v daemon_label \<Rightarrow> 'v daemon \<Rightarrow> bool" where
  "straggles (Host_Runs w i) d \<longleftrightarrow> dm_phase d = Flushed \<or> dm_phase d = Returned"
| "straggles (Exit_Reported w t ex exit_code signal) d \<longleftrightarrow> dm_phase d = Flushed \<or> dm_phase d = Returned"
| "straggles Serve_Fails d \<longleftrightarrow> 0 < dm_connections d"
| "straggles Connect d \<longleftrightarrow> False"
| "straggles Disconnect d \<longleftrightarrow> False"
| "straggles (Client_Request w header body) d \<longleftrightarrow> False"
| "straggles (Listener_Claims w t claimed) d \<longleftrightarrow> dm_phase d = Flushed \<or> dm_phase d = Returned"
| "straggles (Kernel_Label l) d \<longleftrightarrow> False"
| "straggles (Idle_Turn w) d \<longleftrightarrow> False"
| "straggles Terminate d \<longleftrightarrow> False"
| "straggles Notice_Shutdown d \<longleftrightarrow> False"
| "straggles Serve_Ends d \<longleftrightarrow> False"
| "straggles Stop_Inline d \<longleftrightarrow> False"
| "straggles Stop_Kernels d \<longleftrightarrow> False"
| "straggles Kernels_Stopped d \<longleftrightarrow> False"
| "straggles (Flush_State w) d \<longleftrightarrow> False"
| "straggles Drop_State_Lock d \<longleftrightarrow> False"
| "straggles (Host_Spawned t pid method params) d \<longleftrightarrow> False"

text \<open>Every state is flushed with the same codec and both files written.\<close>

fun saves :: "codecs \<Rightarrow> 'v daemon_label \<Rightarrow> bool" where
  "saves codec (Flush_State w) \<longleftrightarrow> w_codec w = codec \<and> w_io w = (Saved, Saved)"
| "saves codec (Connect) \<longleftrightarrow> True"
| "saves codec Disconnect \<longleftrightarrow> True"
| "saves codec (Client_Request w header body) \<longleftrightarrow> True"
| "saves codec (Listener_Claims w t claimed) \<longleftrightarrow> True"
| "saves codec (Kernel_Label l) \<longleftrightarrow> True"
| "saves codec (Idle_Turn w) \<longleftrightarrow> True"
| "saves codec Terminate \<longleftrightarrow> True"
| "saves codec Notice_Shutdown \<longleftrightarrow> True"
| "saves codec Serve_Ends \<longleftrightarrow> True"
| "saves codec Serve_Fails \<longleftrightarrow> True"
| "saves codec Stop_Inline \<longleftrightarrow> True"
| "saves codec Stop_Kernels \<longleftrightarrow> True"
| "saves codec Kernels_Stopped \<longleftrightarrow> True"
| "saves codec Drop_State_Lock \<longleftrightarrow> True"
| "saves codec (Host_Spawned t pid method params) \<longleftrightarrow> True"
| "saves codec (Host_Runs w i) \<longleftrightarrow> True"
| "saves codec (Exit_Reported w t ex exit_code signal) \<longleftrightarrow> True"

inductive orderly_step :: "codecs \<Rightarrow> 'v daemon \<Rightarrow> 'v daemon \<Rightarrow> bool" for codec where
  orderly: "\<not> straggles l d \<Longrightarrow> saves codec l \<Longrightarrow> orderly_step codec d (daemon_step l d)"

inductive_cases orderly_stepE: "orderly_step codec d d'"

end
