(* ===== verification/Daemon_Props.thy ===== *)
theory Daemon_Props
  imports Daemon App_Props
begin

text \<open>
  What the way down promises: the state is on disk before the lock is let go, and stays as it is; and
  where the promise ends, a host request that is still being answered after that.
\<close>

section \<open>The invariant of a running daemon\<close>

definition on_disk :: "codecs \<Rightarrow> state \<Rightarrow> bool" where
  "on_disk codec st \<longleftrightarrow>
     (\<forall>rb qb. enc_registry codec (core_registry (st_core st)) = Inr rb \<longrightarrow>
        enc_queue codec (to_file (core_queue (st_core st))) = Inr qb \<longrightarrow>
        st_files st (path_join (st_dir st) REGISTRY_FILE) = Contents (rb @ [newline]) \<and>
        st_files st (path_join (st_dir st) EVENTS_FILE) = Contents (qb @ [newline]))"

definition daemon_inv :: "codecs \<Rightarrow> 'v daemon \<Rightarrow> bool" where
  "daemon_inv codec d \<longleftrightarrow>
     app_inv (dm_app d) \<and>
     (dm_phase d \<in> {Stopping, Flushed, Returned} \<longrightarrow> dm_connections d = 0) \<and>
     (dm_phase d \<in> {Flushed, Returned} \<longrightarrow> on_disk codec (a_state (dm_app d))) \<and>
     (dm_locked d \<longleftrightarrow> dm_phase d \<noteq> Returned)"

lemma flush_on_disk: "on_disk codec (flush codec pid (Saved, Saved) st)"
  by (simp add: on_disk_def flush_def persist_saved)

lemma app_inv_flush: "app_inv (app\<lparr>a_state := flush codec pid io (a_state app)\<rparr>) = app_inv app"
  by (simp add: app_inv_def flush_def)

lemma idle_turn_same [simp]:
  "a_state (idle_turn w app) = a_state app" "app_inv (idle_turn w app) = app_inv app"
  by (simp_all add: idle_turn_def app_touch_def request_shutdown_def app_inv_def)

lemma request_shutdown_same [simp]:
  "a_state (request_shutdown app) = a_state app" "app_inv (request_shutdown app) = app_inv app"
  by (simp_all add: request_shutdown_def app_inv_def)

lemma report_exit_app_inv: "app_inv app \<Longrightarrow> app_inv (report_exit w t ex ec sig app)"
  by (auto simp: report_exit_def intro!: app_update_inv change_enqueue.core_change_axioms)

lemma hand_change_core: "core_change (hand_change t claimed) (registry_limits d)"
  by unfold_locales
    (auto simp: hand_change_def on_queue_def map_prod_def split_beta core_inv_def intro: hand_out_inv)

lemma daemon_inv_step:
  assumes "daemon_inv codec d" "\<not> straggles l d" "saves codec l"
  shows "daemon_inv codec (daemon_step l d)"
  using assms
  by (cases l) (auto simp: daemon_inv_def rpc_handle_app_inv host_handle_app_inv report_exit_app_inv
      app_update_inv hand_change_core
      flush_on_disk app_inv_flush Let_def split: prod.splits)

lemma daemon_still:
  assumes "daemon_inv codec d" "\<not> straggles l d" "dm_phase d \<in> {Flushed, Returned}"
  shows "a_state (dm_app (daemon_step l d)) = a_state (dm_app d)"
  using assms by (cases l) (auto simp: daemon_inv_def)

interpretation running: inductive_invariant "\<lambda>d. \<exists>app. app_inv app \<and> d = daemon_running app"
  "orderly_step codec" "daemon_inv codec" for codec
proof
  show "\<exists>app. app_inv app \<and> d = daemon_running app \<Longrightarrow> daemon_inv codec d" for d :: "'a daemon"
    by (auto simp: daemon_inv_def daemon_running_def)
next
  show "daemon_inv codec d \<Longrightarrow> orderly_step codec d d' \<Longrightarrow> daemon_inv codec d'" for d d' :: "'a daemon"
    by (auto elim!: orderly_stepE intro: daemon_inv_step)
qed

section \<open>A graceful stop\<close>

text \<open>
  C21. In an orderly run the flush could write both files, and up to the return nothing straggled
  behind it: no host request was answered, no exit reported and no listener served after the flush,
  and no server failed with connections still open. When \<open>run\<close> has returned from such a run, the lock
  is free and the state directory loads to the registry and queues the daemon ended with. What can
  change the state after that is a host request that is only answered now, the report of an exit, or
  a listener that claims events, and no other step.
\<close>

theorem graceful_stop_reloads:
  assumes "reach (\<lambda>d. \<exists>app. app_inv app \<and> d = daemon_running app) (orderly_step codec) d"
    and "dm_phase d = Returned" and "core = st_core (a_state (dm_app d))"
    and "enc_registry codec (core_registry core) = Inr rb"
    and "dec_registry codec (rb @ [newline]) = Inr (core_registry core)"
    and "enc_queue codec (to_file (core_queue core)) = Inr qb"
    and "dec_queue codec (qb @ [newline]) = Inr (to_file (core_queue core))"
  shows "\<not> dm_locked d \<and>
    (\<exists>st. state_load codec (st_files (a_state (dm_app d))) (st_dir (a_state (dm_app d))) = Inr st \<and>
       core_registry (st_core st) = core_registry core \<and>
       (\<forall>t. queue_of (core_queue (st_core st)) t = queue_of (core_queue core) t)) \<and>
    (\<forall>l. a_state (dm_app (daemon_step l d)) \<noteq> a_state (dm_app d) \<longrightarrow>
       (\<exists>w i. l = Host_Runs w i) \<or> (\<exists>w t ex c sig. l = Exit_Reported w t ex c sig) \<or>
       (\<exists>w t claimed. l = Listener_Claims w t claimed))"
proof -
  have inv: "daemon_inv codec d" using assms(1) by (rule running.reach_inv)
  then have "on_disk codec (a_state (dm_app d))" "app_inv (dm_app d)"
    using assms(2) by (auto simp: daemon_inv_def)
  then have "\<exists>st. state_load codec (st_files (a_state (dm_app d))) (st_dir (a_state (dm_app d))) = Inr st \<and>
       core_registry (st_core st) = core_registry core \<and>
       (\<forall>t. queue_of (core_queue (st_core st)) t = queue_of (core_queue core) t)"
    using saved_load [of "registry_limits (unat (o_max_depth (a_options (dm_app d))))" core
        "st_files (a_state (dm_app d))" "st_dir (a_state (dm_app d))" rb qb codec] assms
    by (auto simp: on_disk_def app_inv_def)
  moreover have "(\<exists>w i. l = Host_Runs w i) \<or> (\<exists>w t ex c sig. l = Exit_Reported w t ex c sig) \<or>
       (\<exists>w t claimed. l = Listener_Claims w t claimed)"
    if "a_state (dm_app (daemon_step l d)) \<noteq> a_state (dm_app d)" for l
    using that daemon_still [OF inv, of l] assms(2) inv by (cases l) (auto simp: daemon_inv_def)
  ultimately show ?thesis using inv assms(2) by (auto simp: daemon_inv_def)
qed

section \<open>A task that straggles\<close>

definition late_codec :: codecs where
  "late_codec = \<lparr>enc_registry = (\<lambda>_. Inr ''r''), dec_registry = (\<lambda>_. Inr registry_default),
     enc_queue = (\<lambda>f. Inr (if f = [] then ''empty'' else ''notice'')), dec_queue = (\<lambda>_. Inr [])\<rparr>"

definition late_world :: "nat world" where
  "late_world = demo_world\<lparr>w_codec := late_codec,
     w_json := demo_json\<lparr>j_bash_finished := (\<lambda>_. Inr
       \<lparr>fin_handle_id = ''h'', fin_pid = 9, fin_exit_code = None, fin_command = ''make''\<rparr>)\<rparr>\<rparr>"

definition empty_app :: "nat app" where
  "empty_app = demo_app\<lparr>a_state := (a_state demo_app)\<lparr>st_core := core_default\<rparr>\<rparr>"

definition way_down :: "nat daemon_label list" where
  "way_down = [Host_Spawned demo_session 7 ''notice.bash_finished'' 3, Terminate, Notice_Shutdown, Serve_Ends,
     Stop_Kernels, Kernels_Stopped, Flush_State late_world, Drop_State_Lock]"

definition events_file :: "nat daemon \<Rightarrow> disk_read" where
  "events_file d = st_files (a_state (dm_app d)) (path_join (st_dir (a_state (dm_app d))) EVENTS_FILE)"

definition stopped_app :: "nat app" where
  "stopped_app =
     (request_shutdown empty_app)
       \<lparr>a_kernels := stop_all manager_default,
        a_state := flush late_codec 42 (Saved, Saved) (a_state empty_app)\<rparr>"

definition stopped_daemon :: "nat daemon" where
  "stopped_daemon =
     \<lparr>dm_app = stopped_app, dm_phase = Returned, dm_connections = 0, dm_stopper = Stopper_Done,
      dm_host_tasks = [(demo_session, 7, ''notice.bash_finished'', 3)], dm_locked = False\<rparr>"

lemma way_down_stops: "fold daemon_step way_down (daemon_running empty_app) = stopped_daemon"
  by (simp add: way_down_def daemon_running_def stopped_daemon_def stopped_app_def request_shutdown_def
      empty_app_def demo_app_def late_world_def demo_world_def)

lemma stopped_state:
  "st_core (a_state stopped_app) = core_default" "st_dir (a_state stopped_app) = ''/state''"
  by (simp_all add: stopped_app_def flush_def empty_app_def demo_app_def)

lemma stopped_events: "events_file stopped_daemon = Contents (''empty'' @ [newline])"
proof -
  have "on_disk late_codec (a_state stopped_app)" by (simp add: stopped_app_def flush_on_disk)
  then show ?thesis
    by (simp add: on_disk_def events_file_def stopped_daemon_def stopped_state late_codec_def core_default_def
        to_file_def queue_default_def)
qed

lemma late_answer:
  "snd (host_handle late_world demo_session 7 ''notice.bash_finished'' 3 stopped_app) =
     snd (app_update late_world (enqueue_change
       (bash_finished demo_session 7
         \<lparr>fin_handle_id = ''h'', fin_pid = 9, fin_exit_code = None, fin_command = ''make''\<rparr> 6)) stopped_app)"
  by (simp add: host_handle_def host_call_parse_def parse_params_def host_call_def respond_def late_world_def
      demo_world_def demo_json_def)

lemma late_events:
  "events_file (daemon_step (Host_Runs late_world 0) stopped_daemon) = Contents (''notice'' @ [newline])"
proof -
  let ?e = "bash_finished demo_session 7
      \<lparr>fin_handle_id = ''h'', fin_pid = 9, fin_exit_code = None, fin_command = ''make''\<rparr> 6"
  let ?c = "snd (enqueue_change ?e core_default)\<lparr>core_notify := []\<rparr>"
  have q: "to_file (core_queue ?c) \<noteq> []"
    by (simp add: enqueue_change_def enqueue_def push_def core_default_def entry_or_default_def to_file_def
        queue_default_def Let_def split_beta drop_overflow_fit QUEUED_EVENTS_def)
  then have "enc_queue late_codec (to_file (core_queue ?c)) = Inr ''notice''"
    "enc_registry late_codec (core_registry ?c) = Inr ''r''" by (simp_all add: late_codec_def)
  note saved = persist_saved(2) [OF this(2,1), of "unat (w_pid late_world)" "a_state stopped_app"]
  have "w_codec late_world = late_codec" "w_io late_world = (Saved, Saved)"
    by (simp_all add: late_world_def demo_world_def)
  then show ?thesis
    using saved
    by (simp add: events_file_def stopped_daemon_def late_answer app_update_def update_files split_beta
        stopped_state enqueue_change_def)
qed

text \<open>
  C39. A host request that is answered after \<open>run\<close> has dropped the lock writes the state directory
  without holding it: the task that \<open>dispatch\<close> spawns for a kernel's message is not waited for, so a
  daemon that has taken the lock in between can lose what it has written.
\<close>

theorem late_host_request_unlocked:
  "let d = fold daemon_step way_down (daemon_running empty_app)
   in dm_phase d = Returned \<and> \<not> dm_locked d \<and> events_file d = Contents (''empty'' @ [newline]) \<and>
      events_file (daemon_step (Host_Runs late_world 0) d) = Contents (''notice'' @ [newline])"
  by (simp only: Let_def way_down_stops stopped_events late_events)
    (simp add: stopped_daemon_def)

section \<open>Witness\<close>

lemma orderly_fold:
  "reach init (orderly_step codec) d \<Longrightarrow> list_all (\<lambda>l. saves codec l \<and> (\<forall>d. \<not> straggles l d)) ls \<Longrightarrow>
     reach init (orderly_step codec) (fold daemon_step ls d)"
proof (induction ls arbitrary: d)
  case (Cons l ls)
  then have "orderly_step codec d (daemon_step l d)" by (intro orderly) simp_all
  with Cons show ?case by (simp add: reach_step)
qed simp

theorem graceful_stop_reloads_witness:
  "\<exists>d :: nat daemon. dm_phase d = Returned \<and> \<not> dm_locked d \<and>
     (\<exists>st. state_load late_codec (st_files (a_state (dm_app d))) (st_dir (a_state (dm_app d))) = Inr st \<and>
        core_registry (st_core st) = registry_default)"
proof -
  let ?d0 = "daemon_running empty_app"
  let ?labels = "[Terminate, Notice_Shutdown, Serve_Ends, Stop_Kernels, Kernels_Stopped, Flush_State late_world, Drop_State_Lock]"
  define d where "d = fold daemon_step ?labels ?d0"
  have inv: "app_inv empty_app"
    by (simp add: app_inv_def empty_app_def demo_app_def core_inv_def core_default_def queue_inv_default
        registry_limits_def targets_ok_def registry_default_def live_children_def REGISTERED_TARGETS_def)
  have "reach (\<lambda>d. \<exists>app. app_inv app \<and> d = daemon_running app) (orderly_step late_codec) ?d0"
    using inv by (blast intro: reach_init)
  moreover have "list_all (\<lambda>l. saves late_codec l \<and> (\<forall>d :: nat daemon. \<not> straggles l d)) ?labels"
    by (simp add: late_world_def demo_world_def)
  ultimately have r: "reach (\<lambda>d. \<exists>app. app_inv app \<and> d = daemon_running app) (orderly_step late_codec) d"
    unfolding d_def by (rule orderly_fold)
  have d: "dm_phase d = Returned" "st_core (a_state (dm_app d)) = core_default"
    by (simp_all add: d_def daemon_running_def request_shutdown_def empty_app_def demo_app_def late_world_def
        demo_world_def flush_def)
  have "dec_registry late_codec (''r'' @ [newline]) = Inr (core_registry core_default)"
      "enc_registry late_codec (core_registry core_default) = Inr ''r''"
      "enc_queue late_codec (to_file (core_queue core_default)) = Inr ''empty''"
      "dec_queue late_codec (''empty'' @ [newline]) = Inr (to_file (core_queue core_default))"
    by (simp_all add: late_codec_def core_default_def to_file_def queue_default_def)
  from graceful_stop_reloads [OF r d(1) d(2) [symmetric] this(2,1,3,4)] d(1) show ?thesis
    by (metis core_default_def core.simps(1))
qed

end
