(* ===== verification/Daemon_Progress.thy ===== *)
theory Daemon_Progress
  imports Daemon_Props Progress
begin

text \<open>
  A daemon that is asked to stop comes to an end: its \<open>run\<close> returns in every fair run, whatever is
  asked of it and of its kernels on the way down.
\<close>

section \<open>A request to stop is not taken back\<close>

definition stays_asked :: "'v app \<Rightarrow> 'v app \<Rightarrow> bool" where
  "stays_asked app app' \<longleftrightarrow> a_shutdown app' = a_shutdown app"

interpretation stays_asked: app_relation "\<lambda>_. True" stays_asked
  by unfold_locales (simp_all add: stays_asked_def app_touch_def app_update_def split_beta)

lemma asked_stays:
  "a_shutdown (dm_app d) \<Longrightarrow> a_shutdown (dm_app (daemon_step l d))"
proof (cases l)
  case (Client_Request w header body)
  assume "a_shutdown (dm_app d)"
  then show ?thesis
    using Client_Request stays_asked.rel_rpc_handle [where w = w and app = "dm_app d" and header = header and body = body]
    by (simp add: stays_asked_def)
next
  case (Host_Runs w i)
  assume "a_shutdown (dm_app d)"
  moreover have "a_shutdown (snd (host_handle w t pid m ps (dm_app d))) = a_shutdown (dm_app d)" for t pid m ps
    using stays_asked.rel_host_handle [of "dm_app d" w t pid m ps] by (simp add: stays_asked_def)
  ultimately show ?thesis using Host_Runs by (simp add: split_beta)
next
  case (Exit_Reported w t ex exit_code signal)
  assume "a_shutdown (dm_app d)"
  then show ?thesis
    using Exit_Reported stays_asked.rel_serve [where a = "Kernel_Exit w t ex exit_code signal" and app = "dm_app d"]
    by (simp add: stays_asked_def)
next
  case (Idle_Turn w)
  assume "a_shutdown (dm_app d)"
  with Idle_Turn show ?thesis by (simp add: idle_turn_def)
qed (simp_all add: request_shutdown_def app_update_def split_beta)

section \<open>The way down, step by step\<close>

fun stopper_rank :: "stopper \<Rightarrow> nat" where
  "stopper_rank Not_Spawned = 3"
| "stopper_rank Stopper_Running = 2"
| "stopper_rank Stopper_Waiting = 1"
| "stopper_rank Stopper_Done = 0"

fun run_rank :: "run_phase \<Rightarrow> nat \<Rightarrow> stopper \<Rightarrow> nat \<times> nat" where
  "run_rank Serving n st = (4, 0)"
| "run_rank Draining n st = (3, n)"
| "run_rank Stopping n st = (2, stopper_rank st)"
| "run_rank Flushed n st = (1, 0)"
| "run_rank Returned n st = (0, 0)"

definition down_rank :: "'v daemon \<Rightarrow> nat \<times> nat" where
  "down_rank d = run_rank (dm_phase d) (dm_connections d) (dm_stopper d)"

text \<open>The step that takes the daemon on, from where it is.\<close>

fun takes_on :: "run_phase \<Rightarrow> nat \<Rightarrow> stopper \<Rightarrow> 'v daemon_label \<Rightarrow> bool" where
  "takes_on Serving n st l \<longleftrightarrow> l = Notice_Shutdown"
| "takes_on Draining n st l \<longleftrightarrow> l = (if n = 0 then Serve_Ends else Disconnect)"
| "takes_on Stopping n Not_Spawned l \<longleftrightarrow> l = Stop_Inline"
| "takes_on Stopping n Stopper_Running l \<longleftrightarrow> l = Stop_Kernels"
| "takes_on Stopping n Stopper_Waiting l \<longleftrightarrow> l = Kernels_Stopped"
| "takes_on Stopping n Stopper_Done l \<longleftrightarrow> (\<exists>w. l = Flush_State w)"
| "takes_on Flushed n st l \<longleftrightarrow> l = Drop_State_Lock"
| "takes_on Returned n st l \<longleftrightarrow> False"

definition goes_down :: "'v daemon_label \<Rightarrow> 'v daemon \<Rightarrow> bool" where
  "goes_down l d \<longleftrightarrow> takes_on (dm_phase d) (dm_connections d) (dm_stopper d) l"

lemma down_step:
  assumes "a_shutdown (dm_app d)"
  shows "down_rank (daemon_step l d) = down_rank d \<or> (down_rank (daemon_step l d), down_rank d) \<in> lower"
  using assms
  by (cases l; cases "dm_phase d"; cases "dm_stopper d") (auto simp: down_rank_def Let_def split_beta)

lemma goes_down_step:
  assumes "a_shutdown (dm_app d)" "goes_down l d"
  shows "(down_rank (daemon_step l d), down_rank d) \<in> lower"
  using assms
  by (cases "dm_phase d"; cases "dm_stopper d") (auto simp: goes_down_def down_rank_def split: if_splits)

interpretation way_down: fair_progress daemon_step goes_down "\<lambda>d. a_shutdown (dm_app d)"
  "\<lambda>d. dm_phase d = Returned" down_rank
  by unfold_locales (use asked_stays down_step goes_down_step in blast)+

section \<open>Fair runs\<close>

text \<open>
  Every step of \<open>run\<close> and of the stopper that is ready is taken at some time, and connections that are
  open while the server drains are closed one after the other. Everything else is free.
\<close>

definition fair_down :: "(nat \<Rightarrow> 'v daemon_label) \<Rightarrow> bool" where
  "fair_down ls \<longleftrightarrow>
     (\<forall>l \<in> {Notice_Shutdown, Serve_Ends, Disconnect, Stop_Inline, Stop_Kernels, Kernels_Stopped, Drop_State_Lock}.
        \<forall>n. \<exists>m \<ge> n. ls m = l) \<and>
     (\<forall>n. \<exists>m \<ge> n. \<exists>w. ls m = Flush_State w)"

lemma ready_comes:
  assumes "fair_down ls" "dm_phase d \<noteq> Returned"
  shows "\<exists>m \<ge> n. takes_on (dm_phase d) (dm_connections d) (dm_stopper d) (ls m)"
  using assms
  by (cases "dm_phase d"; cases "dm_stopper d") (auto simp: fair_down_def)

lemma same_rank_ready:
  "down_rank d' = down_rank d \<Longrightarrow>
     takes_on (dm_phase d') (dm_connections d') (dm_stopper d') l = takes_on (dm_phase d) (dm_connections d) (dm_stopper d) l"
  by (cases "dm_phase d"; cases "dm_phase d'"; cases "dm_stopper d"; cases "dm_stopper d'") (simp_all add: down_rank_def)

lemma unlocked_step: "(dm_locked d \<longleftrightarrow> dm_phase d \<noteq> Returned) \<Longrightarrow>
    dm_locked (daemon_step l d) \<longleftrightarrow> dm_phase (daemon_step l d) \<noteq> Returned"
  by (cases l) (auto simp: Let_def split_beta)

lemma unlocked_run:
  assumes "\<And>n. d (Suc n) = daemon_step (ls n) (d n)" "d 0 = daemon_running app"
  shows "dm_locked (d n) \<longleftrightarrow> dm_phase (d n) \<noteq> Returned"
proof (induction n)
  case 0
  then show ?case by (simp add: assms(2) daemon_running_def)
next
  case (Suc n)
  then show ?case using unlocked_step by (simp add: assms(1))
qed

text \<open>
  C22. A daemon that is asked to stop returns and lets go of its lock: in every fair run, from the
  moment somebody has asked for it, however many requests, host requests, kernels and listeners are
  still at work, and also when serving fails.
\<close>

theorem daemon_returns:
  assumes "d 0 = daemon_running app" and "\<And>n. d (Suc n) = daemon_step (ls n) (d n)" and "fair_down ls"
    and "a_shutdown (dm_app (d k))"
  shows "\<exists>m \<ge> k. dm_phase (d m) = Returned \<and> \<not> dm_locked (d m)"
proof -
  let ?d = "\<lambda>n. d (k + n)" and ?ls = "\<lambda>n. ls (k + n)"
  have run: "?d (Suc n) = daemon_step (?ls n) (?d n)" for n by (simp add: assms(2))
  have "\<exists>n. dm_phase (?d n) = Returned"
  proof (rule way_down.reaches_goal_or_stays [of ?d ?ls, OF run])
    fix n
    assume "\<And>j. dm_phase (?d j) \<noteq> Returned"
    then obtain m where m: "k + n \<le> m" "takes_on (dm_phase (?d n)) (dm_connections (?d n)) (dm_stopper (?d n)) (ls m)"
      using ready_comes [OF assms(3)] by blast
    have "down_rank (d m) \<noteq> down_rank (?d n) \<or> goes_down (ls m) (d m)"
      using same_rank_ready [of "d m" "?d n" "ls m"] m(2) unfolding goes_down_def by blast
    then show "\<exists>m \<ge> n. down_rank (?d m) \<noteq> down_rank (?d n) \<or> goes_down (?ls m) (?d m)"
      using m(1) by (intro exI [of _ "m - k"]) simp
  qed (use assms(4) in simp)
  then obtain n where "dm_phase (d (k + n)) = Returned" by blast
  then show ?thesis using unlocked_run [of d ls, OF assms(2,1)] by (intro exI [of _ "k + n"]) simp
qed

section \<open>Witness\<close>

definition round_robin :: "nat \<Rightarrow> nat daemon_label" where
  "round_robin n = [Terminate, Notice_Shutdown, Serve_Ends, Disconnect, Stop_Inline, Stop_Kernels, Kernels_Stopped,
     Drop_State_Lock, Flush_State late_world] ! (n mod 9)"

lemma round_robin_fair: "fair_down round_robin"
proof -
  have turn: "\<exists>m \<ge> n. round_robin m = round_robin i" if "i < 9" for n i
  proof -
    have "round_robin (9 * n + i) = round_robin i" by (simp add: round_robin_def)
    then show ?thesis by (intro exI [of _ "9 * n + i"]) simp
  qed
  have "round_robin 1 = Notice_Shutdown" "round_robin 2 = Serve_Ends" "round_robin 3 = Disconnect"
      "round_robin 4 = Stop_Inline" "round_robin 5 = Stop_Kernels" "round_robin 6 = Kernels_Stopped"
      "round_robin 7 = Drop_State_Lock" "round_robin 8 = Flush_State late_world"
    by (simp_all add: round_robin_def)
  note turns = turn [of 1, unfolded this(1)] turn [of 2, unfolded this(2)] turn [of 3, unfolded this(3)]
    turn [of 4, unfolded this(4)] turn [of 5, unfolded this(5)] turn [of 6, unfolded this(6)]
    turn [of 7, unfolded this(7)] turn [of 8, unfolded this(8)]
  show ?thesis
    unfolding fair_down_def ball_simps using turns by (simp add: le_refl) blast
qed

theorem daemon_returns_witness:
  "\<exists>m. dm_phase (rec_nat (daemon_running empty_app) (\<lambda>n. daemon_step (round_robin n)) m) = Returned"
proof -
  let ?d = "rec_nat (daemon_running empty_app) (\<lambda>n. daemon_step (round_robin n))"
  have "a_shutdown (dm_app (?d 1))" by (simp add: round_robin_def request_shutdown_def)
  then show ?thesis
    using daemon_returns [of ?d empty_app round_robin, OF _ _ round_robin_fair, of 1] by auto
qed

end
