(* ===== verification/Kernel_Cells.thy ===== *)
theory Kernel_Cells
  imports Kernel_Inv
begin

text \<open>
  What a kernel still has to answer is the cell of the one call in flight on it, as long as no
  future is dropped: the invariant \<open>cells_inv\<close>, and the two ways out of a cell, a result and a
  closed channel, which no waiting call misses.
\<close>

fun stage_cell :: "call_stage \<Rightarrow> (nat \<times> string) option" where
  "stage_cell (In_Cell kid cell st) = Some (kid, cell)"
| "stage_cell Check = None"
| "stage_cell Launch = None"
| "stage_cell (Install kid) = None"
| "stage_cell (Await_Ready kid) = None"
| "stage_cell (Start_Cell kid) = None"
| "stage_cell (Release r) = None"

fun finished :: "cell_stage \<Rightarrow> bool" where
  "finished (Finish r) = True"
| "finished Send_Execute = False"
| "finished Await_Result = False"
| "finished Send_Interrupt = False"
| "finished Await_Grace = False"
| "finished Await_Exit = False"

text \<open>Whether the call still looks at the channel of its cell.\<close>

fun stage_wait :: "call_stage \<Rightarrow> (nat \<times> string) option" where
  "stage_wait (In_Cell kid cell st) = (if finished st then None else Some (kid, cell))"
| "stage_wait Check = None"
| "stage_wait Launch = None"
| "stage_wait (Install kid) = None"
| "stage_wait (Await_Ready kid) = None"
| "stage_wait (Start_Cell kid) = None"
| "stage_wait (Release r) = None"

definition cell_of :: "'v manager \<Rightarrow> nat \<Rightarrow> (nat \<times> string) option" where
  "cell_of m i = Option.bind (m_call m i) (\<lambda>c. stage_cell (call_stage c))"

definition wait_of :: "'v manager \<Rightarrow> nat \<Rightarrow> (nat \<times> string) option" where
  "wait_of m i = Option.bind (m_call m i) (\<lambda>c. stage_wait (call_stage c))"

definition cells_ok :: "'v manager \<Rightarrow> nat \<Rightarrow> 'v kernel \<Rightarrow> bool" where
  "cells_ok m kid k \<longleftrightarrow>
     distinct (k_pending k) \<and>
     (\<forall>cell \<in> set (k_pending k). \<exists>i. cell_of m i = Some (kid, cell)) \<and>
     (\<forall>cell. k_running_cell k = Some cell \<longrightarrow> (\<exists>i. cell_of m i = Some (kid, cell))) \<and>
     (\<forall>i cell. cell_of m i = Some (kid, cell) \<longrightarrow> k_running_cell k = Some cell) \<and>
     (\<forall>i cell. wait_of m i = Some (kid, cell) \<longrightarrow>
        cell \<in> set (k_pending k) \<or> k_results k cell \<noteq> Open)"

definition cells_inv :: "'v manager \<Rightarrow> bool" where
  "cells_inv m \<longleftrightarrow> calls_inv m \<and> (\<forall>kid k. m_kernel m kid = Some k \<longrightarrow> cells_ok m kid k)"

lemma cells_invD:
  assumes "cells_inv m"
  shows cells_calls: "calls_inv m" and cells_kernel: "m_kernel m kid = Some k \<Longrightarrow> cells_ok m kid k"
  using assms by (auto simp: cells_inv_def)

lemma cell_of_wait: "wait_of m i = Some x \<Longrightarrow> cell_of m i = Some x"
  by (cases "m_call m i"; cases "call_stage (the (m_call m i))")
    (auto simp: wait_of_def cell_of_def split: if_splits)

lemma cell_of_owns:
  assumes "cell_of m i = Some (kid, cell)"
  shows "\<exists>c. m_call m i = Some c \<and> owns m kid (call_slot c)"
proof -
  obtain c where c: "m_call m i = Some c" "stage_cell (call_stage c) = Some (kid, cell)"
    using assms by (auto simp: cell_of_def split: bind_splits)
  then have "stage_kernel (call_stage c) = Some kid" by (cases "call_stage c") auto
  with c show ?thesis using owns_stage by blast
qed

lemma owner_unique:
  assumes inv: "calls_inv m"
    and i: "m_call m i = Some c" "owns m kid (call_slot c)"
    and j: "m_call m j = Some d" "owns m kid (call_slot d)"
  shows "i = j"
  using call_unique [OF inv i(1) j(1)] owns_unique [OF inv i(2) j(2)] by simp

lemma cell_of_unique:
  assumes inv: "calls_inv m" and i: "cell_of m i = Some (kid, cell)"
    and j: "cell_of m j = Some (kid, cell')"
  shows "i = j"
  using cell_of_owns [OF i] cell_of_owns [OF j] owner_unique [OF inv] by blast

section \<open>Changes that no waiter notices\<close>

definition mild :: "'v kernel \<Rightarrow> 'v kernel \<Rightarrow> bool" where
  "mild k k' \<longleftrightarrow>
     (distinct (k_pending k) \<longrightarrow> distinct (k_pending k')) \<and>
     set (k_pending k') \<subseteq> set (k_pending k) \<and>
     k_running_cell k' = k_running_cell k \<and>
     (\<forall>cell. cell \<in> set (k_pending k) \<or> k_results k cell \<noteq> Open \<longrightarrow>
        cell \<in> set (k_pending k') \<or> k_results k' cell \<noteq> Open)"

lemma mild_same:
  "k_pending k' = k_pending k \<Longrightarrow> k_running_cell k' = k_running_cell k \<Longrightarrow>
     k_results k' = k_results k \<Longrightarrow> mild k k'"
  by (simp add: mild_def)

lemma mild_refl [simp]: "mild k k"
  by (simp add: mild_same)

lemma mild_kernel_ops:
  "mild k (kill k)" "mild k (snd (try_send msg k))" "mild k (snd (interrupt k))"
  "mild k (begin_stop k)" "mild k (snd (on_exit k))" "mild k (on_result cell result k)"
  "mild k (on_ready pid k)" "mild k (on_handles hs k)"
  "mild k (k\<lparr>k_queue := q\<rparr>)" "mild k (k\<lparr>k_queue := q, k_writer := w\<rparr>)"
  by (auto simp: mild_def kill_def interrupt_def begin_stop_def try_send_def on_exit_def on_result_def
      on_ready_def on_handles_def drop_senders_def Let_def distinct_removeAll)

lemma mild_dispatch: "mild k (fst (kernel_dispatch msg k))"
  by (auto simp: kernel_dispatch_def mild_kernel_ops split: from_kernel.splits)

lemma mild_poll_cell: "mild k (snd (poll_cell cell src t timer el st k))"
  by (auto simp: poll_cell_def mild_kernel_ops split: cell_stage.splits chan.splits)

lemma cells_ok_mild:
  assumes "cells_ok m kid k" "mild k k'"
    and "\<And>i. cell_of m' i = cell_of m i"
    and "\<And>i x. wait_of m' i = Some x \<Longrightarrow> wait_of m i = Some x"
  shows "cells_ok m' kid k'"
proof -
  have wait': "cell \<in> set (k_pending k') \<or> k_results k' cell \<noteq> Open"
    if "wait_of m' i = Some (kid, cell)" for i cell
    using assms(1,2) assms(4) [OF that] unfolding cells_ok_def mild_def by blast
  show ?thesis
    using assms(1,2) wait' unfolding cells_ok_def mild_def assms(3) by (simp add: subset_iff)
qed

lemma cells_inv_mild:
  assumes inv: "cells_inv m" and calls: "calls_inv m'"
    and kern: "\<And>kid k'. m_kernel m' kid = Some k' \<Longrightarrow> \<exists>k. m_kernel m kid = Some k \<and> mild k k'"
    and same: "\<And>i. cell_of m' i = cell_of m i"
    and wait: "\<And>i x. wait_of m' i = Some x \<Longrightarrow> wait_of m i = Some x"
  shows "cells_inv m'"
proof -
  have "cells_ok m' kid k'" if k': "m_kernel m' kid = Some k'" for kid k'
  proof -
    obtain k where "m_kernel m kid = Some k" "mild k k'" using kern [OF k'] by blast
    then show ?thesis using cells_ok_mild [OF cells_kernel [OF inv] _ same wait] by blast
  qed
  with calls show ?thesis by (simp add: cells_inv_def)
qed

lemma cells_inv_on_kernel:
  assumes "cells_inv m" "\<And>k. m_kernel m kid = Some k \<Longrightarrow> mild k (f k)"
  shows "cells_inv (on_kernel kid f m)"
  by (rule cells_inv_mild [OF assms(1)])
    (use assms in \<open>auto simp: cell_of_def wait_of_def intro: calls_inv_on_kernel cells_calls
      split: if_splits\<close>)

lemma cells_inv_calls_same:
  assumes "cells_inv m" "calls_inv m'" "m_call m' = m_call m" "m_kernel m' = m_kernel m"
  shows "cells_inv m'"
  by (rule cells_inv_mild [OF assms(1,2)]) (use assms in \<open>auto simp: cell_of_def wait_of_def\<close>)

lemma cells_inv_stop_kernel: "cells_inv m \<Longrightarrow> cells_inv (stop_kernel ko m)"
  by (auto simp: stop_kernel_def mild_kernel_ops split: option.splits intro: cells_inv_on_kernel)

lemma cells_inv_stop_all: "cells_inv m \<Longrightarrow> cells_inv (stop_all m)"
proof -
  have "cells_inv m \<Longrightarrow> cells_inv (fold (\<lambda>kid. on_kernel kid begin_stop) kids m)" for kids
  proof (induction kids arbitrary: m)
    case (Cons kid kids)
    from Cons.prems have "cells_inv (on_kernel kid begin_stop m)"
      by (rule cells_inv_on_kernel) (rule mild_kernel_ops)
    from Cons.IH [OF this] show ?case by simp
  qed simp
  then show "cells_inv m \<Longrightarrow> ?thesis" by (simp add: stop_all_def)
qed

text \<open>A call that moves outside the cell.\<close>

lemma cells_inv_stage:
  assumes inv: "cells_inv m" and c: "m_call m i = Some c" and calls: "calls_inv (set_stage i st m)"
    and cell: "stage_cell st = stage_cell (call_stage c)"
    and wait: "stage_wait st = None \<or> stage_wait st = stage_wait (call_stage c)"
  shows "cells_inv (set_stage i st m)"
proof (rule cells_inv_mild [OF inv calls])
  show "cell_of (set_stage i st m) j = cell_of m j" for j
    using c cell by (simp add: cell_of_def)
  show "wait_of m j = Some x" if "wait_of (set_stage i st m) j = Some x" for j x
    using that c wait by (auto simp: wait_of_def split: if_splits)
qed auto

section \<open>Entering and leaving a cell\<close>

lemma no_cell_on_owned:
  assumes inv: "calls_inv m" and c: "m_call m i = Some c"
    and k: "stage_kernel (call_stage c) = Some kid" "stage_cell (call_stage c) = None"
  shows "cell_of m j \<noteq> Some (kid, cell)"
proof
  assume j: "cell_of m j = Some (kid, cell)"
  have "owns m kid (call_slot c)" using c k(1) by (rule owns_stage)
  with cell_of_owns [OF j] owner_unique [OF inv] c have "j = i" by blast
  with j c k(2) show False by (simp add: cell_of_def)
qed

lemma cells_ok_same:
  assumes "cells_ok m kid k"
    and "\<And>j d. cell_of m' j = Some (kid, d) \<longleftrightarrow> cell_of m j = Some (kid, d)"
    and "\<And>j d. wait_of m' j = Some (kid, d) \<longleftrightarrow> wait_of m j = Some (kid, d)"
  shows "cells_ok m' kid k"
  using assms(1) unfolding cells_ok_def assms(2,3) .

lemma begin_cell_cases:
  obtains (refused) e where "begin_cell k = (Inl e, k\<lparr>k_cells := k_cells k + 1\<rparr>)"
  | (started) cell where
      "begin_cell k = (Inr cell, k\<lparr>k_cells := k_cells k + 1,
         k_pending := cell # removeAll cell (k_pending k),
         k_results := (k_results k)(cell := Open), k_running_cell := Some cell\<rparr>)"
  by (cases "k_phase k = Phase_Ready") (auto simp: begin_cell_def Let_def)

lemma cells_inv_enter:
  assumes inv: "cells_inv m" and c: "m_call m i = Some c" "call_stage c = Start_Cell kid"
    and k: "m_kernel m kid = Some k"
    and k': "set (k_pending k') = insert cell (set (k_pending k))"
      "distinct (k_pending k) \<Longrightarrow> distinct (k_pending k')"
      "k_running_cell k' = Some cell" "k_results k' = (k_results k)(cell := Open)"
  shows "cells_inv (set_stage i (In_Cell kid cell Send_Execute) (on_kernel kid (\<lambda>_. k') m))"
    (is "cells_inv ?m")
proof -
  have calls: "calls_inv m" by (rule cells_calls [OF inv])
  have ok: "cells_ok m kid k" by (rule cells_kernel [OF inv k])
  have none: "cell_of m j \<noteq> Some (kid, d)" for j d
    using no_cell_on_owned [OF calls c(1)] c(2) by simp
  have pend: "k_pending k = []" using ok none by (cases "k_pending k") (auto simp: cells_ok_def)
  have cell_m: "cell_of ?m j = (if j = i then Some (kid, cell) else cell_of m j)" for j
    using c by (auto simp: cell_of_def)
  have wait_m: "wait_of ?m j = (if j = i then Some (kid, cell) else wait_of m j)" for j
    using c by (auto simp: wait_of_def)
  have cell_i: "cell_of m i = None" and wait_i: "wait_of m i = None"
    using c by (simp_all add: cell_of_def wait_of_def)
  have calls': "calls_inv ?m"
    by (rule calls_inv_on_kernel_stage [OF calls c(1)]) (use owns_stage [OF c(1)] c(2) in simp)
  have "cells_ok ?m kid k'"
    using ok none k' pend cell_of_wait [of m] unfolding cells_ok_def cell_m wait_m by auto
  moreover have "cells_ok ?m kid2 k2" if k2: "m_kernel m kid2 = Some k2" "kid2 \<noteq> kid" for kid2 k2
    using cells_kernel [OF inv k2(1)]
    by (rule cells_ok_same) (use k2(2) cell_i wait_i in \<open>auto simp: cell_m wait_m\<close>)
  ultimately show ?thesis
    using calls' by (auto simp: cells_inv_def split: if_splits)
qed

lemma cells_inv_leave:
  assumes inv: "cells_inv m" and c: "m_call m i = Some c" "call_stage c = In_Cell kid cell st"
    and k: "m_kernel m kid = Some k"
    and k': "k_pending k' = removeAll cell (k_pending k)"
      "k_running_cell k' = (if k_running_cell k = Some cell then None else k_running_cell k)"
  shows "cells_inv (set_stage i (Release r) (on_kernel kid (\<lambda>_. k') m))" (is "cells_inv ?m")
proof -
  have calls: "calls_inv m" by (rule cells_calls [OF inv])
  have ok: "cells_ok m kid k" by (rule cells_kernel [OF inv k])
  have cell_i: "cell_of m i = Some (kid, cell)" using c by (simp add: cell_of_def)
  have only: "j = i \<and> d = cell" if "cell_of m j = Some (kid, d)" for j d
    using cell_of_unique [OF calls that cell_i] that cell_i by simp
  have cell_m: "cell_of ?m j = (if j = i then None else cell_of m j)" for j
    using c by (auto simp: cell_of_def)
  have wait_m: "wait_of ?m j = (if j = i then None else wait_of m j)" for j
    using c by (auto simp: wait_of_def)
  have pend: "set (k_pending k) \<subseteq> {cell}" using ok only by (auto simp: cells_ok_def)
  have run: "k_running_cell k = Some cell" using ok cell_i by (auto simp: cells_ok_def)
  have calls': "calls_inv ?m" by (rule calls_inv_on_kernel_stage [OF calls c(1)]) simp
  have "removeAll cell (k_pending k) = []" using pend by (auto simp: removeAll_filter_not_eq filter_empty_conv)
  then have "cells_ok ?m kid k'"
    using only run k' cell_of_wait [of m] unfolding cells_ok_def cell_m wait_m by auto
  moreover have "cells_ok ?m kid2 k2" if k2: "m_kernel m kid2 = Some k2" "kid2 \<noteq> kid" for kid2 k2
    using cells_kernel [OF inv k2(1)]
    by (rule cells_ok_same)
      (use k2(2) cell_i cell_of_wait [of m i] in \<open>auto simp: cell_m wait_m\<close>)
  ultimately show ?thesis
    using calls' by (auto simp: cells_inv_def split: if_splits)
qed

lemma cells_inv_launch:
  assumes inv: "cells_inv m" and c: "m_call m i = Some c" "call_stage c = Launch"
  shows "cells_inv (set_stage i (Install (m_next_kernel m))
           (m\<lparr>m_kernel := (m_kernel m)(m_next_kernel m := Some (kernel_new pid now)),
              m_next_kernel := m_next_kernel m + 1\<rparr>))" (is "cells_inv ?m")
proof -
  let ?n = "m_next_kernel m"
  have calls: "calls_inv m" by (rule cells_calls [OF inv])
  have cell_m: "cell_of ?m j = cell_of m j" "wait_of ?m j = wait_of m j" for j
    using c by (auto simp: cell_of_def wait_of_def)
  have none: "cell_of m j \<noteq> Some (?n, d)" for j d
    using cell_of_owns [of m j ?n d] owns_less [OF calls, of ?n] by auto
  have none_w: "wait_of m j \<noteq> Some (?n, d)" for j d
    using none cell_of_wait [of m j] by blast
  have "cells_ok ?m ?n (kernel_new pid now)"
    using none none_w unfolding cells_ok_def cell_m by (auto simp: kernel_new_def)
  moreover have "cells_ok ?m kid k" if "m_kernel m kid = Some k" for kid k
    using cells_kernel [OF inv that] by (rule cells_ok_same) (simp_all only: cell_m)
  ultimately show ?thesis
    using calls_inv_launch [OF calls c(1)] by (auto simp: cells_inv_def split: if_splits)
qed

lemma cells_inv_end:
  assumes inv: "cells_inv m" and c: "m_call m i = Some c" "stage_cell (call_stage c) = None"
  shows "cells_inv ((set_busy (call_slot c) False m)\<lparr>m_call := (m_call m)(i := None), m_replies := r\<rparr>)"
proof (rule cells_inv_mild [OF inv calls_inv_end [OF cells_calls [OF inv] c(1)]])
qed (use c in \<open>auto simp: cell_of_def wait_of_def split: if_splits\<close>)

lemma cells_inv_poll_start:
  assumes inv: "cells_inv m" and call: "m_call m i = Some c" and stage: "call_stage c = Start_Cell kid"
    and calls: "calls_inv (poll_call env i m)"
  shows "cells_inv (poll_call env i m)"
proof (cases "m_kernel m kid")
  case None
  with call stage inv show ?thesis by (simp add: poll_call_def)
next
  case k: (Some k)
  show ?thesis
  proof (cases rule: begin_cell_cases [of k])
    case (refused e)
    have "cells_inv (on_kernel kid (\<lambda>_. k\<lparr>k_cells := k_cells k + 1\<rparr>) m)"
      by (rule cells_inv_on_kernel [OF inv]) (use k in \<open>simp add: mild_same\<close>)
    with call stage k refused calls show ?thesis
      by (auto simp: poll_call_def intro!: cells_inv_stage [where c = c])
  next
    case (started cell)
    with call stage k show ?thesis
      by (auto simp: poll_call_def distinct_removeAll
          intro!: cells_inv_enter [OF inv call stage k])
  qed
qed

lemma cells_inv_poll_cell:
  assumes inv: "cells_inv m" and call: "m_call m i = Some c" and stage: "call_stage c = In_Cell kid cell st"
    and calls: "calls_inv (poll_call env i m)"
  shows "cells_inv (poll_call env i m)"
proof (cases "m_kernel m kid")
  case None
  with call stage inv show ?thesis by (simp add: poll_call_def)
next
  case k: (Some k)
  show ?thesis
  proof (cases "finished st")
    case True
    then obtain out where st: "st = Finish out" by (cases st) auto
    obtain r k' where fc: "finish_cell cell out k = (r, k')" by fastforce
    then have "k_pending k' = removeAll cell (k_pending k)"
      by (auto simp: finish_cell_def Let_def split: sum.splits)
    with fc st call stage k finish_cell_frame(1) [of cell out k] show ?thesis
      by (auto simp: poll_call_def intro!: cells_inv_leave [OF inv call stage k])
  next
    case False
    obtain st' k' where pc: "poll_cell cell (call_code c) (call_timeout c) (pe_timer env)
        (pe_elapsed env) st k = (st', k')" by fastforce
    have poll: "poll_call env i m =
        set_stage i (In_Cell kid cell st') (on_kernel kid (\<lambda>_. k') m)"
      using False call stage k pc by (cases st) (simp_all add: poll_call_def)
    have "mild k k'" using mild_poll_cell [of k cell] pc by (metis snd_conv)
    then have "cells_inv (on_kernel kid (\<lambda>_. k') m)"
      using k by (intro cells_inv_on_kernel [OF inv]) simp
    then show ?thesis
      using call stage False calls unfolding poll by (intro cells_inv_stage [where c = c]) auto
  qed
qed

lemma cells_inv_poll:
  assumes inv: "cells_inv m"
  shows "cells_inv (poll_call env i m)"
proof (cases "m_call m i")
  case None
  then show ?thesis using inv by (simp add: poll_call_def)
next
  case (Some c)
  have calls: "calls_inv (poll_call env i m)" by (rule calls_inv_poll [OF cells_calls [OF inv]])
  show ?thesis
  proof (cases "call_stage c")
    case Check
    with Some calls show ?thesis
      by (auto simp: poll_call_def split: bind_splits option.splits
          intro!: cells_inv_stage [OF inv Some])
  next
    case Launch
    with Some calls show ?thesis
      by (auto simp: poll_call_def Let_def simp del: One_nat_def split: sum.splits
          intro!: cells_inv_stage [OF inv Some] cells_inv_launch [OF inv Some Launch, simplified])
  next
    case (Install kid)
    have slot: "calls_inv (set_slot_kernel (call_slot c) (Some kid) m)"
      using cells_calls [OF inv] owns_stage [OF Some, of kid] Install
      by (intro calls_inv_set_slot_kernel) auto
    have "cells_inv (set_slot_kernel (call_slot c) (Some kid) m)"
      by (rule cells_inv_calls_same [OF inv slot]) simp_all
    with Some Install calls show ?thesis
      by (auto simp: poll_call_def intro!: cells_inv_stage)
  next
    case (Await_Ready kid)
    have "cells_inv (on_kernel kid kill m)"
      by (rule cells_inv_on_kernel [OF inv]) (rule mild_kernel_ops)
    with Some Await_Ready calls inv show ?thesis
      by (auto simp: poll_call_def split: option.splits chan.splits
          intro!: cells_inv_stage [OF inv Some] cells_inv_stage [where c = c])
  next
    case (Start_Cell kid)
    then show ?thesis using calls by (rule cells_inv_poll_start [OF inv Some])
  next
    case (In_Cell kid cell st)
    then show ?thesis using calls by (rule cells_inv_poll_cell [OF inv Some])
  next
    case (Release r)
    with Some show ?thesis using cells_inv_end [OF inv Some] by (simp add: poll_call_def)
  qed
qed

lemma cells_inv_begin:
  assumes inv: "cells_inv m"
  shows "cells_inv (snd (execute_begin d reg params m))"
proof (cases rule: execute_begin_cases [of d reg params m])
  case (refused e)
  obtain s m' where sm: "slot_for (ex_target params) m = (s, m')" by fastforce
  have "cells_inv m'"
    using slot_for_facts [OF cells_calls [OF inv] sm] by (intro cells_inv_calls_same [OF inv]) auto
  with refused(2) sm inv show ?thesis by auto
next
  case (started s m' c)
  note m' = slot_for_facts [OF cells_calls [OF inv] started(1)]
  have fresh: "m_call m' (m_next_call m') = None"
    using call_less [OF m'(1), of "m_next_call m'"] by fastforce
  have "calls_inv (snd (execute_begin d reg params m))"
    by (rule calls_inv_execute_begin [OF cells_calls [OF inv]])
  with started m' fresh show ?thesis
    by (intro cells_inv_mild [OF inv]) (auto simp: cell_of_def wait_of_def split: if_splits)
qed

lemma cells_inv_label:
  assumes inv: "cells_inv m" and "\<not> is_cancel l"
  shows "cells_inv (apply_label l m)"
proof -
  have calls: "calls_inv (apply_label l m)" by (rule calls_inv_label [OF cells_calls [OF inv]])
  note same = cells_inv_calls_same [OF inv]
  show ?thesis
  proof (cases l)
    case (Begin d reg params)
    then show ?thesis using cells_inv_begin [OF inv] by simp
  next
    case (Poll i env)
    then show ?thesis using cells_inv_poll [OF inv] by simp
  next
    case (Cancel i)
    with assms(2) show ?thesis by simp
  next
    case (Interrupt_Target t)
    have "cells_inv (on_kernel kid (\<lambda>_. snd (interrupt k)) m)" if "m_kernel m kid = Some k" for kid k
      by (rule cells_inv_on_kernel [OF inv]) (use that mild_kernel_ops(3) in auto)
    with Interrupt_Target inv show ?thesis by (auto simp: manager_interrupt_def split: option.splits)
  next
    case (Restart t)
    have "cells_inv (set_slot_kernel s None m)" for s
      by (rule same) (auto intro!: calls_inv_set_slot_kernel cells_calls [OF inv])
    with Restart inv show ?thesis
      by (auto simp: manager_restart_def split: option.splits intro: cells_inv_stop_kernel)
  next
    case (Shutdown_Target t)
    have "cells_inv (set_slot_kernel s None (m\<lparr>m_slots := bm_remove key (m_slots m)\<rparr>))" for s key
      by (rule same)
        (auto intro!: calls_inv_set_slot_kernel calls_inv_forget cells_calls [OF inv])
    with Shutdown_Target inv show ?thesis
      by (auto simp: shutdown_target_def split: option.splits intro: cells_inv_stop_kernel)
  next
    case Stop_All
    then show ?thesis using cells_inv_stop_all [OF inv] by simp
  qed (auto intro!: cells_inv_on_kernel [OF inv] mild_kernel_ops mild_dispatch)
qed

text \<open>More than one unanswered cell on a kernel.\<close>

definition overlapping :: "'v manager \<Rightarrow> bool" where
  "overlapping m \<longleftrightarrow> (\<exists>kid k. m_kernel m kid = Some k \<and> 1 < length (k_pending k))"

lemma cells_not_overlapping:
  assumes inv: "cells_inv m"
  shows "\<not> overlapping m"
proof -
  have "length (k_pending k) \<le> 1" if k: "m_kernel m kid = Some k" for kid k
  proof -
    have ok: "cells_ok m kid k" by (rule cells_kernel [OF inv k])
    have "x = y" if xy: "x \<in> set (k_pending k)" "y \<in> set (k_pending k)" for x y
    proof -
      obtain i j where i: "cell_of m i = Some (kid, x)" and j: "cell_of m j = Some (kid, y)"
        using ok xy unfolding cells_ok_def by blast
      with cell_of_unique [OF cells_calls [OF inv] i j] show ?thesis by simp
    qed
    then have "set (k_pending k) \<subseteq> {hd (k_pending k)}" by (cases "k_pending k") auto
    then have "card (set (k_pending k)) \<le> card {hd (k_pending k)}" by (intro card_mono) auto
    then have "card (set (k_pending k)) \<le> 1" by simp
    moreover have "distinct (k_pending k)" using ok by (simp add: cells_ok_def)
    ultimately show ?thesis by (simp add: distinct_card)
  qed
  then show ?thesis unfolding overlapping_def by (metis not_less)
qed

lemma cells_inv_default: "cells_inv manager_default"
  by (simp add: cells_inv_def calls_inv_default) (simp add: manager_default_def)

interpretation cells: safety "\<lambda>m. m = manager_default" "manager_step (\<lambda>l. \<not> is_cancel l)"
    cells_inv overlapping
  by unfold_locales
    (auto simp: cells_inv_default cells_not_overlapping intro: cells_inv_label elim!: manager_stepE)

end
