(* ===== verification/Kernel_Props.thy ===== *)
theory Kernel_Props
  imports Kernel_Cells
begin

text \<open>
  The guarantees of the kernel manager: one cell per kernel, bounded replies that are given once,
  the timeout of a cell, and the run in which a dropped future breaks the first of them.
\<close>

section \<open>Replies\<close>

definition replies_inv :: "'v manager \<Rightarrow> bool" where
  "replies_inv m \<longleftrightarrow>
     (\<forall>i r. (i, Inr r) \<in> set (m_replies m) \<longrightarrow> within_bounds r) \<and>
     (\<forall>i c r. m_call m i = Some c \<longrightarrow> call_stage c = Release (Inr r) \<longrightarrow> within_bounds r) \<and>
     distinct (map fst (m_replies m)) \<and>
     (\<forall>i \<in> fst ` set (m_replies m). i < m_next_call m \<and> m_call m i = None) \<and>
     (\<forall>i. m_call m i \<noteq> None \<longrightarrow> i < m_next_call m)"

lemma finish_cell_within: "finish_cell cell outcome k = (Inr r, k') \<Longrightarrow> within_bounds r"
  by (auto simp: finish_cell_def Let_def within_bounds_enforce split: sum.splits)

text \<open>A change that answers nothing.\<close>

lemma replies_inv_mono:
  assumes "replies_inv m" "m_replies m' = m_replies m" "m_next_call m \<le> m_next_call m'"
    and "\<And>i. m_call m' i \<noteq> None \<Longrightarrow> m_call m i \<noteq> None \<or> (m_next_call m \<le> i \<and> i < m_next_call m')"
    and "\<And>i c r. m_call m' i = Some c \<Longrightarrow> call_stage c = Release (Inr r) \<Longrightarrow>
           (\<exists>d. m_call m i = Some d \<and> call_stage d = Release (Inr r)) \<or> within_bounds r"
  shows "replies_inv m'"
proof -
  have "within_bounds r" if "m_call m' i = Some c" "call_stage c = Release (Inr r)" for i c r
    using assms(5) [OF that] assms(1) unfolding replies_inv_def by blast
  moreover have "i < m_next_call m' \<and> m_call m' i = None" if "i \<in> fst ` set (m_replies m)" for i
  proof -
    have "i < m_next_call m" "m_call m i = None" using assms(1) that unfolding replies_inv_def by auto
    then show ?thesis using assms(3) assms(4) [of i] by fastforce
  qed
  moreover have "i < m_next_call m'" if "m_call m' i \<noteq> None" for i
    using assms(4) [OF that] assms(1,3) unfolding replies_inv_def by fastforce
  ultimately show ?thesis
    using assms(1,2) unfolding replies_inv_def by simp
qed

lemma replies_inv_same:
  "replies_inv m \<Longrightarrow> m_replies m' = m_replies m \<Longrightarrow> m_call m' = m_call m \<Longrightarrow>
     m_next_call m' = m_next_call m \<Longrightarrow> replies_inv m'"
  by (simp add: replies_inv_def)

lemma replies_frames [simp]:
  "m_replies (on_kernel kid f m) = m_replies m" "m_replies (set_slot_kernel s k m) = m_replies m"
  "m_replies (set_busy s b m) = m_replies m" "m_replies (set_stage i st m) = m_replies m"
  by (simp_all add: on_kernel_def set_slot_kernel_def set_busy_def set_stage_def)

lemma replies_inv_stage:
  assumes "replies_inv m" "\<And>r. st = Release (Inr r) \<Longrightarrow> within_bounds r"
  shows "replies_inv (set_stage i st m)"
  using assms by (intro replies_inv_mono [OF assms(1)]) (auto split: if_splits)

lemma replies_inv_on_kernel [simp]: "replies_inv (on_kernel kid f m) = replies_inv m"
  by (simp add: replies_inv_def)

lemma replies_inv_slot_kernel [simp]: "replies_inv (set_slot_kernel s k m) = replies_inv m"
  by (simp add: replies_inv_def)

lemma replies_inv_end:
  assumes inv: "replies_inv m" and c: "m_call m i = Some c"
  shows "replies_inv ((set_busy s b m)\<lparr>m_call := (m_call m)(i := None)\<rparr>)"
    and "call_stage c = Release r \<Longrightarrow>
      replies_inv ((set_busy s b m)\<lparr>m_call := (m_call m)(i := None), m_replies := m_replies m @ [(i, r)]\<rparr>)"
proof -
  show "replies_inv ((set_busy s b m)\<lparr>m_call := (m_call m)(i := None)\<rparr>)"
    by (rule replies_inv_mono [OF inv]) (auto split: if_splits)
  have "i \<notin> fst ` set (m_replies m)" "i < m_next_call m"
    using inv c unfolding replies_inv_def by fastforce+
  moreover have "within_bounds x" if "call_stage c = Release (Inr x)" for x
    using inv c that unfolding replies_inv_def by blast
  ultimately show "call_stage c = Release r \<Longrightarrow>
      replies_inv ((set_busy s b m)\<lparr>m_call := (m_call m)(i := None), m_replies := m_replies m @ [(i, r)]\<rparr>)"
    using inv unfolding replies_inv_def by (auto split: if_splits)
qed

lemma replies_inv_poll:
  assumes inv: "replies_inv m"
  shows "replies_inv (poll_call env i m)"
proof (cases "m_call m i")
  case None
  then show ?thesis using inv by (simp add: poll_call_def)
next
  case (Some c)
  show ?thesis
  proof (cases "call_stage c")
    case Launch
    have "replies_inv (m\<lparr>m_kernel := f, m_next_kernel := n\<rparr>)" for f n
      by (rule replies_inv_same [OF inv]) simp_all
    with Some Launch inv show ?thesis
      by (auto simp: poll_call_def Let_def split: sum.splits intro!: replies_inv_stage)
  next
    case (In_Cell kid cell st)
    with Some inv show ?thesis
      by (auto simp: poll_call_def split: option.splits cell_stage.splits prod.splits
          intro!: replies_inv_stage dest: finish_cell_within)
  next
    case (Release r)
    with Some replies_inv_end(2) [OF inv Some] show ?thesis by (simp add: poll_call_def)
  qed (use Some inv in \<open>auto simp: poll_call_def split: option.splits bind_splits chan.splits
      prod.splits sum.splits intro!: replies_inv_stage\<close>)
qed

lemma slot_for_frame:
  "slot_for t m = (s, m') \<Longrightarrow>
     m_call m' = m_call m \<and> m_replies m' = m_replies m \<and> m_next_call m' = m_next_call m"
  by (auto simp: slot_for_def split: option.splits)

lemma replies_inv_begin:
  assumes inv: "replies_inv m"
  shows "replies_inv (snd (execute_begin d reg params m))"
proof (cases rule: execute_begin_cases [of d reg params m])
  case (refused e)
  obtain s m' where sm: "slot_for (ex_target params) m = (s, m')" by fastforce
  have "replies_inv m'"
    using slot_for_frame [OF sm] by (intro replies_inv_same [OF inv]) auto
  with refused(2) sm inv show ?thesis by auto
next
  case (started s m' c)
  then show ?thesis
    using slot_for_frame [OF started(1)]
    by (intro replies_inv_mono [OF inv]) (auto split: if_splits)
qed

lemma replies_inv_label: "replies_inv m \<Longrightarrow> replies_inv (apply_label l m)"
proof (cases l)
  case (Cancel i)
  assume "replies_inv m"
  with Cancel replies_inv_end(1) [of m i] show ?thesis
    by (auto simp: cancel_call_def split: option.splits)
next
  case (Shutdown_Target t)
  assume inv: "replies_inv m"
  have "replies_inv (m\<lparr>m_slots := x\<rparr>)" for x by (rule replies_inv_same [OF inv]) simp_all
  with Shutdown_Target inv show ?thesis
    by (auto simp: shutdown_target_def stop_kernel_def split: option.splits)
next
  case Stop_All
  assume inv: "replies_inv m"
  have "replies_inv m \<Longrightarrow> replies_inv (fold (\<lambda>kid. on_kernel kid f) kids m)" for kids f
    by (induction kids arbitrary: m) simp_all
  with Stop_All inv show ?thesis by (simp add: stop_all_def)
qed (auto simp: manager_interrupt_def manager_restart_def stop_kernel_def split: option.splits
    intro: replies_inv_begin replies_inv_poll)

lemma replies_inv_default: "replies_inv manager_default"
  by (simp add: replies_inv_def manager_default_def)

interpretation replies: inductive_invariant "\<lambda>m. m = manager_default" "manager_step allowed"
    replies_inv for allowed :: "'v label \<Rightarrow> bool"
  by unfold_locales (auto intro: replies_inv_default replies_inv_label elim!: manager_stepE)

section \<open>The timeout of a cell\<close>

text \<open>A poll that cannot stay where it is: the timer fired and the writer has room or is gone.\<close>

fun pressing :: "bool \<times> nat \<times> 'v kernel \<Rightarrow> bool" where
  "pressing (timer, elapsed, k) \<longleftrightarrow> timer \<and> (k_writer k \<longrightarrow> length (k_queue k) < CHANNEL)"

fun stage_rank :: "cell_stage \<Rightarrow> nat" where
  "stage_rank Send_Execute = 5"
| "stage_rank Await_Result = 4"
| "stage_rank Send_Interrupt = 3"
| "stage_rank Await_Grace = 2"
| "stage_rank Await_Exit = 1"
| "stage_rank (Finish r) = 0"

lemma poll_cell_rank:
  "stage_rank (fst (poll_cell cell src t timer el st k)) \<le> stage_rank st"
  "pressing (timer, el, k) \<Longrightarrow> stage_rank (fst (poll_cell cell src t timer el st k)) \<le> stage_rank st - 1"
  by (auto simp: poll_cell_def split: cell_stage.splits chan.splits)

section \<open>Properties\<close>

text \<open>
  C1. One cell at a time: in every run in which no execute future is dropped, a kernel never has
  more than one cell to answer, whatever the kernels, the writer tasks, interrupts, restarts and
  shutdowns do in between.
\<close>

theorem one_cell_per_kernel:
  assumes "reach (\<lambda>m. m = manager_default) (manager_step (\<lambda>l. \<not> is_cancel l)) m"
  shows "\<not> overlapping m"
  using assms by (rule cells.never_bad)

text \<open>
  C10. With dropped futures the slot discipline still holds: a busy flag belongs to exactly one call
  in flight, and a kernel to one slot.
\<close>

theorem busy_flag_exclusive:
  assumes "reach (\<lambda>m. m = manager_default) (manager_step allowed) m"
  shows "(\<forall>s. s_busy (m_slot m s) \<longleftrightarrow> (\<exists>i c. m_call m i = Some c \<and> call_slot c = s)) \<and>
    (\<forall>i j c d. m_call m i = Some c \<longrightarrow> m_call m j = Some d \<longrightarrow> call_slot c = call_slot d \<longrightarrow> i = j) \<and>
    (\<forall>s s' kid. s_kernel (m_slot m s) = Some kid \<longrightarrow> s_kernel (m_slot m s') = Some kid \<longrightarrow> s = s')"
proof -
  have inv: "calls_inv m" using assms by (rule calls.reach_inv)
  have "owns m kid s" if "s_kernel (m_slot m s) = Some kid" for s kid
    using that by (simp add: owns_def)
  then show ?thesis
    using call_busy [OF inv] busy_call [OF inv] call_unique [OF inv] owns_unique [OF inv] by blast
qed

text \<open>
  Every cell result a client receives is within the wire bounds, and a call is answered at most
  once, never after it has left.
\<close>

theorem replies_bounded_once:
  assumes "reach (\<lambda>m. m = manager_default) (manager_step allowed) m"
  shows "(\<forall>i r. (i, Inr r) \<in> set (m_replies m) \<longrightarrow> within_bounds r) \<and>
    distinct (map fst (m_replies m)) \<and> (\<forall>i \<in> fst ` set (m_replies m). m_call m i = None)"
proof -
  have "replies_inv m" using assms by (rule replies.reach_inv)
  then show ?thesis unfolding replies_inv_def by auto
qed

text \<open>
  No waiter is lost: in a run without dropped futures, a call that waits for its cell has the
  kernel marked as running that cell, and either the kernel still holds the sender of its channel
  or the channel already has a value or is closed; after the exit of the process it is not open.
\<close>

theorem waiter_not_lost:
  assumes "reach (\<lambda>m. m = manager_default) (manager_step (\<lambda>l. \<not> is_cancel l)) m"
    and "m_call m i = Some c" "call_stage c = In_Cell kid cell st" "\<not> finished st"
    and "m_kernel m kid = Some k"
  shows "k_running_cell k = Some cell \<and>
    (cell \<in> set (k_pending k) \<or> k_results k cell \<noteq> Open) \<and>
    k_results (snd (on_exit k)) cell \<noteq> Open"
proof -
  have "cells_ok m kid k"
    using assms(5) by (rule cells_kernel [OF cells.reach_inv [OF assms(1)]])
  moreover have "cell_of m i = Some (kid, cell)" "wait_of m i = Some (kid, cell)"
    using assms(2-4) by (simp_all add: cell_of_def wait_of_def)
  ultimately have "k_running_cell k = Some cell"
      "cell \<in> set (k_pending k) \<or> k_results k cell \<noteq> Open"
    by (auto simp: cells_ok_def)
  then show ?thesis by (auto simp: on_exit_def drop_senders_def Let_def)
qed

section \<open>A dropped future\<close>

text \<open>
  A client starts a cell, disconnects while it runs, and a second execute is sent for the same
  target. \<open>poll_now\<close> is a poll with no timer; the launch gives pid 7.
\<close>

definition poll_now :: poll_env where
  "poll_now = \<lparr>pe_timer = False, pe_elapsed = 0, pe_launched = Inr (7, 0), pe_ready_sec = 60\<rparr>"

definition demo_target :: target where
  "demo_target = \<lparr>t_kind = PiSession, t_id = ''s''\<rparr>"

definition demo_begin :: "unit label" where
  "demo_begin =
     Begin 300
       (Some (\<lparr>tr_target = demo_target, tr_cwd = ''/w'', tr_host = \<lparr>h_name = Host_Pi, h_version = None, h_supports_children = False\<rparr>,
               tr_model = None\<rparr>, 0))
       \<lparr>ex_target = demo_target, ex_code = ''x = 1'', ex_timeout_sec = None\<rparr>"

definition demo_cell :: "nat \<Rightarrow> unit label list" where
  "demo_cell i =
     [demo_begin, Poll i poll_now, Poll i poll_now, Poll i poll_now,
      From_Process 0 (Ready 7 ''3.12'' KERNEL_PROTOCOL_VERSION),
      Poll i poll_now, Poll i poll_now, Poll i poll_now]"

definition demo_disconnect :: "unit label list" where
  "demo_disconnect = demo_cell 0 @ [Cancel 0] @ [demo_begin, Poll 1 poll_now, Poll 1 poll_now, Poll 1 poll_now]"

lemma run_labels_reach:
  assumes "list_all allowed ls"
  shows "reach (\<lambda>m. m = manager_default) (manager_step allowed) (run_labels ls)"
proof -
  have "reach (\<lambda>m. m = manager_default) (manager_step allowed) (fold apply_label ls m)"
    if "reach (\<lambda>m. m = manager_default) (manager_step allowed) m" for m
    using assms that
    by (induction ls arbitrary: m) (auto intro: reach.intros manager_step.intros)
  then show ?thesis unfolding run_labels_def by (auto intro: reach.intros)
qed

lemmas manager_eval = run_labels_def demo_disconnect_def demo_cell_def demo_begin_def
  demo_target_def poll_now_def manager_default_def execute_begin_def slot_for_def Let_def
  poll_call_def set_stage_def set_busy_def set_slot_kernel_def on_kernel_def kernel_new_def
  is_ready_def kernel_dispatch_def on_ready_def begin_cell_def poll_cell_def cancel_call_def
  slot_default_def clamp_timeout_def KERNEL_PROTOCOL_VERSION_def CELL_CODE_def
  MAX_TIMEOUT_SEC_def CHANNEL_def sat_succ_def

lemma dec_one: "dec (Suc 0) = ''1''" "dec 2 = ''2''"
  by (simp_all add: dec.simps [of "Suc 0"] dec.simps [of 2] digits10_def)

lemma demo_cell_reach:
  "reach (\<lambda>m. m = manager_default) (manager_step (\<lambda>l. \<not> is_cancel l)) (run_labels (demo_cell 0))"
  by (rule run_labels_reach) (simp add: demo_cell_def demo_begin_def)

theorem one_cell_per_kernel_witness:
  "\<not> overlapping (run_labels (demo_cell 0))"
  by (rule one_cell_per_kernel [OF demo_cell_reach])

theorem busy_flag_exclusive_witness:
  "s_busy (m_slot (run_labels (demo_cell 0)) 0) \<longleftrightarrow>
     (\<exists>i c. m_call (run_labels (demo_cell 0)) i = Some c \<and> call_slot c = 0)"
  using busy_flag_exclusive [OF demo_cell_reach] by blast

definition demo_result :: cell_result where
  "demo_result = cell_result_empty Cell_Ok 1 5"

definition demo_answer :: "unit label list" where
  "demo_answer =
     demo_cell 0 @ [From_Process 0 (ExecuteResult ''x1'' demo_result), Poll 0 poll_now,
                    Poll 0 poll_now, Poll 0 poll_now]"

lemma demo_answer_replies:
  "m_replies (run_labels demo_answer) = [(0, Inr (enforce_bounds demo_result))]"
  by (simp add: demo_answer_def manager_eval on_result_def finish_cell_def dec_one)

lemma demo_answer_reach:
  "reach (\<lambda>m. m = manager_default) (manager_step (\<lambda>l. \<not> is_cancel l)) (run_labels demo_answer)"
  by (rule run_labels_reach) (simp add: demo_answer_def demo_cell_def demo_begin_def)

theorem replies_bounded_once_witness: "within_bounds (enforce_bounds demo_result)"
  using replies_bounded_once [OF demo_answer_reach] by (simp add: demo_answer_replies)

theorem waiter_not_lost_witness:
  "\<exists>k. m_kernel (run_labels (demo_cell 0)) 0 = Some k \<and> k_running_cell k = Some ''x1''"
proof -
  have call: "\<exists>c. m_call (run_labels (demo_cell 0)) 0 = Some c \<and>
      call_stage c = In_Cell 0 ''x1'' Await_Result"
    by (simp add: manager_eval dec_one)
  have kern: "\<exists>k. m_kernel (run_labels (demo_cell 0)) 0 = Some k"
    by (simp add: manager_eval)
  show ?thesis
    using call kern waiter_not_lost [OF demo_cell_reach, of 0 _ 0 "''x1''" Await_Result] by auto
qed

text \<open>
  C36. A dropped execute future releases the slot while its cell still runs: the next execute for
  the target is accepted, and the kernel is sent a second cell while the first has no result.
\<close>

theorem dropped_future_overlaps:
  "reach (\<lambda>m. m = manager_default) (manager_step (\<lambda>_. True)) (run_labels demo_disconnect) \<and>
   overlapping (run_labels demo_disconnect) \<and>
   (\<exists>k. m_kernel (run_labels demo_disconnect) 0 = Some k \<and> k_pending k = [''x2'', ''x1''] \<and>
        k_queue k = [Execute ''x1'' ''x = 1'' 300000, Execute ''x2'' ''x = 1'' 300000])"
proof -
  have "\<exists>k. m_kernel (run_labels demo_disconnect) 0 = Some k \<and> k_pending k = [''x2'', ''x1''] \<and>
      k_queue k = [Execute ''x1'' ''x = 1'' 300000, Execute ''x2'' ''x = 1'' 300000]"
    by (simp add: manager_eval millis_u64_def dec_one)
  moreover from this have "overlapping (run_labels demo_disconnect)"
    unfolding overlapping_def by fastforce
  moreover have "reach (\<lambda>m. m = manager_default) (manager_step (\<lambda>_. True)) (run_labels demo_disconnect)"
    by (rule run_labels_reach) (simp add: list_all_iff)
  ultimately show ?thesis by blast
qed

end
