(* ===== verification/Kernel_Progress.thy ===== *)
theory Kernel_Progress
  imports Kernel_Props Progress
begin

text \<open>
  An execute call is answered: from its first check to the release of the busy flag it needs twelve
  polls that find a timer fired and room in the channel, whatever else happens to the manager.
\<close>

fun call_stage_rank :: "call_stage \<Rightarrow> nat" where
  "call_stage_rank Check = 12"
| "call_stage_rank Launch = 11"
| "call_stage_rank (Install kid) = 10"
| "call_stage_rank (Await_Ready kid) = 9"
| "call_stage_rank (Start_Cell kid) = 8"
| "call_stage_rank (In_Cell kid cell st) = 2 + stage_rank st"
| "call_stage_rank (Release r) = 1"

definition call_rank :: "nat \<Rightarrow> 'v manager \<Rightarrow> nat" where
  "call_rank i m = (case m_call m i of None \<Rightarrow> 0 | Some c \<Rightarrow> call_stage_rank (call_stage c))"

text \<open>A poll of the call at which its timer has fired and the writer of its kernel has room or is gone.\<close>

definition has_room :: "'v manager \<Rightarrow> nat \<Rightarrow> bool" where
  "has_room m kid \<longleftrightarrow>
     (\<forall>k. m_kernel m kid = Some k \<longrightarrow> k_writer k \<longrightarrow> length (k_queue k) < CHANNEL)"

fun presses :: "nat \<Rightarrow> 'v label \<Rightarrow> 'v manager \<Rightarrow> bool" where
  "presses i (Poll j env) m \<longleftrightarrow> j = i \<and> pe_timer env \<and>
     (\<forall>c kid. m_call m i = Some c \<longrightarrow> stage_kernel (call_stage c) = Some kid \<longrightarrow> has_room m kid)"
| "presses i _ m \<longleftrightarrow> False"

definition answered_or_open :: "nat \<Rightarrow> 'v manager \<Rightarrow> bool" where
  "answered_or_open i m \<longleftrightarrow> calls_inv m \<and> i < m_next_call m \<and>
     (m_call m i = None \<longrightarrow> (\<exists>r. (i, r) \<in> set (m_replies m)))"

lemma stage_rank_le: "stage_rank st \<le> 5"
  by (cases st) auto

lemma call_rank_le: "call_rank i m \<le> 12"
proof (cases "m_call m i")
  case (Some c)
  have "call_stage_rank (call_stage c) \<le> 12"
  proof (cases "call_stage c")
    case (In_Cell kid cell st)
    then show ?thesis using stage_rank_le [of st] by simp
  qed simp_all
  with Some show ?thesis by (simp add: call_rank_def)
qed (simp add: call_rank_def)

text \<open>What a poll of the call itself does: the outcome of its stage, with the kernel it is about.\<close>

lemma poll_stage_rank:
  assumes c: "m_call m i = Some c"
    and kernel: "\<And>kid. stage_kernel (call_stage c) = Some kid \<Longrightarrow> m_kernel m kid \<noteq> None"
  shows "call_rank i (poll_call env i m) \<le> call_rank i m"
    and "pe_timer env \<Longrightarrow> (\<And>kid. stage_kernel (call_stage c) = Some kid \<Longrightarrow> has_room m kid) \<Longrightarrow>
      call_rank i (poll_call env i m) < call_rank i m"
proof -
  have "call_rank i (poll_call env i m) \<le> call_rank i m \<and>
    (pe_timer env \<longrightarrow> (\<forall>kid. stage_kernel (call_stage c) = Some kid \<longrightarrow> has_room m kid) \<longrightarrow>
      call_rank i (poll_call env i m) < call_rank i m)"
  proof (cases "call_stage c")
    case (Await_Ready kid)
    with kernel obtain k where "m_kernel m kid = Some k" by fastforce
    with c Await_Ready show ?thesis by (cases "k_ready k") (simp_all add: poll_call_def call_rank_def)
  next
    case (Start_Cell kid)
    with kernel obtain k where "m_kernel m kid = Some k" by fastforce
    with c Start_Cell show ?thesis
      by (auto simp: poll_call_def call_rank_def split: prod.splits sum.splits)
  next
    case (In_Cell kid cell st)
    with kernel obtain k where k: "m_kernel m kid = Some k" by fastforce
    show ?thesis
    proof (cases "finished st")
      case True
      with c In_Cell k show ?thesis
        by (cases st) (auto simp: poll_call_def call_rank_def split: prod.splits)
    next
      case False
      obtain st' k' where p: "poll_cell cell (call_code c) (call_timeout c) (pe_timer env) (pe_elapsed env) st k = (st', k')"
        by fastforce
      have "poll_call env i m = set_stage i (In_Cell kid cell st') (on_kernel kid (\<lambda>_. k') m)"
        using False c In_Cell k p by (cases st) (simp_all add: poll_call_def)
      moreover have "stage_rank st > 0" using False by (cases st) simp_all
      ultimately show ?thesis
        using c In_Cell k p poll_cell_rank(1) [of cell "call_code c" "call_timeout c" "pe_timer env" "pe_elapsed env" st k]
          poll_cell_rank(2) [of "pe_timer env" "pe_elapsed env" k cell "call_code c" "call_timeout c" st]
        by (auto simp: call_rank_def has_room_def)
    qed
  qed (use c in \<open>auto simp: poll_call_def call_rank_def Let_def split: bind_splits option.splits sum.splits\<close>)
  then show "call_rank i (poll_call env i m) \<le> call_rank i m"
    and "pe_timer env \<Longrightarrow> (\<And>kid. stage_kernel (call_stage c) = Some kid \<Longrightarrow> has_room m kid) \<Longrightarrow>
      call_rank i (poll_call env i m) < call_rank i m" by blast+
qed

text \<open>A poll moves its call to another stage or answers it.\<close>

definition same_calls :: "'v manager \<Rightarrow> 'v manager \<Rightarrow> bool" where
  "same_calls m m' \<longleftrightarrow>
     m_call m' = m_call m \<and> m_next_call m' = m_next_call m \<and> m_replies m' = m_replies m"

definition stage_only :: "poll_env \<Rightarrow> nat \<Rightarrow> 'v manager \<Rightarrow> bool" where
  "stage_only env j m \<longleftrightarrow>
     (\<exists>m'. same_calls m m' \<and> (poll_call env j m = m' \<or> (\<exists>st. poll_call env j m = set_stage j st m')))"

lemma stage_only_kernel:
  assumes c: "m_call m j = Some c" and st: "call_stage c = Start_Cell kid \<or> call_stage c = In_Cell kid cell st"
    and working: "\<And>r. call_stage c \<noteq> Release r"
  shows "stage_only env j m"
proof (cases "m_kernel m kid")
  case None
  with c st show ?thesis by (auto simp: stage_only_def poll_call_def same_calls_def)
next
  case k: (Some k)
  have sc: "same_calls m (on_kernel kid f m)" for f by (simp add: same_calls_def)
  from st show ?thesis
  proof
    assume "call_stage c = In_Cell kid cell st"
    then show ?thesis
      using c k sc by (cases st) (auto simp: stage_only_def poll_call_def split: prod.splits intro!: exI)
  next
    assume start: "call_stage c = Start_Cell kid"
    obtain r k' where b: "begin_cell k = (r, k')" by fastforce
    then have "\<exists>st. poll_call env j m = set_stage j st (on_kernel kid (\<lambda>_. k') m)"
      using c start k by (cases r) (auto simp: poll_call_def)
    then show ?thesis using sc unfolding stage_only_def by blast
  qed
qed

lemma stage_only_working:
  assumes c: "m_call m j = Some c" and working: "\<And>r. call_stage c \<noteq> Release r"
  shows "stage_only env j m"
proof (cases "call_stage c")
  case (Await_Ready kid)
  have "same_calls m (on_kernel kid f m)" "same_calls m m" for f by (simp_all add: same_calls_def)
  then show ?thesis
    using c Await_Ready by (cases "m_kernel m kid") (force simp: stage_only_def poll_call_def split: chan.splits)+
next
  case Launch
  have "same_calls m (m\<lparr>m_kernel := f, m_next_kernel := n\<rparr>)" "same_calls m m" for f n
    by (simp_all add: same_calls_def)
  then show ?thesis using c Launch by (force simp: stage_only_def poll_call_def Let_def split: sum.splits)
next
  case Check
  have "same_calls m m" by (simp add: same_calls_def)
  then show ?thesis using c Check by (force simp: stage_only_def poll_call_def split: option.splits bind_splits)
next
  case (Install kid)
  have "same_calls m (set_slot_kernel s k m)" for s k by (simp add: same_calls_def)
  then show ?thesis using c Install by (force simp: stage_only_def poll_call_def)
qed (use stage_only_kernel [OF c] working in auto)

lemma poll_call_cases:
  obtains (same) m' where "same_calls m m'" "poll_call env j m = m'"
    | (stage) m' st where "same_calls m m'" "poll_call env j m = set_stage j st m'"
    | (answer) c r where "m_call m j = Some c"
        "poll_call env j m = (set_busy (call_slot c) False m)\<lparr>m_call := (m_call m)(j := None),
           m_replies := m_replies m @ [(j, r)]\<rparr>"
proof (cases "m_call m j")
  case None
  then show ?thesis using same [of m] by (simp add: poll_call_def same_calls_def)
next
  case (Some c)
  have "stage_only env j m \<or> (\<exists>r. call_stage c = Release r)"
    using stage_only_working [OF Some] by blast
  then show ?thesis
    using same stage answer [OF Some] Some by (auto simp: stage_only_def poll_call_def)
qed

lemma poll_call_calls:
  "j \<noteq> i \<Longrightarrow> m_call (poll_call env j m) i = m_call m i"
  "m_call m i \<noteq> None \<Longrightarrow> m_call (poll_call env i m) i = None \<Longrightarrow>
     \<exists>r. (i, r) \<in> set (m_replies (poll_call env i m))"
  "set (m_replies m) \<subseteq> set (m_replies (poll_call env j m))"
  "m_next_call (poll_call env j m) = m_next_call m"
  subgoal by (cases rule: poll_call_cases [of m env j]) (auto simp: same_calls_def)
  subgoal by (cases rule: poll_call_cases [of m env i]) (auto simp: same_calls_def)
  subgoal by (cases rule: poll_call_cases [of m env j]) (auto simp: same_calls_def)
  subgoal by (cases rule: poll_call_cases [of m env j]) (auto simp: same_calls_def)
  done

lemma begin_calls:
  assumes "i < m_next_call m"
  shows "m_call (snd (execute_begin d reg params m)) i = m_call m i"
    and "m_next_call m \<le> m_next_call (snd (execute_begin d reg params m))"
    and "m_replies (snd (execute_begin d reg params m)) = m_replies m"
proof -
  obtain s m' where sm: "slot_for (ex_target params) m = (s, m')" by fastforce
  have "m_call (snd (execute_begin d reg params m)) i = m_call m i \<and>
      m_next_call m \<le> m_next_call (snd (execute_begin d reg params m)) \<and>
      m_replies (snd (execute_begin d reg params m)) = m_replies m"
    using sm slot_for_frame [OF sm] assms
    by (cases rule: execute_begin_cases [of d reg params m]) auto
  then show "m_call (snd (execute_begin d reg params m)) i = m_call m i"
    and "m_next_call m \<le> m_next_call (snd (execute_begin d reg params m))"
    and "m_replies (snd (execute_begin d reg params m)) = m_replies m" by simp_all
qed

lemma fold_kernel_calls:
  "m_call (fold (\<lambda>kid. on_kernel kid f) kids m) = m_call m \<and>
   m_next_call (fold (\<lambda>kid. on_kernel kid f) kids m) = m_next_call m \<and>
   m_replies (fold (\<lambda>kid. on_kernel kid f) kids m) = m_replies m"
  by (induction kids arbitrary: m) simp_all

text \<open>What every other label does to the call: nothing; and a reply stays.\<close>

lemma other_label_call:
  assumes "i < m_next_call m" "l \<noteq> Cancel i"
  shows "(\<forall>env. l \<noteq> Poll i env) \<Longrightarrow> m_call (apply_label l m) i = m_call m i"
    and "set (m_replies m) \<subseteq> set (m_replies (apply_label l m))"
    and "m_next_call m \<le> m_next_call (apply_label l m)"
proof -
  have "((\<forall>env. l \<noteq> Poll i env) \<longrightarrow> m_call (apply_label l m) i = m_call m i) \<and>
      set (m_replies m) \<subseteq> set (m_replies (apply_label l m)) \<and> m_next_call m \<le> m_next_call (apply_label l m)"
    using assms
    by (cases l) (auto simp: poll_call_calls begin_calls fold_kernel_calls cancel_call_def manager_interrupt_def
        manager_restart_def shutdown_target_def stop_kernel_def stop_all_def
        dest: subsetD [OF poll_call_calls(3)] split: option.splits)
  then show "(\<forall>env. l \<noteq> Poll i env) \<Longrightarrow> m_call (apply_label l m) i = m_call m i"
    and "set (m_replies m) \<subseteq> set (m_replies (apply_label l m))"
    and "m_next_call m \<le> m_next_call (apply_label l m)" by blast+
qed

interpretation call_progress: progress apply_label "\<lambda>l. l \<noteq> Cancel i" "presses i" "answered_or_open i" "call_rank i"
  for i
proof
  fix m :: "'v manager" and l :: "'v label"
  assume inv: "answered_or_open i m" and l: "l \<noteq> Cancel i"
  have keeps: "calls_inv (apply_label l m)" using inv by (simp add: answered_or_open_def calls_inv_label)
  note other = other_label_call [OF _ l]
  have own: "\<exists>r. (i, r) \<in> set (m_replies (apply_label l m))" if "m_call (apply_label l m) i = None"
  proof (cases "m_call m i = None")
    case True
    with inv other(2) show ?thesis unfolding answered_or_open_def by blast
  next
    case False
    then show ?thesis
      using that inv other(1) poll_call_calls(2) [OF False] unfolding answered_or_open_def
      by (cases "\<exists>env. l = Poll i env") fastforce+
  qed
  with keeps inv other(3) show "answered_or_open i (apply_label l m)"
    unfolding answered_or_open_def by (auto intro: less_le_trans)
  have "call_rank i (apply_label l m) \<le> call_rank i m \<and>
      (presses i l m \<longrightarrow> 0 < call_rank i m \<longrightarrow> call_rank i (apply_label l m) < call_rank i m)"
  proof (cases "\<exists>env. l = Poll i env")
    case True
    then obtain env where env: "l = Poll i env" ..
    show ?thesis
    proof (cases "m_call m i")
      case None
      then show ?thesis by (simp add: env call_rank_def poll_call_def)
    next
      case (Some c)
      have "m_kernel m kid \<noteq> None" if "stage_kernel (call_stage c) = Some kid" for kid
        using owns_kernel [OF _ owns_stage [OF Some that]] inv by (simp add: answered_or_open_def)
      then show ?thesis using poll_stage_rank [OF Some, of env] by (auto simp: env Some)
    qed
  next
    case False
    then show ?thesis using other(1) inv by (cases l) (auto simp: answered_or_open_def call_rank_def)
  qed
  then show "call_rank i (apply_label l m) \<le> call_rank i m"
    and "presses i l m \<Longrightarrow> 0 < call_rank i m \<Longrightarrow> call_rank i (apply_label l m) < call_rank i m" by blast+
qed

lemma answered_in_time:
  assumes "calls_inv m" "m_call m i \<noteq> None"
    and "\<forall>l \<in> set ls. l \<noteq> Cancel i" and "12 \<le> helped apply_label (presses i) ls m"
  shows "\<exists>r. (i, r) \<in> set (m_replies (fold apply_label ls m))"
proof -
  have inv: "answered_or_open i m" using assms(1,2) call_less by (auto simp: answered_or_open_def)
  have ls: "list_all (\<lambda>l. l \<noteq> Cancel i) ls" using assms(3) by (simp add: list_all_iff)
  have "call_rank i (fold apply_label ls m) = 0"
    using call_rank_le [of i m] assms(4) by (intro call_progress.gets_through [OF inv ls]) simp
  then have "m_call (fold apply_label ls m) i = None"
    by (cases "call_stage (the (m_call (fold apply_label ls m) i))") (auto simp: call_rank_def split: option.splits)
  with call_progress.run_inv [OF inv ls] show ?thesis by (simp add: answered_or_open_def)
qed

text \<open>
  C14. An execute call that was accepted is answered: twelve of its polls that find their timer fired
  and room in the channel (or the writer gone) give the client a reply, whatever the process, the
  writer and all other calls do in between, as long as the client stays.
\<close>

theorem call_returns:
  assumes "reach (\<lambda>m. m = manager_default) (manager_step allowed) m" and "m_call m i \<noteq> None"
    and "\<forall>l \<in> set ls. l \<noteq> Cancel i" and "12 \<le> helped apply_label (presses i) ls m"
  shows "\<exists>r. (i, r) \<in> set (m_replies (fold apply_label ls m))"
  by (rule answered_in_time [OF calls.reach_inv [OF assms(1)] assms(2-4)])

text \<open>A cell whose kernel never answers: the timeout, the grace period and the wait for the exit pass.\<close>

definition poll_late :: poll_env where
  "poll_late = \<lparr>pe_timer = True, pe_elapsed = 400000, pe_launched = Inl (unavailable ''no''), pe_ready_sec = 60\<rparr>"

definition late_polls :: "unit label list" where
  "late_polls =
     (let p = Poll 0 poll_late in [p, p, p, p, p, p, p, p, p, p, p, p])"

theorem call_returns_witness:
  "\<exists>r. (0, r) \<in> set (m_replies (fold apply_label late_polls (run_labels (demo_cell 0))))"
proof (rule call_returns [OF demo_cell_reach])
  show "m_call (run_labels (demo_cell 0)) 0 \<noteq> None" by (simp add: manager_eval)
  show "12 \<le> helped apply_label (presses 0) late_polls (run_labels (demo_cell 0))"
    by (simp add: late_polls_def manager_eval dec_one poll_late_def has_room_def finish_cell_def kill_def)
qed (simp add: late_polls_def Let_def)

end
