(* ===== verification/Kernel_Stop.thy ===== *)
theory Kernel_Stop
  imports Kernel_Props Progress
begin

text \<open>
  Stopping kernels with deadlines: \<open>Kernel::stop\<close> of \<open>kernel/handle.rs\<close> and
  \<open>KernelManager::stop_all\<close> of \<open>kernel/mod.rs\<close> after their first section, and the task of
  \<open>launch.rs\<close> that waits for the process, kills it and records its exit (\<open>wait_exit\<close>). One stopper runs
  among everything else the manager does, other stoppers included (their sections are labels).
\<close>

section \<open>The stopper\<close>

text \<open>The await points of \<open>stop\<close> (the grace period, two seconds) and of the last loops of \<open>stop_all\<close>.\<close>

datatype stop_stage =
  Stop_Grace nat
  | Stop_Killed nat
  | All_Grace "nat list" "nat list"
  | All_Killed "nat list"
  | Stopped

definition has_exited :: "'v manager \<Rightarrow> nat \<Rightarrow> bool" where
  "has_exited m kid = (case m_kernel m kid of None \<Rightarrow> False | Some k \<Rightarrow> k_exited k)"

fun stop_poll :: "bool \<Rightarrow> stop_stage \<Rightarrow> 'v manager \<Rightarrow> stop_stage \<times> 'v manager" where
  "stop_poll timer (Stop_Grace kid) m =
     (if has_exited m kid then (Stopped, m)
      else if timer then (Stop_Killed kid, on_kernel kid kill m)
      else (Stop_Grace kid, m))"
| "stop_poll timer (Stop_Killed kid) m =
     (if has_exited m kid \<or> timer then (Stopped, m) else (Stop_Killed kid, m))"
| "stop_poll timer stage m = (stage, m)"

fun stop_all_poll :: "bool \<Rightarrow> stop_stage \<Rightarrow> 'v manager \<Rightarrow> stop_stage \<times> 'v manager" where
  "stop_all_poll timer (All_Grace kernels []) m = (All_Killed kernels, m)"
| "stop_all_poll timer (All_Grace kernels (kid # rest)) m =
     (if has_exited m kid then (All_Grace kernels rest, m)
      else if timer then (All_Grace kernels rest, on_kernel kid kill m)
      else (All_Grace kernels (kid # rest), m))"
| "stop_all_poll timer (All_Killed []) m = (Stopped, m)"
| "stop_all_poll timer (All_Killed (kid # rest)) m =
     (if has_exited m kid \<or> timer then (All_Killed rest, m) else (All_Killed (kid # rest), m))"
| "stop_all_poll timer stage m = (stage, m)"

text \<open>How a stopper starts: the kernels it is about, its first stage, and its first section.\<close>

datatype stop_request = Of_Restart target | Of_Shutdown target | Of_All

fun stopping :: "stop_request \<Rightarrow> 'v manager \<Rightarrow> nat list" where
  "stopping (Of_Restart t) m = (case existing t m of None \<Rightarrow> [] | Some kid \<Rightarrow> [kid])"
| "stopping (Of_Shutdown t) m = (case existing t m of None \<Rightarrow> [] | Some kid \<Rightarrow> [kid])"
| "stopping Of_All m = filter (kernel_alive m) (all_kernels m)"

fun first_stage :: "stop_request \<Rightarrow> nat list \<Rightarrow> stop_stage" where
  "first_stage Of_All kids = All_Grace kids kids"
| "first_stage _ kids = (case kids of [] \<Rightarrow> Stopped | kid # _ \<Rightarrow> Stop_Grace kid)"

fun first_section :: "stop_request \<Rightarrow> 'v manager \<Rightarrow> 'v manager" where
  "first_section (Of_Restart t) m = manager_restart t m"
| "first_section (Of_Shutdown t) m = shutdown_target t m"
| "first_section Of_All m = stop_all m"

section \<open>The reaper\<close>

text \<open>
  \<open>select!\<close> between the exit of the process and the kill permit, either when both are there; a kill
  takes the permit and sends the signal. The exit is recorded and handed on (\<open>report_exit\<close>).
\<close>

datatype reap_stage = Selecting | Killing | Reaped

record 'v kernels =
  kn_manager :: "'v manager"
  kn_stop :: stop_stage
  kn_reap :: "nat \<Rightarrow> reap_stage"
  kn_gone :: "nat \<Rightarrow> bool"
  kn_exits :: "(nat \<times> exit_info) list"

definition record_exit :: "nat \<Rightarrow> 'v kernel \<Rightarrow> 'v kernels \<Rightarrow> 'v kernels" where
  "record_exit kid k w =
     w\<lparr>kn_manager := on_kernel kid (\<lambda>_. snd (on_exit k)) (kn_manager w),
       kn_reap := (kn_reap w)(kid := Reaped),
       kn_exits := kn_exits w @ [(kid, fst (on_exit k))]\<rparr>"

definition reap_poll :: "bool \<Rightarrow> nat \<Rightarrow> 'v kernels \<Rightarrow> 'v kernels" where
  "reap_poll exit_first kid w =
     (case m_kernel (kn_manager w) kid of
        None \<Rightarrow> w
      | Some k \<Rightarrow>
          (case kn_reap w kid of
             Selecting \<Rightarrow>
               if kn_gone w kid \<and> (exit_first \<or> \<not> k_kill k) then record_exit kid k w
               else if k_kill k
               then w\<lparr>kn_manager := on_kernel kid (\<lambda>k. k\<lparr>k_kill := False\<rparr>) (kn_manager w),
                      kn_reap := (kn_reap w)(kid := Killing)\<rparr>
               else w
           | Killing \<Rightarrow> if kn_gone w kid then record_exit kid k w else w
           | Reaped \<Rightarrow> w))"

section \<open>Steps\<close>

datatype 'v kernels_label =
  Manage "'v label"
  | Stop_Poll bool
  | Process_Gone nat
  | Reap_Poll bool nat

definition stop_step :: "bool \<Rightarrow> 'v kernels \<Rightarrow> 'v kernels" where
  "stop_step timer w =
     (let (stage, m) = (case kn_stop w of
                          Stop_Grace _ \<Rightarrow> stop_poll timer (kn_stop w) (kn_manager w)
                        | Stop_Killed _ \<Rightarrow> stop_poll timer (kn_stop w) (kn_manager w)
                        | _ \<Rightarrow> stop_all_poll timer (kn_stop w) (kn_manager w))
      in w\<lparr>kn_stop := stage, kn_manager := m\<rparr>)"

fun kernels_step :: "'v kernels_label \<Rightarrow> 'v kernels \<Rightarrow> 'v kernels" where
  "kernels_step (Manage l) w = w\<lparr>kn_manager := apply_label l (kn_manager w)\<rparr>"
| "kernels_step (Stop_Poll timer) w = stop_step timer w"
| "kernels_step (Process_Gone kid) w = w\<lparr>kn_gone := (kn_gone w)(kid := True)\<rparr>"
| "kernels_step (Reap_Poll exit_first kid) w = reap_poll exit_first kid w"

text \<open>Only the reaper records an exit.\<close>

fun by_reaper :: "'v kernels_label \<Rightarrow> bool" where
  "by_reaper (Manage l) \<longleftrightarrow> (\<forall>kid. l \<noteq> Process_Exit kid)"
| "by_reaper _ \<longleftrightarrow> True"

definition start_stop :: "stop_request \<Rightarrow> 'v kernels \<Rightarrow> 'v kernels" where
  "start_stop req w =
     w\<lparr>kn_stop := first_stage req (stopping req (kn_manager w)),
       kn_manager := first_section req (kn_manager w), kn_exits := []\<rparr>"

section \<open>Kernels only grow towards their end\<close>

definition nearer_end :: "'v kernel \<Rightarrow> 'v kernel \<Rightarrow> bool" where
  "nearer_end k k' \<longleftrightarrow> (k_intentional k \<longrightarrow> k_intentional k') \<and> (k_exited k \<longrightarrow> k_exited k') \<and> (k_kill k \<longrightarrow> k_kill k')"

lemma nearer_end_refl [simp]: "nearer_end k k"
  by (simp add: nearer_end_def)

lemma nearer_end_ops [simp]:
  "nearer_end k (kill k)" "nearer_end k (snd (try_send msg k))" "nearer_end k (snd (interrupt k))"
  "nearer_end k (begin_stop k)" "nearer_end k (snd (on_exit k))"
  "nearer_end k (fst (kernel_dispatch fk k))"
  "nearer_end k (k\<lparr>k_queue := q\<rparr>)" "nearer_end k (k\<lparr>k_queue := q, k_writer := wr\<rparr>)"
  "nearer_end k (snd (begin_cell k))" "nearer_end k (snd (finish_cell cell outcome k))"
  "nearer_end k (snd (poll_cell cell src t timer el st k))"
  by (auto simp: nearer_end_def kill_def interrupt_def begin_stop_def try_send_def on_exit_def on_result_def
      on_ready_def on_handles_def kernel_dispatch_def begin_cell_def finish_cell_def poll_cell_def Let_def
      split: from_kernel.splits sum.splits cell_stage.splits chan.splits)

lemma begin_stop_intentional [simp]: "k_intentional (begin_stop k)"
  by (simp add: begin_stop_def try_send_def)

text \<open>A kernel that is there stays there.\<close>

definition moved_on :: "nat \<Rightarrow> 'v manager \<Rightarrow> 'v manager \<Rightarrow> bool" where
  "moved_on kid m m' \<longleftrightarrow> (\<forall>k. m_kernel m kid = Some k \<longrightarrow> kid < m_next_kernel m \<longrightarrow>
     kid < m_next_kernel m' \<and> (\<exists>k'. m_kernel m' kid = Some k' \<and> nearer_end k k'))"

lemma moved_on_same:
  "m_kernel m' = m_kernel m \<Longrightarrow> m_next_kernel m' = m_next_kernel m \<Longrightarrow> moved_on kid m m'"
  by (auto simp: moved_on_def)

lemma moved_on_on_kernel:
  "(\<And>k. m_kernel m j = Some k \<Longrightarrow> nearer_end k (f k)) \<Longrightarrow> moved_on kid m (on_kernel j f m)"
  by (auto simp: moved_on_def)

lemma moved_on_stage [simp]: "moved_on kid m (set_stage i st m') = moved_on kid m m'"
  by (simp add: moved_on_def)

lemma moved_on_poll: "moved_on kid m (poll_call env i m)"
proof (cases "m_call m i")
  case None
  then show ?thesis by (simp add: poll_call_def moved_on_same)
next
  case (Some c)
  show ?thesis
  proof (cases "call_stage c")
    case Launch
    then show ?thesis
      using Some by (auto simp: poll_call_def Let_def moved_on_def split: sum.splits)
  next
    case (Start_Cell kid')
    then show ?thesis
      using Some
      by (auto simp: poll_call_def split: option.splits prod.splits sum.splits
          intro!: moved_on_on_kernel moved_on_same) (metis nearer_end_ops(9) snd_conv)+
  next
    case (In_Cell kid' cell st)
    then show ?thesis
      using Some
      by (auto simp: poll_call_def split: option.splits prod.splits cell_stage.splits
          intro!: moved_on_on_kernel moved_on_same) (metis nearer_end_ops(10,11) snd_conv)+
  qed (use Some in \<open>auto simp: poll_call_def moved_on_same split: option.splits bind_splits chan.splits
      intro!: moved_on_on_kernel moved_on_same\<close>)
qed

lemma moved_on_trans: "moved_on kid m m1 \<Longrightarrow> moved_on kid m1 m2 \<Longrightarrow> moved_on kid m m2"
  unfolding moved_on_def nearer_end_def by blast

lemma moved_on_fold:
  "(\<And>k. nearer_end k (f k)) \<Longrightarrow> moved_on kid m (fold (\<lambda>j. on_kernel j f) kids m)"
proof (induction kids arbitrary: m)
  case (Cons j kids)
  then show ?case using moved_on_trans [OF moved_on_on_kernel [of m j f kid]] by simp
qed (simp add: moved_on_same)

lemma moved_on_stop_kernel:
  "m_kernel m' = m_kernel m \<Longrightarrow> m_next_kernel m' = m_next_kernel m \<Longrightarrow> moved_on kid m (stop_kernel ko m')"
  by (auto simp: stop_kernel_def moved_on_def split: option.splits)

lemma moved_on_label: "moved_on kid m (apply_label l m)"
proof (cases l)
  case (Begin d reg params)
  then show ?thesis
    by (auto simp: execute_begin_def slot_for_def Let_def intro!: moved_on_same split: option.splits)
next
  case (Interrupt_Target t)
  then show ?thesis
    by (auto simp: manager_interrupt_def moved_on_same split: option.splits intro!: moved_on_on_kernel)
qed (auto simp: moved_on_poll moved_on_fold cancel_call_def manager_restart_def shutdown_target_def stop_all_def
    intro!: moved_on_on_kernel moved_on_stop_kernel split: option.splits intro: moved_on_same)

lemma has_exited_moved:
  "moved_on kid m m' \<Longrightarrow> kid < m_next_kernel m \<Longrightarrow> has_exited m kid \<Longrightarrow>
     has_exited m' kid \<and> kid < m_next_kernel m'"
  unfolding moved_on_def nearer_end_def has_exited_def by (auto split: option.splits)

text \<open>Kernels are numbered in the order of their launch.\<close>

definition kernels_below :: "'v manager \<Rightarrow> bool" where
  "kernels_below m \<longleftrightarrow> (\<forall>kid. m_kernel m kid \<noteq> None \<longrightarrow> kid < m_next_kernel m)"

lemma kernels_below_same:
  "kernels_below m \<Longrightarrow> (\<And>kid. m_kernel m' kid \<noteq> None \<Longrightarrow> m_kernel m kid \<noteq> None) \<Longrightarrow>
     m_next_kernel m' = m_next_kernel m \<Longrightarrow> kernels_below m'"
  by (auto simp: kernels_below_def)

lemma kernels_below_on_kernel [simp]: "kernels_below (on_kernel kid f m) = kernels_below m"
  by (auto simp: kernels_below_def split: if_splits)

lemma kernels_below_stage [simp]: "kernels_below (set_stage i st m) = kernels_below m"
  "kernels_below (set_slot_kernel s k m) = kernels_below m"
  "kernels_below (m\<lparr>m_slots := sl\<rparr>) = kernels_below m"
  by (auto simp: kernels_below_def)

lemma kernels_below_fold [simp]:
  "kernels_below (fold (\<lambda>kid. on_kernel kid f) kids m) = kernels_below m"
  by (induction kids arbitrary: m) simp_all

lemma kernels_below_stop [simp]: "kernels_below (stop_kernel ko m) = kernels_below m"
  by (simp add: stop_kernel_def split: option.splits)

lemma kernels_below_poll: "kernels_below m \<Longrightarrow> kernels_below (poll_call env i m)"
proof (cases "m_call m i")
  case (Some c)
  assume below: "kernels_below m"
  then show ?thesis
  proof (cases "call_stage c")
    case Launch
    then show ?thesis
      using Some below by (auto simp: poll_call_def kernels_below_def Let_def less_Suc_eq split: sum.splits if_splits)
  next
    case (In_Cell kid cell st)
    then show ?thesis
      using Some below by (auto simp: poll_call_def split: option.splits prod.splits cell_stage.splits)
  next
    case (Release r)
    then show ?thesis using Some below by (auto simp: poll_call_def kernels_below_def)
  qed (use Some below in \<open>auto simp: poll_call_def split: option.splits bind_splits chan.splits prod.splits sum.splits\<close>)
qed (simp add: poll_call_def)

lemma kernels_below_label: "kernels_below m \<Longrightarrow> kernels_below (apply_label l m)"
  by (cases l)
    (auto simp: kernels_below_poll execute_begin_def slot_for_def Let_def cancel_call_def manager_interrupt_def
      manager_restart_def shutdown_target_def stop_all_def split: option.splits elim: kernels_below_same)

interpretation below: inductive_invariant "\<lambda>m. m = manager_default" "manager_step allowed" kernels_below
  for allowed :: "'v label \<Rightarrow> bool"
  by unfold_locales (auto simp: kernels_below_def manager_default_def [abs_def] kernels_below_label [unfolded kernels_below_def]
      elim!: manager_stepE)

section \<open>The invariant of a stopper\<close>

text \<open>A doomed kernel has exited, or its kill permit is there, or the reaper has taken it.\<close>

definition doomed :: "nat \<Rightarrow> 'v kernels \<Rightarrow> bool" where
  "doomed kid w \<longleftrightarrow>
     has_exited (kn_manager w) kid \<or> kn_reap w kid = Killing \<or>
     (\<exists>k. m_kernel (kn_manager w) kid = Some k \<and> k_kill k)"

definition present :: "nat \<Rightarrow> 'v kernels \<Rightarrow> bool" where
  "present kid w \<longleftrightarrow> kid < m_next_kernel (kn_manager w) \<and>
     (\<exists>k. m_kernel (kn_manager w) kid = Some k \<and> k_intentional k)"

definition reaper_ok :: "'v kernels \<Rightarrow> bool" where
  "reaper_ok w \<longleftrightarrow> kernels_below (kn_manager w) \<and> (\<forall>kid. kn_reap w kid = Reaped \<longrightarrow>
     has_exited (kn_manager w) kid \<and> kid < m_next_kernel (kn_manager w))"

fun stop_stage_ok :: "nat list \<Rightarrow> stop_stage \<Rightarrow> 'v kernels \<Rightarrow> bool" where
  "stop_stage_ok kids (Stop_Grace kid) w \<longleftrightarrow> kids = [kid]"
| "stop_stage_ok kids (Stop_Killed kid) w \<longleftrightarrow> kids = [kid] \<and> doomed kid w"
| "stop_stage_ok kids (All_Grace ks rest) w \<longleftrightarrow>
     ks = kids \<and> (\<forall>kid \<in> set kids. kid \<in> set rest \<or> doomed kid w)"
| "stop_stage_ok kids (All_Killed rest) w \<longleftrightarrow> (\<forall>kid \<in> set kids. doomed kid w)"
| "stop_stage_ok kids Stopped w \<longleftrightarrow> (\<forall>kid \<in> set kids. doomed kid w)"

definition stop_inv :: "nat list \<Rightarrow> 'v kernels \<Rightarrow> bool" where
  "stop_inv kids w \<longleftrightarrow> reaper_ok w \<and> (\<forall>kid \<in> set kids. present kid w) \<and> stop_stage_ok kids (kn_stop w) w \<and>
     (\<forall>(kid, info) \<in> set (kn_exits w). kid \<in> set kids \<longrightarrow> \<not> exit_report info)"

fun stop_rank :: "stop_stage \<Rightarrow> nat" where
  "stop_rank (Stop_Grace kid) = 2"
| "stop_rank (Stop_Killed kid) = 1"
| "stop_rank (All_Grace ks rest) = length rest + length ks + 2"
| "stop_rank (All_Killed rest) = length rest + 1"
| "stop_rank Stopped = 0"

text \<open>What every step does to a kernel: it comes nearer to its end, and a doomed one stays doomed.\<close>

definition forward :: "'v kernels \<Rightarrow> 'v kernels \<Rightarrow> bool" where
  "forward w w' \<longleftrightarrow> (reaper_ok w \<longrightarrow> reaper_ok w') \<and>
     (\<forall>kid. present kid w \<longrightarrow> present kid w' \<and> (doomed kid w \<longrightarrow> doomed kid w'))"

lemma forward_moved:
  assumes "\<And>kid. moved_on kid (kn_manager w) (kn_manager w')" "kn_reap w' = kn_reap w"
    and "kernels_below (kn_manager w) \<Longrightarrow> kernels_below (kn_manager w')"
  shows "forward w w'"
proof -
  have "doomed kid w'" if "present kid w" "doomed kid w" for kid
    using that assms unfolding present_def doomed_def moved_on_def nearer_end_def has_exited_def by fastforce
  moreover have "present kid w'" if "present kid w" for kid
    using that assms(1) [of kid] unfolding present_def moved_on_def nearer_end_def by blast
  moreover have "reaper_ok w \<Longrightarrow> reaper_ok w'"
    using has_exited_moved [OF assms(1)] assms(2,3) unfolding reaper_ok_def by metis
  ultimately show ?thesis by (simp add: forward_def)
qed

lemma forward_exit:
  assumes "m_kernel (kn_manager w) kid = Some k" "kid < m_next_kernel (kn_manager w)"
  shows "forward w (record_exit kid k w)" "has_exited (kn_manager (record_exit kid k w)) kid"
  using assms
  by (auto simp: forward_def reaper_ok_def present_def doomed_def has_exited_def record_exit_def on_exit_def Let_def
      split: if_splits option.splits)

lemma forward_kill:
  assumes "m_kernel (kn_manager w) kid = Some k"
  shows "forward w (w\<lparr>kn_manager := on_kernel kid (\<lambda>k. k\<lparr>k_kill := False\<rparr>) (kn_manager w),
    kn_reap := (kn_reap w)(kid := Killing)\<rparr>)"
  using assms
  by (auto simp: forward_def reaper_ok_def present_def doomed_def has_exited_def split: if_splits option.splits)


lemma forward_trans: "forward w w1 \<Longrightarrow> forward w1 w2 \<Longrightarrow> forward w w2"
  unfolding forward_def by blast

lemma forward_refl [simp]: "forward w w"
  by (simp add: forward_def)

lemma reap_poll_cases:
  obtains (idle) "reap_poll c kid w = w"
    | (exits) k where "m_kernel (kn_manager w) kid = Some k" "kn_reap w kid \<noteq> Reaped" "kn_gone w kid"
        "reap_poll c kid w = record_exit kid k w"
    | (kills) k where "m_kernel (kn_manager w) kid = Some k" "kn_reap w kid = Selecting" "k_kill k"
        "reap_poll c kid w =
           w\<lparr>kn_manager := on_kernel kid (\<lambda>k. k\<lparr>k_kill := False\<rparr>) (kn_manager w),
             kn_reap := (kn_reap w)(kid := Killing)\<rparr>"
proof -
  have "reap_poll c kid w = w \<or>
      (\<exists>k. m_kernel (kn_manager w) kid = Some k \<and> kn_reap w kid \<noteq> Reaped \<and> kn_gone w kid \<and>
        reap_poll c kid w = record_exit kid k w) \<or>
      (\<exists>k. m_kernel (kn_manager w) kid = Some k \<and> kn_reap w kid = Selecting \<and> k_kill k \<and>
        reap_poll c kid w =
          w\<lparr>kn_manager := on_kernel kid (\<lambda>k. k\<lparr>k_kill := False\<rparr>) (kn_manager w),
            kn_reap := (kn_reap w)(kid := Killing)\<rparr>)"
    by (cases "m_kernel (kn_manager w) kid"; cases "kn_reap w kid") (simp_all add: reap_poll_def)
  then show ?thesis using idle exits kills by blast
qed

lemma forward_reap: "reaper_ok w \<Longrightarrow> forward w (reap_poll c kid w)"
proof (cases rule: reap_poll_cases [of c kid w])
  case (exits k)
  moreover assume "reaper_ok w"
  ultimately show ?thesis using forward_exit [of w kid k] by (simp add: reaper_ok_def kernels_below_def)
qed (simp_all add: forward_kill)

text \<open>A poll of the stopper kills at most, and moves on.\<close>

lemma stop_step_fields:
  "kn_reap (stop_step timer w) = kn_reap w"
  "kn_exits (stop_step timer w) = kn_exits w"
  by (simp_all add: stop_step_def split_beta Let_def)

lemma stop_step_moved:
  "moved_on kid (kn_manager w) (kn_manager (stop_step timer w))"
  "kernels_below (kn_manager w) \<Longrightarrow> kernels_below (kn_manager (stop_step timer w))"
proof -
  let ?m = "kn_manager w" and ?m' = "kn_manager (stop_step timer w)"
  have m': "?m' = ?m \<or> (\<exists>kid. ?m' = on_kernel kid kill ?m)"
  proof (cases "kn_stop w")
    case (All_Grace ks rest)
    then show ?thesis by (cases rest) (auto simp: stop_step_def)
  next
    case (All_Killed rest)
    then show ?thesis by (cases rest) (auto simp: stop_step_def)
  qed (auto simp: stop_step_def)
  show "moved_on kid ?m ?m'" using m' by (elim disjE exE) (simp_all add: moved_on_on_kernel moved_on_same)
  show "kernels_below ?m \<Longrightarrow> kernels_below ?m'" using m' by auto
qed

lemma forward_stop: "forward w (stop_step timer w)"
  by (rule forward_moved) (simp_all add: stop_step_moved stop_step_fields)

lemma stop_stage_forward:
  "stop_stage_ok kids st w \<Longrightarrow> \<forall>kid \<in> set kids. present kid w \<Longrightarrow> forward w w' \<Longrightarrow> stop_stage_ok kids st w'"
  by (cases st) (auto simp: forward_def)

lemma doomed_killed: "present kid w \<Longrightarrow> doomed kid (w\<lparr>kn_stop := st, kn_manager := on_kernel kid kill (kn_manager w)\<rparr>)"
  by (auto simp: present_def doomed_def kill_def)

lemma stop_step_stage:
  assumes "stop_stage_ok kids (kn_stop w) w" "\<forall>kid \<in> set kids. present kid w"
  shows "stop_stage_ok kids (kn_stop (stop_step timer w)) (stop_step timer w)"
proof (cases "kn_stop w")
  case (All_Grace ks rest)
  show ?thesis
  proof (cases rest)
    case (Cons kid more)
    have ks: "ks = kids" and "\<forall>j \<in> set kids. j \<in> set rest \<or> doomed j w" using assms(1) All_Grace by simp_all
    moreover have "\<forall>j \<in> set kids. doomed j w \<longrightarrow> doomed j (stop_step timer w)"
      using forward_stop [of w timer] assms(2) by (auto simp: forward_def)
    ultimately show ?thesis
      using All_Grace Cons assms(2) doomed_killed [of kid w]
      by (auto simp: doomed_def stop_step_def split: if_splits)
  qed (use assms All_Grace in \<open>auto simp: doomed_def stop_step_def\<close>)
next
  case (All_Killed rest)
  then show ?thesis using assms by (cases rest) (auto simp: doomed_def stop_step_def)
next
  case (Stop_Grace kid)
  then show ?thesis using assms doomed_killed [of kid w] by (auto simp: doomed_def stop_step_def)
qed (use assms in \<open>auto simp: doomed_def stop_step_def\<close>)

lemma stop_step_rank:
  "stop_rank (kn_stop (stop_step timer w)) \<le> stop_rank (kn_stop w)"
  "0 < stop_rank (kn_stop w) \<Longrightarrow> stop_rank (kn_stop (stop_step True w)) < stop_rank (kn_stop w)"
  subgoal by (cases "(timer, kn_stop w, kn_manager w)" rule: stop_all_poll.cases) (auto simp: stop_step_def)
  subgoal by (cases "(True, kn_stop w, kn_manager w)" rule: stop_all_poll.cases) (auto simp: stop_step_def)
  done

lemma stop_inv_forward:
  assumes "stop_inv kids w" "forward w w'" "stop_stage_ok kids (kn_stop w') w'"
    and "\<forall>(kid, info) \<in> set (kn_exits w'). kid \<in> set kids \<longrightarrow> \<not> exit_report info"
  shows "stop_inv kids w'"
  using assms by (auto simp: stop_inv_def forward_def)

lemma reap_poll_fields:
  "kn_stop (reap_poll c kid w) = kn_stop w"
  "\<forall>(j, info) \<in> set (kn_exits w). j \<in> set kids \<longrightarrow> \<not> exit_report info \<Longrightarrow> \<forall>j \<in> set kids. present j w \<Longrightarrow>
     \<forall>(j, info) \<in> set (kn_exits (reap_poll c kid w)). j \<in> set kids \<longrightarrow> \<not> exit_report info"
  by (cases rule: reap_poll_cases [of c kid w]; auto simp: record_exit_def on_exit_def present_def Let_def)+

lemma stop_inv_step:
  assumes "stop_inv kids w" "by_reaper l"
  shows "stop_inv kids (kernels_step l w)"
proof -
  note inv = assms(1) [unfolded stop_inv_def]
  show ?thesis
  proof (cases l)
    case (Stop_Poll timer)
    show ?thesis
      unfolding Stop_Poll kernels_step.simps
      by (rule stop_inv_forward [OF assms(1) forward_stop stop_step_stage]) (use inv in \<open>auto simp: stop_step_fields\<close>)
  next
    case (Reap_Poll c kid)
    have f: "forward w (reap_poll c kid w)" using inv by (simp add: forward_reap)
    show ?thesis
      unfolding Reap_Poll kernels_step.simps
      using inv f reap_poll_fields(2) [of w kids c kid] stop_stage_forward [of kids "kn_stop w" w]
      by (intro stop_inv_forward [OF assms(1) f]) (simp_all add: reap_poll_fields(1))
  next
    case (Manage lb)
    have f: "forward w (kernels_step l w)"
      unfolding Manage by (rule forward_moved) (auto simp: moved_on_label kernels_below_label)
    show ?thesis
      by (rule stop_inv_forward [OF assms(1) f])
        (use inv f in \<open>auto simp: Manage intro: stop_stage_forward\<close>)
  next
    case (Process_Gone kid)
    have f: "forward w (kernels_step l w)"
      unfolding Process_Gone by (rule forward_moved) (auto simp: moved_on_same)
    show ?thesis
      by (rule stop_inv_forward [OF assms(1) f])
        (use inv f in \<open>auto simp: Process_Gone intro: stop_stage_forward\<close>)
  qed
qed

interpretation stopper: progress kernels_step by_reaper "\<lambda>l _. l = Stop_Poll True" "stop_inv kids" "\<lambda>w. stop_rank (kn_stop w)"
  for kids
proof
  fix w :: "'v kernels" and l :: "'v kernels_label"
  show "stop_inv kids w \<Longrightarrow> by_reaper l \<Longrightarrow> stop_inv kids (kernels_step l w)" by (rule stop_inv_step)
  show "stop_rank (kn_stop (kernels_step l w)) \<le> stop_rank (kn_stop w)"
    using stop_step_rank(1) by (cases l) (simp_all add: reap_poll_fields)
  show "l = Stop_Poll True \<Longrightarrow> 0 < stop_rank (kn_stop w) \<Longrightarrow>
      stop_rank (kn_stop (kernels_step l w)) < stop_rank (kn_stop w)"
    using stop_step_rank(2) by auto
qed

section \<open>The start\<close>

lemma existing_owned: "existing t m = Some kid \<Longrightarrow> \<exists>s. owns m kid s"
  by (auto simp: existing_def owns_def split: bind_splits)

lemma stopping_owned: "kid \<in> set (stopping req m) \<Longrightarrow> \<exists>s. owns m kid s"
proof (cases req)
  case Of_All
  then show "kid \<in> set (stopping req m) \<Longrightarrow> ?thesis" by (auto simp: all_kernels_def map_filter_def owns_def)
qed (auto dest!: existing_owned [OF sym] split: option.splits)

lemma fold_begin_stop:
  "kid \<in> set kids \<or> (\<exists>k. m_kernel m kid = Some k \<and> k_intentional k) \<Longrightarrow> m_kernel m kid \<noteq> None \<Longrightarrow>
     \<exists>k. m_kernel (fold (\<lambda>j. on_kernel j begin_stop) kids m) kid = Some k \<and> k_intentional k"
proof (induction kids arbitrary: m)
  case (Cons j kids)
  let ?m = "on_kernel j begin_stop m"
  have "kid \<in> set kids \<or> (\<exists>k. m_kernel ?m kid = Some k \<and> k_intentional k)" "m_kernel ?m kid \<noteq> None"
    using Cons.prems by auto
  then show ?case using Cons.IH [of ?m] by simp
qed simp

lemma first_section_intentional:
  assumes "kid \<in> set (stopping req m)" "m_kernel m kid \<noteq> None"
  shows "\<exists>k. m_kernel (first_section req m) kid = Some k \<and> k_intentional k"
  using assms fold_begin_stop [of kid "filter (kernel_alive m) (all_kernels m)" m]
  by (cases req) (auto simp: existing_def manager_restart_def shutdown_target_def stop_kernel_def stop_all_def
      split: option.splits bind_splits)

lemma first_section_label: "\<exists>l. first_section req m = apply_label l m"
  by (cases req) (metis apply_label.simps(9,10,12) first_section.simps)+

lemma start_stop_inv:
  assumes calls: "calls_inv (kn_manager w)" and ok: "reaper_ok w"
  shows "stop_inv (stopping req (kn_manager w)) (start_stop req w)"
proof -
  let ?kids = "stopping req (kn_manager w)"
  obtain l where l: "first_section req (kn_manager w) = apply_label l (kn_manager w)"
    using first_section_label by blast
  have "forward w (start_stop req w)"
    by (rule forward_moved) (simp_all add: start_stop_def l moved_on_label kernels_below_label)
  then have 1: "reaper_ok (start_stop req w)" using ok by (simp add: forward_def)
  have 2: "present kid (start_stop req w)" if kid: "kid \<in> set ?kids" for kid
  proof -
    obtain s where "owns (kn_manager w) kid s" using stopping_owned [OF kid] by blast
    then have there: "m_kernel (kn_manager w) kid \<noteq> None" "kid < m_next_kernel (kn_manager w)"
      using owns_kernel [OF calls] owns_less [OF calls] by blast+
    moreover have "moved_on kid (kn_manager w) (first_section req (kn_manager w))" by (simp add: l moved_on_label)
    ultimately show ?thesis
      using first_section_intentional [OF kid there(1)]
      by (auto simp: present_def start_stop_def moved_on_def)
  qed
  have 3: "stop_stage_ok ?kids (kn_stop (start_stop req w)) (start_stop req w)"
    by (cases req) (auto simp: start_stop_def split: option.splits)
  show ?thesis using 1 2 3 by (simp add: stop_inv_def) (simp add: start_stop_def)
qed

lemma first_rank: "stop_rank (first_stage req kids) \<le> 2 * length kids + 2"
  by (cases req) (auto split: list.splits)

section \<open>The end of a doomed kernel\<close>

definition ending :: "nat \<Rightarrow> 'v kernels \<Rightarrow> bool" where
  "ending kid w \<longleftrightarrow> reaper_ok w \<and> present kid w \<and> doomed kid w"

definition end_rank :: "nat \<Rightarrow> 'v kernels \<Rightarrow> nat" where
  "end_rank kid w =
     (if has_exited (kn_manager w) kid then 0 else if kn_reap w kid = Killing then 1 else 2)"

text \<open>The reaper is polled; if it has sent the kill signal, the process has died of it.\<close>

fun reaps :: "nat \<Rightarrow> 'v kernels_label \<Rightarrow> 'v kernels \<Rightarrow> bool" where
  "reaps kid (Reap_Poll c j) w \<longleftrightarrow> j = kid \<and> (kn_reap w kid = Killing \<longrightarrow> kn_gone w kid)"
| "reaps kid _ w \<longleftrightarrow> False"

lemma forward_step: "reaper_ok w \<Longrightarrow> forward w (kernels_step l w)"
proof (cases l)
  case (Manage lb)
  then show ?thesis by (intro forward_moved) (auto simp: moved_on_label kernels_below_label)
next
  case (Process_Gone kid)
  then show ?thesis by (intro forward_moved) (auto simp: moved_on_same)
qed (simp_all add: forward_stop forward_reap)

lemma reap_end_rank:
  assumes "ending kid w"
  shows "end_rank kid (reap_poll c j w) \<le> end_rank kid w"
    and "j = kid \<Longrightarrow> kn_reap w kid = Killing \<longrightarrow> kn_gone w kid \<Longrightarrow> 0 < end_rank kid w \<Longrightarrow>
      end_rank kid (reap_poll c j w) < end_rank kid w"
proof -
  obtain k where k: "m_kernel (kn_manager w) kid = Some k" using assms by (auto simp: ending_def present_def)
  have reaped: "kn_reap w kid = Reaped \<Longrightarrow> has_exited (kn_manager w) kid"
    using assms by (simp add: ending_def reaper_ok_def)
  show "end_rank kid (reap_poll c j w) \<le> end_rank kid w"
    by (cases rule: reap_poll_cases [of c j w])
      (auto simp: end_rank_def record_exit_def has_exited_def split: option.splits)
  show "end_rank kid (reap_poll c j w) < end_rank kid w"
    if "j = kid" "kn_reap w kid = Killing \<longrightarrow> kn_gone w kid" "0 < end_rank kid w"
    using that assms k reaped
    by (cases "kn_reap w kid")
      (auto simp: end_rank_def reap_poll_def record_exit_def has_exited_def ending_def doomed_def split: if_splits)
qed

interpretation reaper: progress kernels_step by_reaper "reaps kid" "ending kid" "end_rank kid" for kid
proof
  fix w :: "'v kernels" and l :: "'v kernels_label"
  assume e: "ending kid w"
  then have f: "forward w (kernels_step l w)" by (simp add: ending_def forward_step)
  with e show "ending kid (kernels_step l w)" by (simp add: ending_def forward_def)
  have "end_rank kid (kernels_step l w) \<le> end_rank kid w" if "\<forall>c j. l \<noteq> Reap_Poll c j"
  proof -
    have moved: "moved_on kid (kn_manager w) (kn_manager (kernels_step l w))" "kn_reap (kernels_step l w) = kn_reap w"
      using that by (cases l; simp add: moved_on_label moved_on_same stop_step_fields stop_step_moved)+
    show ?thesis using has_exited_moved [OF moved(1)] e moved(2) by (simp add: end_rank_def ending_def present_def)
  qed
  then show "end_rank kid (kernels_step l w) \<le> end_rank kid w"
    using reap_end_rank(1) [OF e] by (cases l) simp_all
  show "reaps kid l w \<Longrightarrow> 0 < end_rank kid w \<Longrightarrow> end_rank kid (kernels_step l w) < end_rank kid w"
    using reap_end_rank(2) [OF e] by (cases l) simp_all
qed

section \<open>Stopping ends\<close>

text \<open>
  C15. A restart, a deletion or the shutdown of all kernels that has begun returns after at most two
  polls per kernel, and two more, that find their timer fired; when it has returned, each of its kernels
  has exited, or is being killed, so that its exit is recorded once its process has died of the signal
  and its reaper has run twice; and the exit of a kernel that was asked to stop is never reported to
  its target as a crash. All of this whatever else the manager, the processes, the reapers and other
  stoppers do in between.
\<close>

theorem stopped_kernels_end:
  assumes "reach (\<lambda>m. m = manager_default) (manager_step allowed) (kn_manager w0)"
    and "\<forall>kid. kn_reap w0 kid = Reaped \<longrightarrow> has_exited (kn_manager w0) kid \<and> kid < m_next_kernel (kn_manager w0)"
    and "list_all by_reaper ls" "w = fold kernels_step ls (start_stop req w0)"
    and "kids = stopping req (kn_manager w0)"
  shows "(2 * length kids + 2 \<le> length (filter (\<lambda>l. l = Stop_Poll True) ls) \<longrightarrow> kn_stop w = Stopped) \<and>
    (kn_stop w = Stopped \<longrightarrow> (\<forall>kid \<in> set kids. \<forall>ls'. list_all by_reaper ls' \<longrightarrow>
       2 \<le> helped kernels_step (reaps kid) ls' w \<longrightarrow>
       has_exited (kn_manager (fold kernels_step ls' w)) kid)) \<and>
    (\<forall>(kid, info) \<in> set (kn_exits w). kid \<in> set kids \<longrightarrow> \<not> exit_report info)"
proof -
  have "calls_inv (kn_manager w0)" "kernels_below (kn_manager w0)"
    using assms(1) by (rule calls.reach_inv, rule below.reach_inv)
  then have start: "stop_inv kids (start_stop req w0)"
    using assms(2,5) by (simp add: start_stop_inv reaper_ok_def)
  then have inv: "stop_inv kids w" using stopper.run_inv assms(3,4) by blast
  have "kn_stop w = Stopped" if "2 * length kids + 2 \<le> length (filter (\<lambda>l. l = Stop_Poll True) ls)"
  proof -
    have "stop_rank (kn_stop (start_stop req w0)) \<le> 2 * length kids + 2"
      using first_rank by (simp add: start_stop_def assms(5))
    then have "stop_rank (kn_stop w) = 0"
      using stopper.gets_through [OF start assms(3)] that by (simp add: helped_filter assms(4))
    then show ?thesis by (cases "kn_stop w") simp_all
  qed
  moreover have "has_exited (kn_manager (fold kernels_step ls' w)) kid"
    if "kn_stop w = Stopped" "kid \<in> set kids" "list_all by_reaper ls'" "2 \<le> helped kernels_step (reaps kid) ls' w"
    for kid ls'
  proof -
    have "ending kid w" using inv that(1,2) by (simp add: stop_inv_def ending_def)
    moreover have "end_rank kid w \<le> 2" by (simp add: end_rank_def)
    ultimately have "end_rank kid (fold kernels_step ls' w) = 0"
      using reaper.gets_through [of kid w ls'] that(3,4) by simp
    then show ?thesis by (simp add: end_rank_def split: if_splits)
  qed
  ultimately show ?thesis using inv by (auto simp: stop_inv_def)
qed

section \<open>Witness\<close>

text \<open>A kernel that runs a cell and never reads its input: all deadlines pass, and it dies of the signal.\<close>

definition busy_kernels :: "unit kernels" where
  "busy_kernels = \<lparr>kn_manager = run_labels (demo_cell 0), kn_stop = Stopped, kn_reap = (\<lambda>_. Selecting),
     kn_gone = (\<lambda>_. False), kn_exits = []\<rparr>"

definition late_stop :: "unit kernels_label list" where
  "late_stop = [Stop_Poll True, Stop_Poll True, Stop_Poll True, Stop_Poll True]"

definition late_reap :: "unit kernels_label list" where
  "late_reap = [Reap_Poll True 0, Process_Gone 0, Reap_Poll True 0]"

lemma busy_stopping: "stopping Of_All (kn_manager busy_kernels) = [0]"
  by (simp add: busy_kernels_def manager_eval all_kernels_def map_filter_def kernel_alive_def is_alive_def)

theorem stopped_kernels_end_witness:
  "has_exited (kn_manager (fold kernels_step (late_stop @ late_reap) (start_stop Of_All busy_kernels))) 0"
proof -
  let ?w = "fold kernels_step late_stop (start_stop Of_All busy_kernels)"
  have reach: "reach (\<lambda>m. m = manager_default) (manager_step (\<lambda>l. \<not> is_cancel l)) (kn_manager busy_kernels)"
    using demo_cell_reach by (simp add: busy_kernels_def)
  have reaping: "list_all by_reaper late_stop" "list_all by_reaper late_reap"
    by (simp_all add: late_stop_def late_reap_def)
  have "kn_reap ?w 0 = Selecting"
    by (simp add: late_stop_def stop_step_fields) (simp add: start_stop_def busy_kernels_def)
  then have helped: "2 \<le> helped kernels_step (reaps 0) late_reap ?w" by (simp add: late_reap_def)
  have idle: "\<forall>kid. kn_reap busy_kernels kid = Reaped \<longrightarrow>
      has_exited (kn_manager busy_kernels) kid \<and> kid < m_next_kernel (kn_manager busy_kernels)"
    by (simp add: busy_kernels_def)
  note ends = stopped_kernels_end [OF reach idle reaping(1) refl refl, of Of_All, unfolded busy_stopping]
  have "kn_stop ?w = Stopped" using ends by (simp add: late_stop_def)
  with ends helped reaping(2) show ?thesis by simp
qed

end
