(* ===== verification/Client_Stream.thy ===== *)
theory Client_Stream
  imports Sse
begin

text \<open>
  \<open>crates/client/src/sse.rs\<close>: reading \<open>GET /events\<close> one frame at a time. The response is the list
  of chunks the connection yields, each a piece of the body or a transport error; the end of the
  list is the end of the stream. The decoder of a frame (\<open>serde_json::from_str\<close>) is a parameter.
\<close>

section \<open>Errors\<close>

datatype client_error = Rpc_Failed rpc_error | Transport string | Protocol string

fun client_error_code :: "client_error \<Rightarrow> error_code option" where
  "client_error_code (Rpc_Failed error) = Some (code error)"
| "client_error_code (Transport msg) = None"
| "client_error_code (Protocol msg) = None"

fun client_error_display :: "client_error \<Rightarrow> string" where
  "client_error_display (Rpc_Failed error) = rpc_error_display error"
| "client_error_display (Transport msg) = msg"
| "client_error_display (Protocol msg) = msg"

section \<open>\<open>String::from_utf8_lossy\<close>\<close>

text \<open>
  The length of the sequence at the head of the bytes: a whole character, or the part of one that
  has to be replaced because what follows cannot complete it.
\<close>

definition in_range :: "nat \<Rightarrow> nat \<Rightarrow> string \<Rightarrow> bool" where
  "in_range lo hi s = (case s of [] \<Rightarrow> False | c # _ \<Rightarrow> lo \<le> of_char c \<and> of_char c \<le> hi)"

definition cont_next :: "string \<Rightarrow> bool" where
  "cont_next s = (case s of [] \<Rightarrow> False | c # _ \<Rightarrow> is_cont c)"

definition second_ok :: "nat \<Rightarrow> string \<Rightarrow> bool" where
  "second_ok b s =
     (if b = 224 then in_range 160 191 s
      else if b = 237 then in_range 128 159 s
      else if b = 240 then in_range 144 191 s
      else if b = 244 then in_range 128 143 s
      else cont_next s)"

definition utf8_step :: "char \<Rightarrow> string \<Rightarrow> bool \<times> nat" where
  "utf8_step c s =
     (let b = of_char c :: nat
      in if b < 128 then (True, 0)
         else if 194 \<le> b \<and> b \<le> 223 then (if cont_next s then (True, 1) else (False, 0))
         else if 224 \<le> b \<and> b \<le> 239 then
           (if \<not> second_ok b s then (False, 0)
            else if cont_next (drop 1 s) then (True, 2) else (False, 1))
         else if 240 \<le> b \<and> b \<le> 244 then
           (if \<not> second_ok b s then (False, 0)
            else if \<not> cont_next (drop 1 s) then (False, 1)
            else if cont_next (drop 2 s) then (True, 3) else (False, 2))
         else (False, 0))"

definition replacement :: string where
  "replacement = [CHR 0xEF, CHR 0xBF, CHR 0xBD]"

function from_utf8_lossy :: "string \<Rightarrow> string" where
  "from_utf8_lossy [] = []"
| "from_utf8_lossy (c # s) =
     (let (ok, n) = utf8_step c s
      in (if ok then c # take n s else replacement) @ from_utf8_lossy (drop n s))"
  by pat_completeness auto
termination
  by (relation "measure length") auto

section \<open>Blocks and frames\<close>

text \<open>\<open>windows(2).position(== b"\n\n")\<close>.\<close>

fun blank_line :: "string \<Rightarrow> nat option" where
  "blank_line (a # b # s) =
     (if a = newline \<and> b = newline then Some 0 else map_option Suc (blank_line (b # s)))"
| "blank_line [a] = None"
| "blank_line [] = None"

definition take_block :: "string \<Rightarrow> (string \<times> string) option" where
  "take_block buffer =
     map_option (\<lambda>end. (from_utf8_lossy (take (end + 2) buffer), drop (end + 2) buffer))
       (blank_line buffer)"

definition data_line :: "string \<Rightarrow> string option" where
  "data_line line =
     map_option (\<lambda>rest. case strip_prefix '' '' rest of None \<Rightarrow> rest | Some r \<Rightarrow> r)
       (strip_prefix ''data:'' line)"

definition parse_block ::
  "(string \<Rightarrow> (string, sse_frame) result) \<Rightarrow> string \<Rightarrow> (client_error, sse_frame option) result" where
  "parse_block from_str block =
     (let data = List.map_filter data_line (lines block)
      in if data = [] then Inr None
         else case from_str (join [newline] data) of
                Inr frame \<Rightarrow> Inr (Some frame)
              | Inl error \<Rightarrow> Inl (Protocol (''decode SSE frame: '' @ error)))"

lemma blank_line_drop: "blank_line s = Some n \<Longrightarrow> length (drop (n + 2) s) < length s"
  by (induction s arbitrary: n rule: blank_line.induct) (auto split: if_splits)

lemma take_block_shorter [termination_simp]:
  "take_block buffer = Some (block, rest) \<Longrightarrow> length rest < length buffer"
  using blank_line_drop by (auto simp: take_block_def)

type_synonym chunks = "(string, string) result list"

text \<open>\<open>next_frame\<close>: the frame or the end, with the buffer and the chunks that are left.\<close>

function next_frame ::
  "(string \<Rightarrow> (string, sse_frame) result) \<Rightarrow> string \<Rightarrow> chunks \<Rightarrow>
     (client_error, sse_frame option) result \<times> string \<times> chunks" where
  "next_frame from_str buffer chunks =
     (case take_block buffer of
        Some (block, rest) \<Rightarrow>
          (case parse_block from_str block of
             Inl e \<Rightarrow> (Inl e, rest, chunks)
           | Inr (Some frame) \<Rightarrow> (Inr (Some frame), rest, chunks)
           | Inr None \<Rightarrow> next_frame from_str rest chunks)
      | None \<Rightarrow>
          if 2 * SSE_FRAME < length buffer
          then (Inl (Protocol ''SSE frame exceeds 1 MiB''), buffer, chunks)
          else (case chunks of
                  [] \<Rightarrow> (Inr None, buffer, [])
                | Inl error # later \<Rightarrow> (Inl (Transport (''read events: '' @ error)), buffer, later)
                | Inr bytes # later \<Rightarrow> next_frame from_str (buffer @ bytes) later))"
  by pat_completeness auto
termination
  by (relation "measures [\<lambda>(_, _, chunks). length chunks, \<lambda>(_, buffer, _). length buffer]")
    (auto simp: take_block_shorter)

declare next_frame.simps [simp del]

end
