(* ===== verification/Client.thy ===== *)
theory Client
  imports Client_Stream
begin

text \<open>
  \<open>crates/client/src/lib.rs\<close> and \<open>spawn.rs\<close>: the typed client. The network is a parameter over a
  state of the world \<open>'s\<close>: it answers a request with a transport error or a response, and changes
  the world. Serialisation (\<open>serde_json\<close>) and the HTTP library's renderings are in the record
  \<open>wire\<close>.
\<close>

section \<open>HTTP\<close>

record http_request =
  hq_post :: bool
  hq_url :: string
  hq_bearer :: "string option"
  hq_timeout :: "nat option"
  hq_body :: "string option"

record http_answer =
  ha_status :: nat
  ha_text :: "(string, string) result"
  ha_chunks :: chunks

type_synonym 's net = "http_request \<Rightarrow> 's \<Rightarrow> (string, http_answer) result \<times> 's"

record 'v envelope =
  ev_result :: "'v option"
  ev_error :: "rpc_error option"

record 'v wire =
  wi_request :: "'v rpc_request \<Rightarrow> (string, string) result"
  wi_response :: "string \<Rightarrow> (string, 'v envelope) result"
  wi_health :: "('v, health_result) decoder"
  wi_one :: 'v
  wi_object :: 'v
  wi_status :: "nat \<Rightarrow> string"

section \<open>The client\<close>

record client =
  cl_base_url :: string
  cl_token :: "string option"

definition DEFAULT_TIMEOUT :: nat where "DEFAULT_TIMEOUT = 30000"

text \<open>\<open>std::env::var\<close>: present and UTF-8.\<close>

definition env_utf8 :: "environment \<Rightarrow> string \<Rightarrow> string option" where
  "env_utf8 vars name =
     (case vars name of None \<Rightarrow> None | Some v \<Rightarrow> if valid_utf8 v then Some v else None)"

definition default_url :: "environment \<Rightarrow> string" where
  "default_url vars =
     (case env_utf8 vars ''RECURSE_DAEMON_URL'' of
        Some url \<Rightarrow> url
      | None \<Rightarrow>
          ''http://127.0.0.1:'' @
          dec (case Option.bind (env_utf8 vars ''RECURSE_DAEMON_PORT'') (parse_uint u16_max) of
                 Some port \<Rightarrow> port | None \<Rightarrow> unat DEFAULT_PORT))"

definition encode_target :: "target_codec \<Rightarrow> target \<Rightarrow> string" where
  "encode_target tc t =
     tc_encode_no_pad tc (case tc_target_json tc t of Inl _ \<Rightarrow> [] | Inr json \<Rightarrow> json)"

definition client_new :: "(string, unit) result \<Rightarrow> string \<Rightarrow> string option \<Rightarrow> (client_error, client) result" where
  "client_new build base_url token =
     (case build of
        Inl error \<Rightarrow> Inl (Transport (''build HTTP client: '' @ error))
      | Inr _ \<Rightarrow> Inr \<lparr>cl_base_url = trim_end_matches CHR ''/'' base_url, cl_token = token\<rparr>)"

definition client_from_env :: "(string, unit) result \<Rightarrow> environment \<Rightarrow> (client_error, client) result" where
  "client_from_env build vars =
     client_new build (default_url vars) (env_utf8 vars ''RECURSE_DAEMON_TOKEN'')"

definition decode_response ::
  "'v wire \<Rightarrow> ('v, 'r) decoder \<Rightarrow> nat \<Rightarrow> string \<Rightarrow> (client_error, 'r) result" where
  "decode_response wi decode status body =
     (case wi_response wi body of
        Inl error \<Rightarrow>
          Inl (Protocol (''decode daemon response (HTTP '' @ wi_status wi status @ ''): '' @ error))
      | Inr envelope \<Rightarrow>
          (case ev_error envelope of
             Some error \<Rightarrow> Inl (Rpc_Failed error)
           | None \<Rightarrow>
               (case ev_result envelope of
                  None \<Rightarrow>
                    Inl (Protocol (''daemon response has no result (HTTP '' @ wi_status wi status @ '')''))
                | Some v \<Rightarrow>
                    (case decode v of
                       Inl error \<Rightarrow> Inl (Protocol (''decode daemon result: '' @ error))
                     | Inr r \<Rightarrow> Inr r))))"

text \<open>Parameters that could not be encoded are \<open>Inl\<close>; the timeout is in milliseconds.\<close>

definition call_with_timeout ::
  "'v wire \<Rightarrow> 's net \<Rightarrow> client \<Rightarrow> ('v, 'r) decoder \<Rightarrow> string \<Rightarrow> (string, 'v) result \<Rightarrow> nat \<Rightarrow> 's \<Rightarrow>
     (client_error, 'r) result \<times> 's" where
  "call_with_timeout wi net client decode meth params timeout s =
     (case params of
        Inl error \<Rightarrow> (Inl (Protocol (''encode params: '' @ error)), s)
      | Inr params \<Rightarrow>
          (case wi_request wi \<lparr>q_id = Some (wi_one wi), q_method = meth, q_params = Some params\<rparr> of
             Inl error \<Rightarrow> (Inl (Transport (''call daemon: '' @ error)), s)
           | Inr body \<Rightarrow>
               (case net \<lparr>hq_post = True, hq_url = cl_base_url client @ ''/rpc'',
                          hq_bearer = cl_token client, hq_timeout = Some timeout,
                          hq_body = Some body\<rparr> s of
                  (Inl error, s') \<Rightarrow> (Inl (Transport (''call daemon: '' @ error)), s')
                | (Inr answer, s') \<Rightarrow>
                    ((case ha_text answer of
                        Inl error \<Rightarrow> Inl (Transport (''read daemon response: '' @ error))
                      | Inr body \<Rightarrow> decode_response wi decode (ha_status answer) body), s'))))"

definition client_call ::
  "'v wire \<Rightarrow> 's net \<Rightarrow> client \<Rightarrow> ('v, 'r) decoder \<Rightarrow> string \<Rightarrow> (string, 'v) result \<Rightarrow> 's \<Rightarrow>
     (client_error, 'r) result \<times> 's" where
  "client_call wi net client decode meth params s =
     call_with_timeout wi net client decode meth params DEFAULT_TIMEOUT s"

definition client_health ::
  "'v wire \<Rightarrow> 's net \<Rightarrow> client \<Rightarrow> 's \<Rightarrow> (client_error, health_result) result \<times> 's" where
  "client_health wi net client s =
     (case call_with_timeout wi net client (wi_health wi) ''health'' (Inr (wi_object wi)) 2000 s of
        (Inl e, s') \<Rightarrow> (Inl e, s')
      | (Inr found, s') \<Rightarrow>
          if hr_protocol found \<noteq> PROTOCOL_VERSION
          then (Inl (Protocol (''daemon speaks protocol '' @ dec (unat (hr_protocol found)) @
                  '', this client speaks '' @ dec (unat PROTOCOL_VERSION))), s')
          else (Inr found, s'))"

text \<open>\<open>subscribe\<close>: the stream to read, or why there is none. A value decodes to itself.\<close>

definition subscribe ::
  "'v wire \<Rightarrow> target_codec \<Rightarrow> 's net \<Rightarrow> client \<Rightarrow> target \<Rightarrow> 's \<Rightarrow> (client_error, chunks) result \<times> 's" where
  "subscribe wi tc net client t s =
     (case net \<lparr>hq_post = False,
                hq_url = cl_base_url client @ ''/events?target='' @ encode_target tc t,
                hq_bearer = cl_token client, hq_timeout = None, hq_body = None\<rparr> s of
        (Inl error, s') \<Rightarrow> (Inl (Transport (''subscribe: '' @ error)), s')
      | (Inr answer, s') \<Rightarrow>
          if 200 \<le> ha_status answer \<and> ha_status answer < 300 then (Inr (ha_chunks answer), s')
          else
            (case decode_response wi Inr (ha_status answer)
                    (case ha_text answer of Inl _ \<Rightarrow> [] | Inr body \<Rightarrow> body) of
               Inl error \<Rightarrow> (Inl error, s')
             | Inr _ \<Rightarrow>
                 (Inl (Transport (''subscribe: HTTP '' @ wi_status wi (ha_status answer))), s')))"

section \<open>Connecting\<close>

text \<open>
  What \<open>connect_or_spawn\<close> sees of its surroundings: the clock in milliseconds, sleeping, and the
  outcome of starting the daemon.
\<close>

record 's host =
  ho_now :: "'s \<Rightarrow> nat"
  ho_sleep :: "nat \<Rightarrow> 's \<Rightarrow> 's"
  ho_exe :: "'s \<Rightarrow> (string, string) result"
  ho_start :: "string \<Rightarrow> 's \<Rightarrow> (string, unit) result \<times> 's"

definition POLL_INTERVAL :: nat where "POLL_INTERVAL = 150"
definition SPAWN_DEADLINE :: nat where "SPAWN_DEADLINE = 10000"

definition spawn_daemon :: "'s host \<Rightarrow> 's \<Rightarrow> (client_error, unit) result \<times> 's" where
  "spawn_daemon ho s =
     (case ho_exe ho s of
        Inl error \<Rightarrow> (Inl (Transport (''locate recurse binary: '' @ error)), s)
      | Inr exe \<Rightarrow>
          (case ho_start ho exe s of
             (Inl error, s') \<Rightarrow> (Inl (Transport (''spawn recurse daemon: '' @ error)), s')
           | (Inr _, s') \<Rightarrow> (Inr (), s')))"

text \<open>The loop, with fuel; \<open>None\<close> when the fuel is used up.\<close>

fun wait_healthy ::
  "'v wire \<Rightarrow> 's net \<Rightarrow> 's host \<Rightarrow> client \<Rightarrow> nat \<Rightarrow> nat \<Rightarrow> client_error option \<Rightarrow> 's \<Rightarrow>
     ((client_error, client) result \<times> 's) option" where
  "wait_healthy wi net ho client deadline 0 last_error s = None"
| "wait_healthy wi net ho client deadline (Suc fuel) last_error s =
     (if ho_now ho s < deadline then
        (case client_health wi net client (ho_sleep ho POLL_INTERVAL s) of
           (Inr _, s') \<Rightarrow> Some (Inr client, s')
         | (Inl (Protocol e), s') \<Rightarrow> Some (Inl (Protocol e), s')
         | (Inl (Rpc_Failed e), s') \<Rightarrow>
             wait_healthy wi net ho client deadline fuel (Some (Rpc_Failed e)) s'
         | (Inl (Transport e), s') \<Rightarrow>
             wait_healthy wi net ho client deadline fuel (Some (Transport e)) s')
      else
        Some (Inl (Transport (''recurse daemon did not become healthy within 10s at '' @
                cl_base_url client @ '': '' @
                (case last_error of None \<Rightarrow> [] | Some e \<Rightarrow> client_error_display e))), s))"

definition is_protocol :: "client_error \<Rightarrow> bool" where
  "is_protocol e = (case e of Protocol _ \<Rightarrow> True | Rpc_Failed _ \<Rightarrow> False | Transport _ \<Rightarrow> False)"

definition connect_or_spawn ::
  "'v wire \<Rightarrow> 's net \<Rightarrow> 's host \<Rightarrow> (string, unit) result \<Rightarrow> environment \<Rightarrow> nat \<Rightarrow> 's \<Rightarrow>
     ((client_error, client) result \<times> 's) option" where
  "connect_or_spawn wi net ho build vars fuel s =
     (case client_from_env build vars of
        Inl e \<Rightarrow> Some (Inl e, s)
      | Inr client \<Rightarrow>
          (case client_health wi net client s of
             (Inr _, s') \<Rightarrow> Some (Inr client, s')
           | (Inl e, s') \<Rightarrow>
               if is_protocol e \<or> vars ''RECURSE_DAEMON_URL'' \<noteq> None then Some (Inl e, s')
               else
                 (case spawn_daemon ho s' of
                    (Inl e, s'') \<Rightarrow> Some (Inl e, s'')
                  | (Inr _, s'') \<Rightarrow>
                      wait_healthy wi net ho client (ho_now ho s'' + SPAWN_DEADLINE) fuel None s'')))"

end
