(* ===== verification/Mcp.thy ===== *)
theory Mcp
  imports Client Json
begin

text \<open>
  \<open>crates/mcp\<close>: the stdio MCP server, a client of the daemon for one target. \<open>session.rs\<close> (the lazily
  connected client and the second registration), \<open>format.rs\<close> (the text of a cell), \<open>tools.rs\<close> (the
  tools) and the answer to one line of \<open>lib.rs\<close>. The derived decoders, the JSON reader and printer
  are parameters; \<open>None\<close> is the loop of \<open>connect_or_spawn\<close> out of fuel.
\<close>

section \<open>The text of a cell\<close>

definition cell_sections :: "cell_result \<Rightarrow> string list" where
  "cell_sections cell =
     (if cr_stdout cell \<noteq> [] then [''stdout:'' @ [newline] @ trim_end_matches newline (cr_stdout cell)] else []) @
     (if cr_stderr cell \<noteq> [] then [''stderr:'' @ [newline] @ trim_end_matches newline (cr_stderr cell)] else []) @
     (case cr_result cell of None \<Rightarrow> [] | Some r \<Rightarrow> [''result:'' @ [newline] @ r]) @
     (case cr_error cell of
        None \<Rightarrow> []
      | Some error \<Rightarrow>
          [''error: '' @ ename error @ '': '' @ evalue error @ [newline] @
           trim_end_matches newline (traceback error)])"

definition status_line :: "cell_result \<Rightarrow> string" where
  "status_line cell =
     ''status: '' @ cell_status_as_str (cr_status cell) @ '' (execution_count '' @
     dec (unat (cr_execution_count cell)) @ '', '' @ dec (unat (cr_duration_ms cell)) @ '' ms'' @
     (if cr_truncated cell then '', output truncated'' else []) @ '')''"

definition format_cell :: "cell_result \<Rightarrow> string" where
  "format_cell cell = join [newline, newline] (cell_sections cell @ [status_line cell])"

definition cell_is_error :: "cell_result \<Rightarrow> bool" where
  "cell_is_error cell \<longleftrightarrow> cr_status cell \<noteq> Cell_Ok"

definition pending_events :: "event list \<Rightarrow> string option" where
  "pending_events events =
     (let actionable = length (filter e_actionable events)
      in if events = [] then None
         else Some (''[recurse] '' @ dec (length events) @ '' queued event(s) ('' @ dec actionable @
                '' actionable); call events_read, handle them, then events_ack.''))"

section \<open>Surroundings\<close>

record call_params =
  cp_name :: string
  cp_arguments :: json_value

record ipython_args =
  ip_code :: string
  ip_timeout_sec :: "u64 option"

record 's mcp =
  mc_wire :: "json_value wire"
  mc_net :: "'s net"
  mc_host :: "'s host"
  mc_build :: "(string, unit) result"
  mc_vars :: environment
  mc_from_str :: "string \<Rightarrow> (string, json_value) result"
  mc_pretty :: "json_value \<Rightarrow> string"
  mc_call_params :: "(json_value, call_params) decoder"
  mc_ipython :: "(json_value, ipython_args) decoder"
  mc_ack :: "(json_value, string list) decoder"
  mc_cell :: "(json_value, cell_result) decoder"
  mc_events :: "(json_value, event list) decoder"

section \<open>The session\<close>

record session =
  se_target :: target
  se_cwd :: string
  se_client :: "client option"

definition session_new :: "(string, string) result \<Rightarrow> (string \<Rightarrow> string) \<Rightarrow> target \<Rightarrow> session" where
  "session_new cwd lossy t =
     \<lparr>se_target = t, se_cwd = (case cwd of Inr d \<Rightarrow> lossy d | Inl _ \<Rightarrow> ''/''), se_client = None\<rparr>"

text \<open>The process id, and the milliseconds since the epoch unless the clock is before it.\<close>

definition session_from_env ::
  "environment \<Rightarrow> nat \<Rightarrow> nat option \<Rightarrow> (string, string) result \<Rightarrow> (string \<Rightarrow> string) \<Rightarrow> session" where
  "session_from_env vars pid elapsed cwd lossy =
     (let fresh = ''mcp-'' @ dec pid @ ''-'' @ dec (case elapsed of None \<Rightarrow> 0 | Some ms \<Rightarrow> ms);
          tid = (case env_utf8 vars ''RECURSE_TARGET_ID'' of
                   None \<Rightarrow> fresh | Some i \<Rightarrow> if i = [] then fresh else i)
      in session_new cwd lossy \<lparr>t_kind = Mcp, t_id = tid\<rparr>)"

text \<open>A call on the session: its outcome, the session and the world.\<close>

type_synonym ('a, 's) mcall = "session \<times> 's \<Rightarrow> ('a \<times> session \<times> 's) option"

definition register_request :: "session \<Rightarrow> register_params" where
  "register_request se =
     \<lparr>reg_target = se_target se, reg_cwd = se_cwd se,
      reg_host = \<lparr>h_name = Host_Mcp, h_version = Some VERSION, h_supports_children = False\<rparr>,
      reg_model = None\<rparr>"

definition session_register :: "'s mcp \<Rightarrow> client \<Rightarrow> ((client_error, unit) result, 's) mcall" where
  "session_register mc client = (\<lambda>(se, s).
     let (r, s') = client_call (mc_wire mc) (mc_net mc) client Inr ''target.register''
           (Inr (register_params_value (register_request se))) s
     in Some (map_sum (\<lambda>e. e) (\<lambda>_. ()) r, se, s'))"

text \<open>\<open>get_or_try_init\<close>: connect and register once; a failure is not remembered.\<close>

definition session_client :: "'s mcp \<Rightarrow> ((client_error, client) result, 's) mcall" where
  "session_client mc = (\<lambda>(se, s).
     case se_client se of
       Some client \<Rightarrow> Some (Inr client, se, s)
     | None \<Rightarrow>
         (case connect_or_spawn (mc_wire mc) (mc_net mc) (mc_host mc) (mc_build mc) (mc_vars mc) 68 s of
            None \<Rightarrow> None
          | Some (Inl e, s') \<Rightarrow> Some (Inl e, se, s')
          | Some (Inr client, s') \<Rightarrow>
              (case session_register mc client (se, s') of
                 None \<Rightarrow> None
               | Some (Inl e, se', s'') \<Rightarrow> Some (Inl e, se', s'')
               | Some (Inr _, se', s'') \<Rightarrow> Some (Inr client, se'\<lparr>se_client := Some client\<rparr>, s''))))"

definition session_call ::
  "'s mcp \<Rightarrow> (json_value, 'r) decoder \<Rightarrow> string \<Rightarrow> json_value \<Rightarrow> nat \<Rightarrow> ((client_error, 'r) result, 's) mcall" where
  "session_call mc decode meth params timeout = (\<lambda>(se, s).
     case session_client mc (se, s) of
       None \<Rightarrow> None
     | Some (Inl e, se, s) \<Rightarrow> Some (Inl e, se, s)
     | Some (Inr client, se, s) \<Rightarrow>
         (let again = call_with_timeout (mc_wire mc) (mc_net mc) client decode meth (Inr params) timeout;
              (r, s) = again s
          in case r of
               Inl e \<Rightarrow>
                 if client_error_code e = Some NotFound \<and> starts_with ''kernel.'' meth then
                   (case session_register mc client (se, s) of
                      None \<Rightarrow> None
                    | Some (Inl e, se, s) \<Rightarrow> Some (Inl e, se, s)
                    | Some (Inr _, se, s) \<Rightarrow> (let (r, s) = again s in Some (r, se, s)))
                 else Some (Inl e, se, s)
             | Inr v \<Rightarrow> Some (Inr v, se, s)))"

section \<open>Tools\<close>

definition annotations :: "bool \<Rightarrow> bool \<Rightarrow> bool \<Rightarrow> bool \<Rightarrow> json_value" where
  "annotations read_only destructive idempotent open_world =
     json_object [(''readOnlyHint'', J_Bool read_only), (''destructiveHint'', J_Bool destructive),
       (''idempotentHint'', J_Bool idempotent), (''openWorldHint'', J_Bool open_world)]"

definition tool_entry :: "string \<Rightarrow> string \<Rightarrow> string \<Rightarrow> json_value \<Rightarrow> json_value \<Rightarrow> json_value" where
  "tool_entry name title description schema hints =
     json_object [(''name'', J_String name), (''title'', J_String title),
       (''description'', J_String description), (''inputSchema'', schema), (''annotations'', hints)]"

definition object_schema :: "(string \<times> json_value) list \<Rightarrow> string list \<Rightarrow> json_value" where
  "object_schema properties required =
     json_object [(''type'', J_String ''object''), (''properties'', json_object properties),
       (''required'', J_Array (map J_String required)), (''additionalProperties'', J_Bool False)]"

definition no_arguments :: json_value where
  "no_arguments =
     json_object [(''type'', J_String ''object''), (''properties'', json_object []),
       (''additionalProperties'', J_Bool False)]"

definition ipython_schema :: json_value where
  "ipython_schema =
     object_schema
       [(''code'', json_object [(''type'', J_String ''string''),
           (''description'', J_String ''Python source for one cell'')]),
        (''timeout_sec'', json_object [(''type'', J_String ''integer''), (''minimum'', J_Int 1),
           (''maximum'', J_Int (uint MAX_TIMEOUT_SEC)),
           (''description'', J_String ''Cell timeout (default 600)'')])]
       [''code'']"

definition ack_schema :: json_value where
  "ack_schema =
     object_schema
       [(''event_ids'', json_object [(''type'', J_String ''array''),
           (''items'', json_object [(''type'', J_String ''string'')])])]
       [''event_ids'']"

definition apostrophe :: string where "apostrophe = [CHR 0x27]"

definition tool_entries :: "json_value list" where
  "tool_entries =
     [tool_entry ''ipython'' ''IPython''
        (''Run Python in this session'' @ apostrophe @ ''s persistent kernel (top-level await allowed). Returns stdout, stderr, the repr of the last expression, and any error. State persists across calls.'')
        ipython_schema (annotations False True False True),
      tool_entry ''kernel_status'' ''Kernel status''
        ''Show the kernel state, pid, execution count, cwd, and live bash() handles.''
        no_arguments (annotations True False True False),
      tool_entry ''kernel_restart'' ''Restart kernel''
        ''Discard all Python state; the next ipython call starts a fresh kernel.''
        no_arguments (annotations False True True False),
      tool_entry ''kernel_interrupt'' ''Interrupt cell''
        ''Raise KeyboardInterrupt in the running cell, if any.''
        no_arguments (annotations False False True False),
      tool_entry ''events_read'' ''Read events''
        ''List queued recurse events (background command notices, kernel exits) oldest first. They stay queued until events_ack.''
        no_arguments (annotations True False True False),
      tool_entry ''events_ack'' ''Acknowledge events''
        ''Remove handled events from the queue by id.''
        ack_schema (annotations False False True False)]"

definition tools_list :: json_value where
  "tools_list = json_object [(''tools'', J_Array tool_entries)]"

definition tool_text :: "string \<Rightarrow> bool \<Rightarrow> json_value" where
  "tool_text txt is_error =
     json_object [(''content'', J_Array [json_object [(''type'', J_String ''text''), (''text'', J_String txt)]]),
       (''isError'', J_Bool is_error)]"

definition tool_failure :: "client_error \<Rightarrow> json_value" where
  "tool_failure error = tool_text (''recurse: '' @ client_error_display error) True"

definition parse_arguments :: "(json_value, 'a) decoder \<Rightarrow> json_value \<Rightarrow> (string, 'a) result" where
  "parse_arguments decode arguments =
     map_sum (\<lambda>e. ''invalid arguments: '' @ e) (\<lambda>a. a) (decode arguments)"

definition session_target :: "session \<Rightarrow> json_value" where
  "session_target se = json_object [(''target'', target_value (se_target se))]"

text \<open>The timeout of a cell in seconds, and when the client gives up, in milliseconds.\<close>

definition ipython_timeout :: "u64 option \<Rightarrow> u64" where
  "ipython_timeout given = max 1 (min (case given of None \<Rightarrow> 600 | Some n \<Rightarrow> n) MAX_TIMEOUT_SEC)"

definition ipython_deadline :: "u64 \<Rightarrow> nat" where
  "ipython_deadline timeout_sec = 1000 * min (unat timeout_sec + 30) (2 ^ 64 - 1)"

definition ipython :: "'s mcp \<Rightarrow> ipython_args \<Rightarrow> (json_value, 's) mcall" where
  "ipython mc args = (\<lambda>(se, s).
     let timeout_sec = ipython_timeout (ip_timeout_sec args);
         params = json_object [(''target'', target_value (se_target se)), (''code'', J_String (ip_code args)),
                    (''timeout_sec'', J_Int (uint timeout_sec))]
     in case session_call mc (mc_cell mc) ''kernel.execute'' params (ipython_deadline timeout_sec) (se, s) of
          None \<Rightarrow> None
        | Some (Inl e, se, s) \<Rightarrow> Some (tool_failure e, se, s)
        | Some (Inr cell, se, s) \<Rightarrow>
            (case session_call mc (mc_events mc) ''events.list'' (session_target se) DEFAULT_TIMEOUT (se, s) of
               None \<Rightarrow> None
             | Some (events, se, s) \<Rightarrow>
                 let notice = (case events of Inl _ \<Rightarrow> None | Inr es \<Rightarrow> pending_events es);
                     rendered = format_cell cell @
                       (case notice of None \<Rightarrow> [] | Some n \<Rightarrow> [newline, newline] @ n)
                 in Some (tool_text rendered (cell_is_error cell), se, s)))"

text \<open>The tools that hand the daemon's result over as text.\<close>

definition tool_method :: "string \<Rightarrow> string option" where
  "tool_method name =
     (if name = ''kernel_status'' then Some ''kernel.status''
      else if name = ''kernel_restart'' then Some ''kernel.restart''
      else if name = ''kernel_interrupt'' then Some ''kernel.interrupt''
      else if name = ''events_read'' then Some ''events.list''
      else None)"

definition relay :: "'s mcp \<Rightarrow> string \<Rightarrow> json_value \<Rightarrow> (json_value, 's) mcall" where
  "relay mc meth params = (\<lambda>(se, s).
     case session_call mc Inr meth params DEFAULT_TIMEOUT (se, s) of
       None \<Rightarrow> None
     | Some (Inl e, se, s) \<Rightarrow> Some (tool_failure e, se, s)
     | Some (Inr v, se, s) \<Rightarrow> Some (tool_text (mc_pretty mc v) False, se, s))"

definition mcall_ok :: "(json_value, 's) mcall \<Rightarrow> ((string, json_value) result, 's) mcall" where
  "mcall_ok m st = map_option (\<lambda>(v, st'). (Inr v, st')) (m st)"

definition tools_call :: "'s mcp \<Rightarrow> json_value \<Rightarrow> ((string, json_value) result, 's) mcall" where
  "tools_call mc params = (\<lambda>(se, s).
     case mc_call_params mc params of
       Inl e \<Rightarrow> Some (Inl (''invalid tools/call: '' @ e), se, s)
     | Inr p \<Rightarrow>
         (let arguments = (if json_is_null (cp_arguments p) then json_object [] else cp_arguments p);
              name = cp_name p
          in if name = ''ipython'' then
               (case parse_arguments (mc_ipython mc) arguments of
                  Inl e \<Rightarrow> Some (Inl e, se, s)
                | Inr args \<Rightarrow> mcall_ok (ipython mc args) (se, s))
             else if name = ''events_ack'' then
               (case parse_arguments (mc_ack mc) arguments of
                  Inl e \<Rightarrow> Some (Inl e, se, s)
                | Inr ids \<Rightarrow>
                    mcall_ok (relay mc ''events.ack''
                      (json_object [(''target'', target_value (se_target se)),
                         (''event_ids'', J_Array (map J_String ids))])) (se, s))
             else
               (case tool_method name of
                  Some meth \<Rightarrow> mcall_ok (relay mc meth (session_target se)) (se, s)
                | None \<Rightarrow> Some (Inl (''unknown tool '' @ name), se, s))))"

section \<open>One line\<close>

definition MCP_PROTOCOL_VERSION :: string where "MCP_PROTOCOL_VERSION = ''2025-11-25''"

definition error_response :: "json_value \<Rightarrow> int \<Rightarrow> string \<Rightarrow> json_value" where
  "error_response rid c msg =
     json_object [(''jsonrpc'', J_String ''2.0''), (''id'', rid),
       (''error'', json_object [(''code'', J_Int c), (''message'', J_String msg)])]"

definition result_response :: "json_value \<Rightarrow> json_value \<Rightarrow> json_value" where
  "result_response rid v =
     json_object [(''jsonrpc'', J_String ''2.0''), (''id'', rid), (''result'', v)]"

definition mcp_answer :: "json_value \<Rightarrow> (string, json_value) result \<Rightarrow> json_value" where
  "mcp_answer rid outcome =
     (case outcome of Inr v \<Rightarrow> result_response rid v | Inl msg \<Rightarrow> error_response rid (- 32602) msg)"

definition initialize :: json_value where
  "initialize =
     json_object
       [(''protocolVersion'', J_String MCP_PROTOCOL_VERSION),
        (''capabilities'', json_object [(''tools'', json_object [])]),
        (''serverInfo'', json_object [(''name'', J_String ''recurse''), (''version'', J_String VERSION)]),
        (''instructions'', J_String (''Use the ipython tool to work in a persistent Python kernel. State persists across calls; the last expression'' @ apostrophe @ ''s repr is returned. Call events_read when told events are pending and events_ack after handling them.''))]"

definition handle_line :: "'s mcp \<Rightarrow> string \<Rightarrow> (json_value option, 's) mcall" where
  "handle_line mc line = (\<lambda>(se, s).
     case mc_from_str mc line of
       Inl e \<Rightarrow> Some (Some (error_response J_Null (- 32700) (''parse error: '' @ e)), se, s)
     | Inr request \<Rightarrow>
         (case json_get request ''id'' of
            None \<Rightarrow> Some (None, se, s)
          | Some rid \<Rightarrow>
              (let meth = (case Option.bind (json_get request ''method'') json_as_str of
                             None \<Rightarrow> [] | Some m \<Rightarrow> m);
                   params = (case json_get request ''params'' of None \<Rightarrow> json_object [] | Some p \<Rightarrow> p)
               in if meth = ''initialize'' then Some (Some (mcp_answer rid (Inr initialize)), se, s)
                  else if meth = ''ping'' then Some (Some (mcp_answer rid (Inr (json_object []))), se, s)
                  else if meth = ''tools/list'' then Some (Some (mcp_answer rid (Inr tools_list)), se, s)
                  else if meth = ''tools/call'' then
                    map_option (\<lambda>(r, st). (Some (mcp_answer rid r), st)) (tools_call mc params (se, s))
                  else Some (Some (error_response rid (- 32601) (''method not found: '' @ meth)), se, s))))"

end
