(* ===== verification/Mcp_Stdio.thy ===== *)
theory Mcp_Stdio
  imports Mcp "HOL-Library.Multiset"
begin

text \<open>
  \<open>run_stdio\<close> of \<open>crates/mcp/src/lib.rs\<close>: the loop that reads lines, the task of each line and the
  task that writes the responses, as a step relation. Tasks end in any order; one step of a task is
  its whole answer. Standard input is the list of what \<open>next_line\<close> yields before the end.
\<close>

section \<open>Steps\<close>

definition MCP_CHANNEL :: nat where "MCP_CHANNEL = 64"

record 's stdio =
  io_lines :: "(string, string) result list"
  io_tasks :: "string list"
  io_queue :: "json_value list"
  io_writer :: bool
  io_written :: "json_value list"
  io_session :: session
  io_world :: 's
  io_result :: "(string, unit) result option"

definition stdio_start :: "(string, string) result list \<Rightarrow> session \<Rightarrow> 's \<Rightarrow> 's stdio" where
  "stdio_start input se s =
     \<lparr>io_lines = input, io_tasks = [], io_queue = [], io_writer = True, io_written = [],
      io_session = se, io_world = s, io_result = None\<rparr>"

text \<open>The bytes on standard output.\<close>

definition stdout_bytes :: "(json_value \<Rightarrow> (string, string) result) \<Rightarrow> 's stdio \<Rightarrow> string" where
  "stdout_bytes to_vec x =
     concat (map (\<lambda>m. (case to_vec m of Inl _ \<Rightarrow> [] | Inr bytes \<Rightarrow> bytes) @ [newline]) (io_written x))"

definition blank :: "string \<Rightarrow> bool" where
  "blank line \<longleftrightarrow> trim line = []"

text \<open>
  A response is sent when the channel has room; when the writer has gone it is dropped. The writer ends
  when every sender has gone and the channel is empty, or when a write has failed; \<open>run_stdio\<close> waits for
  the writer, not for the tasks.
\<close>

definition response_list :: "json_value option \<Rightarrow> json_value list" where
  "response_list r = (case r of None \<Rightarrow> [] | Some m \<Rightarrow> [m])"

definition has_room :: "json_value option \<Rightarrow> 's stdio \<Rightarrow> bool" where
  "has_room r x \<longleftrightarrow> r = None \<or> \<not> io_writer x \<or> length (io_queue x) < MCP_CHANNEL"

inductive stdio_step :: "'s mcp \<Rightarrow> 's stdio \<Rightarrow> 's stdio \<Rightarrow> bool" for mc where
  Read_Blank:
    "io_result x = None \<Longrightarrow> io_lines x = Inr line # later \<Longrightarrow> blank line \<Longrightarrow>
     stdio_step mc x (x\<lparr>io_lines := later\<rparr>)"
| Read_Line:
    "io_result x = None \<Longrightarrow> io_lines x = Inr line # later \<Longrightarrow> \<not> blank line \<Longrightarrow>
     stdio_step mc x (x\<lparr>io_lines := later, io_tasks := io_tasks x @ [line]\<rparr>)"
| Read_Error:
    "io_result x = None \<Longrightarrow> io_lines x = Inl e # later \<Longrightarrow>
     stdio_step mc x (x\<lparr>io_lines := later, io_result := Some (Inl e)\<rparr>)"
| Finish:
    "io_result x = None \<Longrightarrow> io_tasks x = before @ line # after \<Longrightarrow>
     handle_line mc line (io_session x, io_world x) = Some (r, se, s) \<Longrightarrow> has_room r x \<Longrightarrow>
     stdio_step mc x
       (x\<lparr>io_tasks := before @ after, io_session := se, io_world := s,
          io_queue := (if io_writer x then io_queue x @ response_list r else io_queue x)\<rparr>)"
| Write:
    "io_result x = None \<Longrightarrow> io_writer x \<Longrightarrow> io_queue x = m # later \<Longrightarrow>
     stdio_step mc x (x\<lparr>io_queue := later, io_written := io_written x @ [m]\<rparr>)"
| Write_Fails:
    "io_result x = None \<Longrightarrow> io_writer x \<Longrightarrow> io_queue x = m # later \<Longrightarrow>
     stdio_step mc x (x\<lparr>io_queue := [], io_writer := False\<rparr>)"
| Return:
    "io_result x = None \<Longrightarrow> io_lines x = [] \<Longrightarrow> \<not> io_writer x \<or> io_tasks x = [] \<and> io_queue x = [] \<Longrightarrow>
     stdio_step mc x (x\<lparr>io_result := Some (Inr ())\<rparr>)"

section \<open>What a line asks for\<close>

text \<open>The id a response to the line has to carry; nothing for a notification.\<close>

definition line_id :: "'s mcp \<Rightarrow> string \<Rightarrow> json_value option" where
  "line_id mc line =
     (case mc_from_str mc line of Inl _ \<Rightarrow> Some J_Null | Inr request \<Rightarrow> json_get request ''id'')"

definition response_id :: "json_value \<Rightarrow> json_value" where
  "response_id m = (case json_get m ''id'' of None \<Rightarrow> J_Null | Some rid \<Rightarrow> rid)"

text \<open>A JSON-RPC response: a result or an error, not both.\<close>

definition is_response :: "json_value \<Rightarrow> bool" where
  "is_response m \<longleftrightarrow>
     json_get m ''jsonrpc'' = Some (J_String ''2.0'') \<and> json_get m ''id'' \<noteq> None \<and>
     (json_get m ''result'' = None) \<noteq> (json_get m ''error'' = None)"

lemma error_response_is [simp]:
  "is_response (error_response rid c msg)" "response_id (error_response rid c msg) = rid"
  by (simp_all add: is_response_def response_id_def error_response_def)

lemma result_response_is [simp]:
  "is_response (result_response rid v)" "response_id (result_response rid v) = rid"
  by (simp_all add: is_response_def response_id_def result_response_def)

lemma mcp_answer_is [simp]:
  "is_response (mcp_answer rid outcome)" "response_id (mcp_answer rid outcome) = rid"
  by (simp_all add: mcp_answer_def split: sum.splits)

lemma handle_line_responds:
  assumes "handle_line mc line (se, s) = Some (r, st)"
  shows "map_option response_id r = line_id mc line" "list_all is_response (response_list r)"
  using assms
  by (auto simp: handle_line_def line_id_def response_list_def Let_def
      split: sum.splits option.splits if_splits)

lemma notification_ignored:
  assumes "mc_from_str mc line = Inr request" "json_get request ''id'' = None"
  shows "handle_line mc line (se, s) = Some (None, se, s)"
  using assms by (simp add: handle_line_def)

section \<open>Every request is answered once\<close>

definition line_ids :: "'s mcp \<Rightarrow> string list \<Rightarrow> json_value multiset" where
  "line_ids mc ls = mset (List.map_filter (line_id mc) ls)"

definition input_ids :: "'s mcp \<Rightarrow> (string, string) result list \<Rightarrow> json_value multiset" where
  "input_ids mc input =
     line_ids mc (filter (\<lambda>l. \<not> blank l) (List.map_filter (case_sum (\<lambda>_. None) Some) input))"

text \<open>The ids still to be answered, on their way and answered.\<close>

definition all_ids :: "'s mcp \<Rightarrow> 's stdio \<Rightarrow> json_value multiset" where
  "all_ids mc x =
     input_ids mc (io_lines x) + line_ids mc (io_tasks x) +
     mset (map response_id (io_queue x)) + mset (map response_id (io_written x))"

definition stdio_inv :: "'s mcp \<Rightarrow> json_value multiset \<Rightarrow> 's stdio \<Rightarrow> bool" where
  "stdio_inv mc ids x \<longleftrightarrow>
     list_all is_response (io_queue x @ io_written x) \<and> length (io_queue x) \<le> MCP_CHANNEL \<and>
     (if io_writer x then all_ids mc x = ids else io_queue x = []) \<and>
     (io_result x = Some (Inr ()) \<longrightarrow> io_lines x = [] \<and> (io_writer x \<longrightarrow> io_tasks x = [] \<and> io_queue x = []))"

lemma line_ids_simps [simp]:
  "line_ids mc [] = {#}"
  "line_ids mc (l # ls) = mset (case_option [] (\<lambda>i. [i]) (line_id mc l)) + line_ids mc ls"
  "line_ids mc (ls @ ls') = line_ids mc ls + line_ids mc ls'"
  by (simp_all add: line_ids_def List.map_filter_def split: option.splits)

lemma input_ids_simps [simp]:
  "input_ids mc [] = {#}" "input_ids mc (Inl e # input) = input_ids mc input"
  "input_ids mc (Inr l # input) = (if blank l then {#} else line_ids mc [l]) + input_ids mc input"
  by (simp_all add: input_ids_def List.map_filter_def)

lemma response_list_ids:
  "mset (map response_id (response_list r)) = mset (case_option [] (\<lambda>i. [i]) (map_option response_id r))"
  by (cases r) (simp_all add: response_list_def)

lemma response_list_length: "length (response_list r) = (if r = None then 0 else 1)"
  by (simp add: response_list_def split: option.splits)

lemma stdio_inv_step:
  assumes "stdio_inv mc ids x" "stdio_step mc x y"
  shows "stdio_inv mc ids y"
  using assms(2)
proof cases
  case (Finish before line after r se s)
  note answer = handle_line_responds [OF Finish(4)]
  have "image_mset response_id (mset (response_list r)) = line_ids mc [line]"
    using response_list_ids [of r] answer(1) by simp
  then show ?thesis
    using assms(1) Finish answer(2)
    by (auto simp: stdio_inv_def all_ids_def has_room_def response_list_length)
next
  case (Read_Line line later)
  then show ?thesis using assms(1) by (auto simp: stdio_inv_def all_ids_def ac_simps)
qed (use assms(1) in \<open>auto simp: stdio_inv_def all_ids_def ac_simps\<close>)

interpretation stdio: inductive_invariant "\<lambda>x. x = stdio_start input se s" "stdio_step mc"
  "stdio_inv mc (input_ids mc input)" for mc input se and s :: 's
proof
  show "x = stdio_start input se s \<Longrightarrow> stdio_inv mc (input_ids mc input) x" for x :: "'s stdio"
    by (simp add: stdio_inv_def all_ids_def stdio_start_def)
qed (rule stdio_inv_step)

section \<open>The loop ends\<close>

definition stdio_rank :: "'s stdio \<Rightarrow> nat" where
  "stdio_rank x =
     4 * length (io_lines x) + 3 * length (io_tasks x) + length (io_queue x) +
     (if io_result x = None then 1 else 0)"

lemma stdio_rank_step: "stdio_step mc x y \<Longrightarrow> stdio_rank y < stdio_rank x"
  by (induction rule: stdio_step.induct) (auto simp: stdio_rank_def response_list_length)

lemma stdio_can_step:
  assumes answers: "\<And>line st. handle_line mc line st \<noteq> None"
    and x: "io_result x = None" "io_writer x \<or> io_queue x = []"
  shows "\<exists>y. stdio_step mc x y"
proof (cases "io_queue x")
  case (Cons m later)
  show ?thesis by (rule exI, rule stdio_step.Write) (use x Cons in auto)
next
  case Nil
  show ?thesis
  proof (cases "io_tasks x")
    case (Cons line after)
    obtain r se s where "handle_line mc line (io_session x, io_world x) = Some (r, se, s)"
      using answers by fastforce
    then show ?thesis
      using x Nil Cons stdio_step.Finish [of x "[]" line after mc r se s]
      by (auto simp: has_room_def MCP_CHANNEL_def)
  next
    case no_task: Nil
    show ?thesis
    proof (cases "io_lines x")
      case Nil
      then show ?thesis using stdio_step.Return [OF x(1)] \<open>io_queue x = []\<close> no_task by blast
    next
      case (Cons l later)
      then show ?thesis
        using stdio_step.Read_Blank [OF x(1)] stdio_step.Read_Line [OF x(1)] stdio_step.Read_Error [OF x(1)]
        by (cases l) blast+
    qed
  qed
qed

lemma stdio_runs_out:
  assumes answers: "\<And>line st. handle_line mc line st \<noteq> None"
  shows "reach init (stdio_step mc) x \<Longrightarrow> io_writer x \<or> io_queue x = [] \<Longrightarrow>
    \<exists>y. reach init (stdio_step mc) y \<and> (stdio_step mc)\<^sup>*\<^sup>* x y \<and> io_result y \<noteq> None"
proof (induction "stdio_rank x" arbitrary: x rule: less_induct)
  case less
  show ?case
  proof (cases "io_result x = None")
    case True
    then obtain y where y: "stdio_step mc x y" using stdio_can_step answers less.prems(2) by blast
    then have "io_writer y \<or> io_queue y = []" using less.prems(2) by cases auto
    moreover have "reach init (stdio_step mc) y" using less.prems(1) y by (rule reach_step)
    ultimately obtain z where "reach init (stdio_step mc) z" "(stdio_step mc)\<^sup>*\<^sup>* y z" "io_result z \<noteq> None"
      using less.hyps [OF stdio_rank_step [OF y]] by blast
    then show ?thesis using y by (meson converse_rtranclp_into_rtranclp)
  qed (use less.prems in blast)
qed

end
