(* ===== verification/Client_Props.thy ===== *)
theory Client_Props
  imports Client Sse_Props
begin

text \<open>
  What the client may rely on: the target it subscribes for is the one the daemon sees, a call sees
  exactly the outcome the daemon gave it, and connecting always returns.
\<close>

section \<open>The target of a subscription\<close>

lemma trim_end_matches_pad:
  "c \<notin> set x \<Longrightarrow> trim_end_matches c (x @ replicate k c) = x"
proof -
  assume "c \<notin> set x"
  then have "dropWhile (\<lambda>y. y = c) (rev x) = rev x" by (cases "rev x") (auto dest: arg_cong [of _ _ set])
  moreover have "dropWhile (\<lambda>y. y = c) (replicate k c @ ys) = dropWhile (\<lambda>y. y = c) ys" for ys
    by (induction k) auto
  ultimately show ?thesis by (simp add: trim_end_matches_def)
qed

text \<open>
  The target in the URL of a subscription is read back by the daemon, padded or not, and accepted
  exactly when its id has a valid length.
\<close>

theorem target_roundtrip:
  assumes "tc_target_json tc t = Inr json" "tc_target_of_json tc json = Inr t"
    and "tc_decode_no_pad tc (tc_encode_no_pad tc json) = Inr json"
    and "CHR ''='' \<notin> set (tc_encode_no_pad tc json)"
  shows "decode_target tc (Some (encode_target tc t @ replicate k CHR ''='')) =
    (if target_is_valid t then Inr t else Inl (invalid ''target id must be 1-256 characters''))"
  using assms by (simp add: decode_target_def encode_target_def trim_end_matches_pad check_target_def)

section \<open>Calls\<close>

definition daemon_net :: "'v world \<Rightarrow> ('v response \<Rightarrow> string) \<Rightarrow> 'v app net" where
  "daemon_net w render rq app =
     (case rpc_handle w (map_option (\<lambda>t. ''Bearer '' @ t) (hq_bearer rq)) (hq_body rq) app of
        (Respond rs, app') \<Rightarrow>
          (Inr \<lparr>ha_status = rs_status rs, ha_text = Inr (render rs), ha_chunks = []\<rparr>, app')
      | (Respond_Later _ _, app') \<Rightarrow> (Inl ''operation timed out'', app'))"

lemma bearer_authorized:
  assumes "list_all printable t"
  shows "authorized (Some (''Bearer '' @ t)) (Some t)"
proof -
  have "header_str (''Bearer '' @ t) = Some (''Bearer '' @ t)"
    using assms by (auto simp: header_str_def list_all_iff printable_def)
  moreover have "strip_prefix ''Bearer '' (''Bearer '' @ t) = Some t"
    by (simp only: strip_prefix_Some)
  ultimately show ?thesis by (simp only: authorized_def option.case Option.bind.simps constant_time_eq_iff)
qed

text \<open>
  Serialisation carries a request when the daemon reads the method and the parameters back from the
  body the client wrote, and it carries the responses when the client reads the outcome back.
\<close>

definition carried :: "'v wire \<Rightarrow> 'v json \<Rightarrow> string \<Rightarrow> 'v \<Rightarrow> bool" where
  "carried wi js meth params \<longleftrightarrow>
     (\<exists>body raw. wi_request wi \<lparr>q_id = Some (wi_one wi), q_method = meth, q_params = Some params\<rparr> = Inr body \<and>
        length body \<le> RPC_BODY \<and> j_from_slice js body = Inr raw \<and>
        j_envelope js raw = Inr \<lparr>q_id = Some (wi_one wi), q_method = meth, q_params = Some params\<rparr>)"

definition answered :: "'v wire \<Rightarrow> ('v response \<Rightarrow> string) \<Rightarrow> 'v rpc_result \<Rightarrow> bool" where
  "answered wi render outcome \<longleftrightarrow>
     (let rs = reply (Some (wi_one wi)) outcome
      in wi_response wi (render rs) = Inr \<lparr>ev_result = rs_result rs, ev_error = rs_error rs\<rparr>)"

definition results_answered :: "'v wire \<Rightarrow> ('v response \<Rightarrow> string) \<Rightarrow> 'v json \<Rightarrow> bool" where
  "results_answered wi render js \<longleftrightarrow>
     (\<forall>x v. j_to_value js x = Inr v \<longrightarrow> answered wi render (Inr v))"

definition same_token :: "client \<Rightarrow> 'v app \<Rightarrow> bool" where
  "same_token client app \<longleftrightarrow>
     o_token (a_options app) = cl_token client \<and>
     (case cl_token client of None \<Rightarrow> True | Some t \<Rightarrow> list_all printable t)"

lemma same_token_authorized:
  "same_token client app \<Longrightarrow>
     authorized (map_option (\<lambda>t. ''Bearer '' @ t) (cl_token client)) (o_token (a_options app))"
  using bearer_authorized by (cases "cl_token client") (auto simp: same_token_def authorized_def)

definition client_outcome :: "('v, 'r) decoder \<Rightarrow> 'v rpc_result \<Rightarrow> (client_error, 'r) result" where
  "client_outcome decode outcome =
     (case outcome of
        Inl e \<Rightarrow> Inl (Rpc_Failed e)
      | Inr v \<Rightarrow> map_sum (\<lambda>e. Protocol (''decode daemon result: '' @ e)) (\<lambda>r. r) (decode v))"

text \<open>What the daemon makes of a call that is carried to it.\<close>

lemma handle_carried:
  assumes "carried wi (w_json w) meth params" "same_token client app"
    and "request_parse (w_json w) meth (Some params) = Inr request"
  obtains body where
    "wi_request wi \<lparr>q_id = Some (wi_one wi), q_method = meth, q_params = Some params\<rparr> = Inr body"
    "rpc_handle w (map_option (\<lambda>t. ''Bearer '' @ t) (cl_token client)) (Some body) app =
       (case rpc_dispatch w request (app_touch w app) of
          (Done r, app') \<Rightarrow> (Respond (reply (Some (wi_one wi)) r), app')
        | (Awaits i, app') \<Rightarrow> (Respond_Later (Some (wi_one wi)) i, app'))"
proof -
  obtain body raw where
      "wi_request wi \<lparr>q_id = Some (wi_one wi), q_method = meth, q_params = Some params\<rparr> = Inr body"
      "length body \<le> RPC_BODY" "j_from_slice (w_json w) body = Inr raw"
      "j_envelope (w_json w) raw = Inr \<lparr>q_id = Some (wi_one wi), q_method = meth, q_params = Some params\<rparr>"
    using assms(1) unfolding carried_def by blast
  then show ?thesis
    using that same_token_authorized [OF assms(2)] assms(3)
    by (simp add: rpc_handle_def parse_and_dispatch_def split: prod.splits outcome.splits)
qed

lemma daemon_call:
  assumes "carried wi (w_json w) meth params" "answered wi render outcome" "same_token client app"
    and "request_parse (w_json w) meth (Some params) = Inr request"
    and "rpc_dispatch w request (app_touch w app) = (Done outcome, app')"
  shows "call_with_timeout wi (daemon_net w render) client decode meth (Inr params) timeout app =
    (client_outcome decode outcome, app')"
proof -
  obtain body where body:
      "wi_request wi \<lparr>q_id = Some (wi_one wi), q_method = meth, q_params = Some params\<rparr> = Inr body"
      "rpc_handle w (map_option (\<lambda>t. ''Bearer '' @ t) (cl_token client)) (Some body) app =
        (Respond (reply (Some (wi_one wi)) outcome), app')"
    using handle_carried [OF assms(1,3,4)] assms(5) by auto
  then have "daemon_net w render \<lparr>hq_post = True, hq_url = cl_base_url client @ ''/rpc'',
        hq_bearer = cl_token client, hq_timeout = Some timeout, hq_body = Some body\<rparr> app =
      (Inr \<lparr>ha_status = rs_status (reply (Some (wi_one wi)) outcome),
        ha_text = Inr (render (reply (Some (wi_one wi)) outcome)), ha_chunks = []\<rparr>, app')"
    by (simp add: daemon_net_def)
  then show ?thesis
    using body(1) assms(2)
    by (simp add: call_with_timeout_def decode_response_def answered_def client_outcome_def reply_def Let_def
        split: sum.splits)
qed

text \<open>
  C26. A call of the client has exactly the outcome of the daemon's dispatch, whenever serialisation
  carries the request and the response: an RPC error as such, a result decoded; and the daemon is
  left in the state of that dispatch.
\<close>

theorem call_sees_outcome:
  assumes "carried wi (w_json w) meth params" "answered wi render outcome" "same_token client app"
    and "request_parse (w_json w) meth (Some params) = Inr request"
    and "rpc_dispatch w request (app_touch w app) = (Done outcome, app')"
  shows "call_with_timeout wi (daemon_net w render) client decode meth (Inr params) timeout app =
    ((case outcome of
        Inl e \<Rightarrow> Inl (Rpc_Failed e)
      | Inr v \<Rightarrow> map_sum (\<lambda>e. Protocol (''decode daemon result: '' @ e)) (\<lambda>r. r) (decode v)), app')"
  unfolding daemon_call [OF assms] client_outcome_def ..

section \<open>Connecting\<close>

lemma health_clock:
  assumes "\<And>rq s. ho_now ho s \<le> ho_now ho (snd (net rq s))"
  shows "ho_now ho s \<le> ho_now ho (snd (client_health wi net client s))"
  using assms
  by (auto simp: client_health_def call_with_timeout_def split_beta split: sum.splits)

lemma wait_returns:
  assumes net: "\<And>rq s. ho_now ho s \<le> ho_now ho (snd (net rq s))"
    and sleep: "\<And>d s. ho_now ho s + d \<le> ho_now ho (ho_sleep ho d s)"
  shows "deadline \<le> ho_now ho s + POLL_INTERVAL * fuel \<Longrightarrow>
    wait_healthy wi net ho client deadline (Suc fuel) last_error s \<noteq> None"
proof (induction fuel arbitrary: last_error s)
  case 0
  then show ?case by simp
next
  case (Suc fuel)
  let ?s = "ho_sleep ho POLL_INTERVAL s"
  obtain r s' where h: "client_health wi net client ?s = (r, s')" by fastforce
  have "ho_now ho s + POLL_INTERVAL \<le> ho_now ho s'"
    using sleep [of s POLL_INTERVAL] health_clock [of ho net ?s wi client, OF net] by (simp add: h)
  then have "wait_healthy wi net ho client deadline (Suc fuel) e s' \<noteq> None" for e
    using Suc by simp
  then show ?case
    by (subst wait_healthy.simps(2)) (simp add: h split: sum.splits client_error.splits del: wait_healthy.simps)
qed

lemma connect_total:
  assumes "\<And>rq s. ho_now ho s \<le> ho_now ho (snd (net rq s))"
    and "\<And>d s. ho_now ho s + d \<le> ho_now ho (ho_sleep ho d s)"
  shows "connect_or_spawn wi net ho build vars 68 s \<noteq> None"
proof -
  have "wait_healthy wi net ho client (ho_now ho s + SPAWN_DEADLINE) (Suc 67) None s \<noteq> None" for client s
    by (rule wait_returns [OF assms]) (simp add: SPAWN_DEADLINE_def POLL_INTERVAL_def)
  then have "wait_healthy wi net ho client (ho_now ho s + SPAWN_DEADLINE) 68 None s \<noteq> None" for client s
    by simp
  then show ?thesis
    by (auto simp: connect_or_spawn_def split: sum.splits prod.splits)
qed

text \<open>
  Connecting always returns: with a clock that no call turns back and that sleeping moves on,
  68 turns of the loop are enough for the ten seconds, whatever the daemon answers.
\<close>

theorem connect_returns:
  assumes "\<And>rq s. ho_now ho s \<le> ho_now ho (snd (net rq s))"
    and "\<And>d s. ho_now ho s + d \<le> ho_now ho (ho_sleep ho d s)"
  shows "\<exists>r. connect_or_spawn wi net ho build vars 68 s = Some r"
  using connect_total [where ho = ho and net = net, OF assms] by blast

section \<open>Witnesses\<close>

definition demo_target_codec :: target_codec where
  "demo_target_codec =
     \<lparr>tc_encode_no_pad = (\<lambda>_. ''QQ''), tc_decode_no_pad = (\<lambda>_. Inr ''A''),
      tc_decode_padded = (\<lambda>_. Inl ''no''), tc_target_json = (\<lambda>_. Inr ''A''),
      tc_target_of_json = (\<lambda>_. Inr demo_session)\<rparr>"

theorem target_roundtrip_witness:
  "decode_target demo_target_codec (Some ''QQ=='') = Inr demo_session"
proof -
  have "target_is_valid demo_session"
    by (simp add: target_is_valid_def demo_session_def char_count_def TARGET_ID_def)
  then show ?thesis
    using target_roundtrip [of demo_target_codec demo_session "''A''" 2]
    by (simp add: demo_target_codec_def encode_target_def eval_nat_numeral)
qed

definition demo_wire :: "nat wire" where
  "demo_wire =
     \<lparr>wi_request = (\<lambda>_. Inr ''{}''), wi_response = (\<lambda>_. Inr \<lparr>ev_result = Some 2, ev_error = None\<rparr>),
      wi_health = (\<lambda>_. Inl ''no''), wi_one = 7, wi_object = 1, wi_status = dec\<rparr>"

definition demo_net :: "nat net" where
  "demo_net rq s = (Inl ''refused'', s)"

definition demo_host :: "nat host" where
  "demo_host = \<lparr>ho_now = (\<lambda>s. s), ho_sleep = (\<lambda>d s. s + d), ho_exe = (\<lambda>_. Inr ''/bin/recurse''),
     ho_start = (\<lambda>_ s. (Inr (), s))\<rparr>"

definition health_world :: "nat world" where
  "health_world = demo_world\<lparr>w_json := demo_json\<lparr>j_envelope :=
     (\<lambda>_. Inr \<lparr>q_id = Some 7, q_method = ''health'', q_params = Some 1\<rparr>)\<rparr>\<rparr>"

theorem call_sees_outcome_witness:
  "call_with_timeout demo_wire (daemon_net health_world (\<lambda>_. ''r'')) \<lparr>cl_base_url = ''u'', cl_token = None\<rparr>
     (\<lambda>v. Inr (v + 1)) ''health'' (Inr 1) 2000 demo_app = (Inr 3, app_touch health_world demo_app)"
proof -
  have d: "rpc_dispatch health_world Health (app_touch health_world demo_app) =
      (Done (Inr 2), app_touch health_world demo_app)"
    by (simp add: rpc_dispatch_def dispatch_request_def to_json_def health_world_def demo_world_def demo_json_def)
  have p: "request_parse (w_json health_world) ''health'' (Some 1) = Inr Health"
    by (simp add: request_parse_def parse_params_def health_world_def demo_world_def demo_json_def)
  have "call_with_timeout demo_wire (daemon_net health_world (\<lambda>_. ''r'')) \<lparr>cl_base_url = ''u'', cl_token = None\<rparr>
     (\<lambda>v. Inr (v + 1)) ''health'' (Inr 1) 2000 demo_app =
    ((case Inr 2 of Inl e \<Rightarrow> Inl (Rpc_Failed e)
      | Inr v \<Rightarrow> map_sum (\<lambda>e. Protocol (''decode daemon result: '' @ e)) (\<lambda>r. r) (Inr (v + 1))),
     app_touch health_world demo_app)"
    by (rule call_sees_outcome [OF _ _ _ p d])
      (simp_all add: carried_def answered_def same_token_def demo_wire_def RPC_BODY_def health_world_def
        demo_world_def demo_json_def reply_def demo_app_def options_new_def)
  then show ?thesis by simp
qed

theorem connect_returns_witness:
  "\<exists>r. connect_or_spawn demo_wire demo_net demo_host (Inr ()) (\<lambda>_. None) 68 5 = Some r"
  by (rule connect_returns) (simp_all add: demo_net_def demo_host_def)

end
