(* ===== verification/Args.thy ===== *)
theory Args
  imports Client
begin

text \<open>
  \<open>crates/cli/src/args.rs\<close>: the argument parser of the command line and what the commands read from
  its result. What the C library reports as the host name is a parameter.
\<close>

section \<open>Parsing\<close>

definition VALUE_FLAGS :: "string list" where
  "VALUE_FLAGS = [''--target-id'', ''--target-kind'', ''--timeout'', ''--port'', ''-c'']"

definition BOOL_FLAGS :: "string list" where
  "BOOL_FLAGS = [''--full'']"

record args =
  ar_positional :: "string list"
  ar_flags :: "(string, string) btree"

definition args_default :: args where
  "args_default = \<lparr>ar_positional = [], ar_flags = []\<rparr>"

definition add_flag :: "string \<Rightarrow> string \<Rightarrow> args \<Rightarrow> args" where
  "add_flag name v args = args\<lparr>ar_flags := bm_insert name v (ar_flags args)\<rparr>"

definition add_positional :: "string \<Rightarrow> args \<Rightarrow> args" where
  "add_positional token args = args\<lparr>ar_positional := ar_positional args @ [token]\<rparr>"

text \<open>The name of a token, and the value given inline after an equals sign.\<close>

definition split_token :: "string \<Rightarrow> string \<times> string option" where
  "split_token token =
     (case split_once CHR ''='' token of
        Some (name, v) \<Rightarrow> if starts_with ''--'' name then (name, Some v) else (token, None)
      | None \<Rightarrow> (token, None))"

fun args_loop :: "args \<Rightarrow> string list \<Rightarrow> (string, args) result" where
  "args_loop args [] = Inr args"
| "args_loop args (token # tokens) =
     (let (name, inline) = split_token token
      in if name \<in> set VALUE_FLAGS then
           (case inline of
              Some v \<Rightarrow> args_loop (add_flag name v args) tokens
            | None \<Rightarrow>
                (case tokens of
                   [] \<Rightarrow> Inl (name @ '' needs a value'')
                 | v # later \<Rightarrow> args_loop (add_flag name v args) later))
         else if name \<in> set BOOL_FLAGS then args_loop (add_flag name [] args) tokens
         else if starts_with ''-'' name \<and> name \<noteq> ''-'' then Inl (''unknown flag '' @ name)
         else args_loop (add_positional token args) tokens)"

definition args_parse :: "string list \<Rightarrow> (string, args) result" where
  "args_parse tokens = args_loop args_default tokens"

section \<open>Reading the result\<close>

definition args_value :: "args \<Rightarrow> string \<Rightarrow> string option" where
  "args_value args flag = bm_get (ar_flags args) flag"

definition args_has :: "args \<Rightarrow> string \<Rightarrow> bool" where
  "args_has args flag = bm_contains (ar_flags args) flag"

definition args_number :: "args \<Rightarrow> string \<Rightarrow> (string, nat option) result" where
  "args_number args flag =
     (case args_value args flag of
        None \<Rightarrow> Inr None
      | Some v \<Rightarrow>
          (case parse_uint u64_max v of
             None \<Rightarrow> Inl (flag @ '' expects a number, got '' @ v)
           | Some n \<Rightarrow> Inr (Some n)))"

text \<open>The result of \<open>gethostname\<close> and the 256 bytes of its buffer.\<close>

definition hostname :: "int \<times> string \<Rightarrow> string" where
  "hostname reported =
     (let buffer = snd reported;
          end = (case position (\<lambda>b. b = CHR 0x00) buffer of None \<Rightarrow> length buffer | Some i \<Rightarrow> i);
          name = from_utf8_lossy (take end buffer)
      in if fst reported = 0 \<and> name \<noteq> [] then name else ''localhost'')"

definition args_target :: "int \<times> string \<Rightarrow> args \<Rightarrow> (string, target) result" where
  "args_target reported args =
     rbind (case args_value args ''--target-kind'' of
              Some kind \<Rightarrow> ok_or (''unknown target kind '' @ kind) (target_kind_parse kind)
            | None \<Rightarrow> Inr Cli) (\<lambda>kind.
       let tid = (case args_value args ''--target-id'' of None \<Rightarrow> hostname reported | Some i \<Rightarrow> i);
           t = \<lparr>t_kind = kind, t_id = tid\<rparr>
       in if target_is_valid t then Inr t else Inl ''target id must be 1-256 characters'')"

section \<open>The language of the arguments\<close>

text \<open>What a user can write, and what it means; the value of a switch is thrown away.\<close>

datatype arg_item =
  Positional string
  | Value_Next string string
  | Value_Inline string string
  | Switch string "string option"

fun item_tokens :: "arg_item \<Rightarrow> string list" where
  "item_tokens (Positional p) = [p]"
| "item_tokens (Value_Next name v) = [name, v]"
| "item_tokens (Value_Inline name v) = [name @ ''='' @ v]"
| "item_tokens (Switch name None) = [name]"
| "item_tokens (Switch name (Some v)) = [name @ ''='' @ v]"

fun item_ok :: "arg_item \<Rightarrow> bool" where
  "item_ok (Positional p) \<longleftrightarrow> \<not> starts_with ''-'' p \<or> p = ''-''"
| "item_ok (Value_Next name v) \<longleftrightarrow> name \<in> set VALUE_FLAGS"
| "item_ok (Value_Inline name v) \<longleftrightarrow> name \<in> set VALUE_FLAGS \<and> name \<noteq> ''-c''"
| "item_ok (Switch name v) \<longleftrightarrow> name \<in> set BOOL_FLAGS"

fun item_meaning :: "arg_item \<Rightarrow> args \<Rightarrow> args" where
  "item_meaning (Positional p) args = add_positional p args"
| "item_meaning (Value_Next name v) args = add_flag name v args"
| "item_meaning (Value_Inline name v) args = add_flag name v args"
| "item_meaning (Switch name v) args = add_flag name [] args"

lemma split_token_plain: "CHR ''='' \<notin> set token \<Longrightarrow> split_token token = (token, None)"
  by (simp add: split_token_def split_once_None [THEN iffD2])

lemma split_token_inline:
  "CHR ''='' \<notin> set name \<Longrightarrow>
     split_token (name @ ''='' @ v) =
       (if starts_with ''--'' name then (name, Some v) else (name @ ''='' @ v, None))"
proof -
  assume "CHR ''='' \<notin> set name"
  then have "split_once CHR ''='' (name @ ''='' @ v) = Some (name, v)" by (simp add: split_once_Some)
  then show ?thesis by (simp add: split_token_def)
qed

lemma split_token_cases:
  "split_token token = (name, inline) \<Longrightarrow>
     inline = None \<and> name = token \<or>
     (\<exists>v. inline = Some v \<and> token = name @ ''='' @ v \<and> starts_with ''--'' name)"
  by (auto simp: split_token_def split_once_Some split: option.splits if_splits prod.splits)

lemma flag_names:
  "name \<in> set VALUE_FLAGS \<or> name \<in> set BOOL_FLAGS \<Longrightarrow>
     CHR ''='' \<notin> set name \<and> (name \<noteq> ''-c'' \<longrightarrow> starts_with ''--'' name)"
  by (auto simp: VALUE_FLAGS_def BOOL_FLAGS_def starts_with_def)

lemma flags_disjoint: "name \<in> set BOOL_FLAGS \<Longrightarrow> name \<notin> set VALUE_FLAGS \<and> name \<noteq> ''-c''"
  by (auto simp: VALUE_FLAGS_def BOOL_FLAGS_def)

lemma args_loop_item:
  assumes "item_ok i"
  shows "args_loop args (item_tokens i @ tokens) = args_loop (item_meaning i args) tokens"
proof (cases i)
  case (Positional p)
  have dash: "starts_with ''-'' q \<Longrightarrow> starts_with ''-'' (q @ r)" for q r by (auto simp: starts_with_iff)
  obtain name inline where s: "split_token p = (name, inline)" by fastforce
  have "\<not> starts_with ''--'' p" using assms Positional by (auto simp: starts_with_iff)
  with split_token_cases [OF s] have name: "name = p" "inline = None"
    by (auto simp: starts_with_iff)
  have "p \<notin> set VALUE_FLAGS" "p \<notin> set BOOL_FLAGS"
    using assms Positional by (auto simp: VALUE_FLAGS_def BOOL_FLAGS_def starts_with_def)
  then show ?thesis using Positional assms s name by auto
next
  case (Value_Next name v)
  then show ?thesis using assms flag_names [of name] by (simp add: split_token_plain)
next
  case (Value_Inline name v)
  then show ?thesis
    using assms flag_names [of name] split_token_inline [of name v] by simp
next
  case (Switch name v)
  then show ?thesis
    using assms flag_names [of name] flags_disjoint [of name] split_token_inline [of name]
    by (cases v) (simp_all add: split_token_plain)
qed

lemma args_loop_items:
  "list_all item_ok items \<Longrightarrow>
     args_loop args (concat (map item_tokens items)) = Inr (fold item_meaning items args)"
  by (induction items arbitrary: args) (simp_all add: args_loop_item)

text \<open>The tokens spell items whose meaning leads from one result to the other.\<close>

definition spelled :: "args \<Rightarrow> string list \<Rightarrow> args \<Rightarrow> bool" where
  "spelled args tokens args' \<longleftrightarrow>
     (\<exists>items. list_all item_ok items \<and> tokens = concat (map item_tokens items) \<and>
        args' = fold item_meaning items args)"

lemma spelled_Nil: "spelled args [] args"
  unfolding spelled_def by (intro exI [of _ "[]"]) simp

lemma spelled_item:
  assumes "spelled (item_meaning i args) rest args'" "item_ok i" "tokens = item_tokens i @ rest"
  shows "spelled args tokens args'"
proof -
  obtain items where "list_all item_ok items" "rest = concat (map item_tokens items)"
      "args' = fold item_meaning items (item_meaning i args)"
    using assms(1) unfolding spelled_def by blast
  with assms(2,3) show ?thesis unfolding spelled_def by (intro exI [of _ "i # items"]) simp
qed

lemma args_loop_spelled: "args_loop args tokens = Inr args' \<Longrightarrow> spelled args tokens args'"
proof (induction args tokens rule: args_loop.induct)
  case (1 args)
  then show ?case by (simp add: spelled_Nil)
next
  case (2 args token tokens)
  obtain name inline where s: "split_token token = (name, inline)" by fastforce
  consider (inline) v where "name \<in> set VALUE_FLAGS" "inline = Some v"
    | (next_value) v later where "name \<in> set VALUE_FLAGS" "inline = None" "tokens = v # later"
    | (switch) "name \<notin> set VALUE_FLAGS" "name \<in> set BOOL_FLAGS"
    | (positional) "name \<notin> set VALUE_FLAGS" "name \<notin> set BOOL_FLAGS"
        "\<not> (starts_with ''-'' name \<and> name \<noteq> ''-'')"
    using 2(5) s by (auto split: if_splits option.splits list.splits)
  then show ?case
  proof cases
    case (inline v)
    then have "spelled (item_meaning (Value_Inline name v) args) tokens args'"
      using 2(2) [OF s [symmetric] refl] 2(5) s by simp
    moreover have "token = name @ ''='' @ v" "name \<noteq> ''-c''"
      using split_token_cases [OF s] inline by (auto simp: starts_with_def)
    ultimately show ?thesis using inline
      by - (rule spelled_item [where i = "Value_Inline name v" and rest = tokens], simp_all)
  next
    case (next_value v later)
    then have "spelled (item_meaning (Value_Next name v) args) later args'"
      using 2(1) [OF s [symmetric] refl] 2(5) s by simp
    moreover have "token = name" using split_token_cases [OF s] next_value by auto
    ultimately show ?thesis using next_value
      by - (rule spelled_item [where i = "Value_Next name v" and rest = later], simp_all)
  next
    case switch
    then have "spelled (item_meaning (Switch name inline) args) tokens args'"
      using 2(3) [OF s [symmetric] refl] 2(5) s by simp
    moreover have "token # tokens = item_tokens (Switch name inline) @ tokens"
      using split_token_cases [OF s] by auto
    ultimately show ?thesis using switch
      by - (rule spelled_item [where i = "Switch name inline" and rest = tokens], simp_all)
  next
    case positional
    have "inline = None"
      using split_token_cases [OF s] positional by (auto simp: starts_with_iff)
    then have name: "name = token" using split_token_cases [OF s] by auto
    have "args_loop (add_positional token args) tokens = Inr args'"
      using 2(5) s positional by (auto split: if_splits)
    then have "spelled (item_meaning (Positional token) args) tokens args'"
      using 2(4) [OF s [symmetric] refl] positional by simp
    then show ?thesis using positional name
      by - (rule spelled_item [where i = "Positional token" and rest = tokens], auto)
  qed
qed

text \<open>
  C27. The argument parser accepts exactly the sequences of positionals, value flags (next token or
  inline, whatever the value looks like) and switches, keeps the positionals in order and the last
  value of each flag, and reports an error for everything else.
\<close>

theorem args_parse_iff:
  "args_parse tokens = Inr args \<longleftrightarrow>
     (\<exists>items. list_all item_ok items \<and> tokens = concat (map item_tokens items) \<and>
       args = fold item_meaning items args_default)"
  unfolding args_parse_def using args_loop_items args_loop_spelled unfolding spelled_def by blast

end
