(* ===== verification/Cli.thy ===== *)
theory Cli
  imports Args Json
begin

text \<open>
  \<open>crates/cli/src/commands.rs\<close> and \<open>main.rs\<close>: the commands of the \<open>recurse\<close> binary. A command runs on
  a shell, the two output streams of the process and the world behind its client; it ends with an
  exit code or with the message \<open>main\<close> prints. \<open>None\<close> stands for the loop of \<open>connect_or_spawn\<close>
  running out of its fuel. Every write to the streams succeeds.
\<close>

section \<open>Programs over a shell\<close>

record 's shell =
  sh_out :: string
  sh_err :: string
  sh_world :: 's

type_synonym ('a, 's) cmd = "'s shell \<Rightarrow> ((string, 'a) result \<times> 's shell) option"

definition cmd_of :: "(string, 'a) result \<Rightarrow> ('a, 's) cmd" where
  "cmd_of r sh = Some (r, sh)"

text \<open>Sequencing with the early return of the question mark operator.\<close>

definition cmd_then :: "('a, 's) cmd \<Rightarrow> ('a \<Rightarrow> ('b, 's) cmd) \<Rightarrow> ('b, 's) cmd" where
  "cmd_then m f sh =
     (case m sh of
        None \<Rightarrow> None
      | Some (Inl e, sh') \<Rightarrow> Some (Inl e, sh')
      | Some (Inr a, sh') \<Rightarrow> f a sh')"

text \<open>A call of the client with \<open>map_err(|error| error.to_string())\<close>.\<close>

definition cmd_client :: "('s \<Rightarrow> (client_error, 'a) result \<times> 's) \<Rightarrow> ('a, 's) cmd" where
  "cmd_client f sh =
     (let (r, s) = f (sh_world sh)
      in Some (map_sum client_error_display (\<lambda>a. a) r, sh\<lparr>sh_world := s\<rparr>))"

definition put_out :: "string \<Rightarrow> (unit, 's) cmd" where
  "put_out s sh = Some (Inr (), sh\<lparr>sh_out := sh_out sh @ s\<rparr>)"

definition put_err :: "string \<Rightarrow> (unit, 's) cmd" where
  "put_err s sh = Some (Inr (), sh\<lparr>sh_err := sh_err sh @ s\<rparr>)"

definition put_line :: "string \<Rightarrow> (unit, 's) cmd" where
  "put_line s = put_out (s @ [newline])"

definition put_err_line :: "string \<Rightarrow> (unit, 's) cmd" where
  "put_err_line s = put_err (s @ [newline])"

fun put_lines :: "string list \<Rightarrow> (unit, 's) cmd" where
  "put_lines [] = cmd_of (Inr ())"
| "put_lines (l # ls) = cmd_then (put_line l) (\<lambda>_. put_lines ls)"

definition SUCCESS :: nat where "SUCCESS = 0"
definition FAILURE :: nat where "FAILURE = 1"

text \<open>
  A server that runs in this process until it ends: its outcome, and what it has written to standard
  output (the responses of \<open>run_stdio\<close>) and to standard error (the log of the daemon).
\<close>

type_synonym 's server = "'s \<Rightarrow> (string, unit) result \<times> string \<times> string \<times> 's"

section \<open>Surroundings\<close>

text \<open>
  What a command is given: the parameters of the client, the process environment, the host name, the
  working directory, standard input and files, and \<open>serde_json\<close>'s renderings and decoders.
\<close>

record 's cli =
  ci_wire :: "json_value wire"
  ci_codec :: target_codec
  ci_net :: "'s net"
  ci_host :: "'s host"
  ci_build :: "(string, unit) result"
  ci_vars :: environment
  ci_hostname :: "int \<times> string"
  ci_cwd :: "(string, string) result"
  ci_lossy :: "string \<Rightarrow> string"
  ci_stdin :: "(string, string) result"
  ci_read :: "string \<Rightarrow> (string, string) result"
  ci_cell :: "(json_value, cell_result) decoder"
  ci_health :: "health_result \<Rightarrow> json_value"
  ci_pretty :: "json_value \<Rightarrow> string"
  ci_event_line :: "event \<Rightarrow> string"
  ci_frame :: "string \<Rightarrow> (string, sse_frame) result"
  ci_fs :: skill_fs
  ci_is_file :: "string \<Rightarrow> bool"
  ci_bundled :: "string \<Rightarrow> string \<Rightarrow> string option"
  ci_serve :: "options \<Rightarrow> 's server"
  ci_mcp :: "'s server"

text \<open>Turns of the loop of \<open>connect_or_spawn\<close>.\<close>

definition CONNECT_FUEL :: nat where "CONNECT_FUEL = 68"

section \<open>Shared by the commands\<close>

definition cli_client :: "'s cli \<Rightarrow> (client, 's) cmd" where
  "cli_client ci sh =
     (case connect_or_spawn (ci_wire ci) (ci_net ci) (ci_host ci) (ci_build ci) (ci_vars ci)
             CONNECT_FUEL (sh_world sh) of
        None \<Rightarrow> None
      | Some (r, s) \<Rightarrow> Some (map_sum client_error_display (\<lambda>c. c) r, sh\<lparr>sh_world := s\<rparr>))"

definition print_json :: "'s cli \<Rightarrow> json_value \<Rightarrow> (unit, 's) cmd" where
  "print_json ci v = put_line (ci_pretty ci v)"

definition subcommand :: "args \<Rightarrow> string \<times> string list" where
  "subcommand args = (case ar_positional args of [] \<Rightarrow> ([], []) | p # ps \<Rightarrow> (p, ps))"

definition cli_call :: "'s cli \<Rightarrow> client \<Rightarrow> string \<Rightarrow> json_value \<Rightarrow> (json_value, 's) cmd" where
  "cli_call ci client meth params =
     cmd_client (client_call (ci_wire ci) (ci_net ci) client Inr meth (Inr params))"

definition target_only :: "target \<Rightarrow> json_value" where
  "target_only t = json_object [(''target'', target_value t)]"

definition ack_params :: "target \<Rightarrow> string list \<Rightarrow> json_value" where
  "ack_params t ids =
     json_object [(''target'', target_value t), (''event_ids'', J_Array (map J_String ids))]"

section \<open>The commands\<close>

definition cli_health :: "'s cli \<Rightarrow> (nat, 's) cmd" where
  "cli_health ci =
     cmd_then (cmd_of (map_sum client_error_display (\<lambda>c. c) (client_from_env (ci_build ci) (ci_vars ci))))
       (\<lambda>client sh.
         case client_health (ci_wire ci) (ci_net ci) client (sh_world sh) of
           (Inr found, s) \<Rightarrow>
             cmd_then (print_json ci (ci_health ci found)) (\<lambda>_. cmd_of (Inr SUCCESS))
               (sh\<lparr>sh_world := s\<rparr>)
         | (Inl e, s) \<Rightarrow>
             cmd_then (put_err_line (''recurse: daemon at '' @ cl_base_url client @
                        '' is not healthy: '' @ client_error_display e))
               (\<lambda>_. cmd_of (Inr FAILURE)) (sh\<lparr>sh_world := s\<rparr>))"

definition read_code :: "'s cli \<Rightarrow> args \<Rightarrow> (string, string) result" where
  "read_code ci args =
     (case (args_value args ''-c'', ar_positional args) of
        (Some c, []) \<Rightarrow> Inr c
      | (None, [path]) \<Rightarrow>
          if path = ''-'' then map_sum (\<lambda>e. ''read stdin: '' @ e) (\<lambda>c. c) (ci_stdin ci)
          else map_sum (\<lambda>e. ''read '' @ path @ '': '' @ e) (\<lambda>c. c) (ci_read ci path)
      | _ \<Rightarrow> Inl ''exec needs exactly one of -c CODE, FILE, or -'')"

definition cli_register_params :: "'s cli \<Rightarrow> string \<Rightarrow> target \<Rightarrow> register_params" where
  "cli_register_params ci cwd t =
     \<lparr>reg_target = t, reg_cwd = ci_lossy ci cwd,
      reg_host = \<lparr>h_name = Host_Cli, h_version = Some VERSION, h_supports_children = False\<rparr>,
      reg_model = None\<rparr>"

definition cli_register :: "'s cli \<Rightarrow> client \<Rightarrow> target \<Rightarrow> (unit, 's) cmd" where
  "cli_register ci client t =
     cmd_then (cmd_of (map_sum (\<lambda>e. ''current dir: '' @ e) (\<lambda>d. d) (ci_cwd ci))) (\<lambda>cwd.
     cmd_then (cmd_client (client_call (ci_wire ci) (ci_net ci) client Inr ''target.register''
                 (Inr (register_params_value (cli_register_params ci cwd t))))) (\<lambda>_.
       cmd_of (Inr ())))"

definition cell_outcome :: "cell_result \<Rightarrow> nat" where
  "cell_outcome cell = (if cr_status cell = Cell_Ok then SUCCESS else FAILURE)"

text \<open>\<open>print_cell\<close>: what it writes to each of the two streams, and the exit code.\<close>

definition cell_out :: "cell_result \<Rightarrow> string" where
  "cell_out cell =
     cr_stdout cell @ (case cr_result cell of None \<Rightarrow> [] | Some r \<Rightarrow> r @ [newline])"

definition error_lines :: "cell_error \<Rightarrow> string" where
  "error_lines error =
     (if traceback error = [] then ename error @ '': '' @ evalue error @ [newline]
      else trim_end (traceback error) @ [newline])"

definition cell_err :: "cell_result \<Rightarrow> string" where
  "cell_err cell =
     cr_stderr cell @
     (case cr_error cell of None \<Rightarrow> [] | Some error \<Rightarrow> error_lines error) @
     (if cr_truncated cell then ''[recurse] output was truncated'' @ [newline] else []) @
     (case cr_status cell of
        Cell_Ok \<Rightarrow> []
      | Cell_Error \<Rightarrow> []
      | Cell_Timeout \<Rightarrow> ''[recurse] cell '' @ cell_status_as_str (cr_status cell) @ [newline]
      | Cell_Interrupted \<Rightarrow> ''[recurse] cell '' @ cell_status_as_str (cr_status cell) @ [newline])"

definition print_cell :: "cell_result \<Rightarrow> (nat, 's) cmd" where
  "print_cell cell =
     cmd_then (put_out (cell_out cell)) (\<lambda>_.
     cmd_then (put_err (cell_err cell)) (\<lambda>_. cmd_of (Inr (cell_outcome cell))))"

definition exec_params :: "target \<Rightarrow> string \<Rightarrow> nat option \<Rightarrow> json_value" where
  "exec_params t src timeout =
     json_object ([(''target'', target_value t), (''code'', J_String src)] @
       (case timeout of None \<Rightarrow> [] | Some n \<Rightarrow> [(''timeout_sec'', J_Int (int n))]))"

definition exec_deadline :: "nat option \<Rightarrow> nat" where
  "exec_deadline timeout = 1000 * sat_add (case timeout of None \<Rightarrow> 3600 | Some n \<Rightarrow> n) 30"

definition cli_exec :: "'s cli \<Rightarrow> args \<Rightarrow> (nat, 's) cmd" where
  "cli_exec ci args =
     cmd_then (cmd_of (read_code ci args)) (\<lambda>src.
     cmd_then (cmd_of (args_target (ci_hostname ci) args)) (\<lambda>t.
     cmd_then (cmd_of (args_number args ''--timeout'')) (\<lambda>timeout.
     cmd_then (cli_client ci) (\<lambda>client.
     cmd_then (cli_register ci client t) (\<lambda>_.
     cmd_then (cmd_client (call_with_timeout (ci_wire ci) (ci_net ci) client (ci_cell ci)
                 ''kernel.execute'' (Inr (exec_params t src timeout)) (exec_deadline timeout))) (\<lambda>cell.
       print_cell cell))))))"

definition cli_kernel :: "'s cli \<Rightarrow> args \<Rightarrow> (nat, 's) cmd" where
  "cli_kernel ci args =
     cmd_then (cmd_of
       (if subcommand args = (''status'', []) then Inr ''kernel.status''
        else if subcommand args = (''restart'', []) then Inr ''kernel.restart''
        else if subcommand args = (''interrupt'', []) then Inr ''kernel.interrupt''
        else Inl ''usage: recurse kernel status|restart|interrupt [--target-id ID]'')) (\<lambda>meth.
     cmd_then (cmd_of (args_target (ci_hostname ci) args)) (\<lambda>t.
     cmd_then (cli_client ci) (\<lambda>client.
     cmd_then (cli_call ci client meth (target_only t)) (\<lambda>v.
     cmd_then (print_json ci v) (\<lambda>_. cmd_of (Inr SUCCESS))))))"

definition cli_children :: "'s cli \<Rightarrow> args \<Rightarrow> (nat, 's) cmd" where
  "cli_children ci args =
     (if subcommand args \<noteq> (''list'', [])
      then cmd_of (Inl ''usage: recurse children list [--target-kind K --target-id ID]'')
      else
        cmd_then (cmd_of (args_target (ci_hostname ci) args)) (\<lambda>t.
        cmd_then (cli_client ci) (\<lambda>client.
        cmd_then (cli_call ci client ''children.list'' (target_only t)) (\<lambda>v.
        cmd_then (print_json ci v) (\<lambda>_. cmd_of (Inr SUCCESS))))))"

section \<open>Following the events\<close>

lemma next_frame_progress:
  "next_frame from_str buffer chunks = (Inr (Some frame), buffer', chunks') \<Longrightarrow>
     length chunks' < length chunks \<or> length chunks' = length chunks \<and> length buffer' < length buffer"
proof (induction from_str buffer chunks rule: next_frame.induct)
  case (1 from_str buffer chunks)
  note eq = 1(3) [unfolded next_frame.simps [of from_str buffer chunks]]
  show ?case
  proof (cases "take_block buffer")
    case None
    then show ?thesis using eq 1(1) [OF None] by (fastforce split: if_splits list.splits sum.splits)
  next
    case (Some br)
    obtain block rest where br: "br = (block, rest)" by fastforce
    then have "length rest < length buffer" using Some take_block_shorter by blast
    then show ?thesis
      using eq 1(2) [OF Some, of block rest] Some br by (fastforce split: sum.splits option.splits)
  qed
qed

text \<open>One frame: its events printed, then acknowledged; other frames are skipped.\<close>

definition follow_frame :: "'s cli \<Rightarrow> client \<Rightarrow> target \<Rightarrow> sse_frame \<Rightarrow> (unit, 's) cmd" where
  "follow_frame ci client t frame =
     (case frame of
        Events _ events \<Rightarrow>
          cmd_then (put_lines (map (ci_event_line ci) events)) (\<lambda>_.
            let ids = map e_id events
            in if ids \<noteq> [] then
                 cmd_then (cli_call ci client ''events.ack'' (ack_params t ids)) (\<lambda>_. cmd_of (Inr ()))
               else cmd_of (Inr ()))
      | Subscribed _ \<Rightarrow> cmd_of (Inr ())
      | Heartbeat _ \<Rightarrow> cmd_of (Inr ()))"

function follow_loop ::
  "'s cli \<Rightarrow> client \<Rightarrow> target \<Rightarrow> string \<Rightarrow> chunks \<Rightarrow> (unit, 's) cmd" where
  "follow_loop ci client t buffer chunks sh =
     (case next_frame (ci_frame ci) buffer chunks of
        (Inl e, _, _) \<Rightarrow> Some (Inl (client_error_display e), sh)
      | (Inr None, _, _) \<Rightarrow> Some (Inr (), sh)
      | (Inr (Some frame), buffer', chunks') \<Rightarrow>
          (case follow_frame ci client t frame sh of
             None \<Rightarrow> None
           | Some (Inl e, sh') \<Rightarrow> Some (Inl e, sh')
           | Some (Inr _, sh') \<Rightarrow> follow_loop ci client t buffer' chunks' sh'))"
  by pat_completeness auto
termination
  by (relation "measures [\<lambda>(_, _, _, _, chunks, _). length chunks, \<lambda>(_, _, _, buffer, _, _). length buffer]")
    (auto dest: next_frame_progress [OF sym])

declare follow_loop.simps [simp del]

definition follow :: "'s cli \<Rightarrow> client \<Rightarrow> target \<Rightarrow> (unit, 's) cmd" where
  "follow ci client t =
     cmd_then (cmd_client (subscribe (ci_wire ci) (ci_codec ci) (ci_net ci) client t))
       (\<lambda>chunks. follow_loop ci client t [] chunks)"

definition cli_events :: "'s cli \<Rightarrow> args \<Rightarrow> (nat, 's) cmd" where
  "cli_events ci args =
     cmd_then (cmd_of (args_target (ci_hostname ci) args)) (\<lambda>t.
       let (command, rest) = subcommand args
       in if \<not> ((command = ''list'' \<or> command = ''follow'') \<and> rest = [] \<or>
                command = ''ack'' \<and> rest \<noteq> [])
          then cmd_of (Inl (''usage: recurse events list|follow|ack <id>'' @ ellipsis @
                 '' [--target-id ID]''))
          else
            cmd_then (cli_client ci) (\<lambda>client.
            cmd_then
              (if command = ''list'' then
                 cmd_then (cli_call ci client ''events.list'' (target_only t)) (print_json ci)
               else if command = ''ack'' then
                 cmd_then (cli_call ci client ''events.ack'' (ack_params t rest)) (print_json ci)
               else follow ci client t) (\<lambda>_.
              cmd_of (Inr SUCCESS))))"

end
