(* ===== verification/Mcp_Props.thy ===== *)
theory Mcp_Props
  imports Mcp_Stdio Client_Props Cli App_Props
begin

text \<open>
  What an MCP host may rely on: every request is answered once with its id, the server ends when its
  input does, and no client gives up on a cell before the daemon does; and what the daemon says to a
  request for a target that it does not know, or knows again.
\<close>

section \<open>The server loop\<close>

text \<open>
  C28. When \<open>run_stdio\<close> returns normally and standard output never failed, every request line of the
  input has been answered exactly once under its own id (a line that is not JSON under null), every
  notification and blank line not at all, and every message written is a JSON-RPC response with
  either a result or an error, whatever the order in which the tasks ended.
\<close>

theorem stdio_answers_all:
  assumes "reach (\<lambda>x. x = stdio_start input se s) (stdio_step mc) y"
    and "io_result y = Some (Inr ())" and "io_writer y"
  shows "mset (map response_id (io_written y)) = input_ids mc input \<and> list_all is_response (io_written y)"
  using stdio.reach_inv [OF assms(1)] assms(2,3) by (auto simp: stdio_inv_def all_ids_def)

section \<open>Answering always ends\<close>

lemma session_register_total: "session_register mc client st \<noteq> None"
  by (cases st) (simp add: session_register_def split: prod.splits)

text \<open>A clock that no call turns back and that sleeping moves on.\<close>

definition running_clock :: "'s mcp \<Rightarrow> bool" where
  "running_clock mc \<longleftrightarrow>
     (\<forall>rq s. ho_now (mc_host mc) s \<le> ho_now (mc_host mc) (snd (mc_net mc rq s))) \<and>
     (\<forall>d s. ho_now (mc_host mc) s + d \<le> ho_now (mc_host mc) (ho_sleep (mc_host mc) d s))"

lemma session_client_total: "running_clock mc \<Longrightarrow> session_client mc st \<noteq> None"
proof -
  assume "running_clock mc"
  then have "connect_or_spawn (mc_wire mc) (mc_net mc) (mc_host mc) build vars 68 s \<noteq> None" for build vars s
    unfolding running_clock_def by (intro connect_total) blast+
  then show ?thesis
    by (cases st) (simp add: session_client_def session_register_total del: not_None_eq
        split: option.splits sum.splits prod.splits)
qed

lemma session_call_total: "running_clock mc \<Longrightarrow> session_call mc decode meth params timeout st \<noteq> None"
  by (cases st) (simp add: session_call_def Let_def session_client_total session_register_total del: not_None_eq
      split: option.splits sum.splits prod.splits)

lemma relay_total: "running_clock mc \<Longrightarrow> relay mc meth params st \<noteq> None"
  by (cases st) (simp add: relay_def session_call_total del: not_None_eq split: option.splits sum.splits prod.splits)

lemma ipython_total: "running_clock mc \<Longrightarrow> ipython mc args st \<noteq> None"
  by (cases st) (simp add: ipython_def Let_def session_call_total del: not_None_eq
      split: option.splits sum.splits prod.splits)

lemma tools_call_total: "running_clock mc \<Longrightarrow> tools_call mc params st \<noteq> None"
  by (cases st) (simp add: tools_call_def mcall_ok_def Let_def relay_total ipython_total del: not_None_eq
      split: option.splits sum.splits)

lemma handle_line_total: "running_clock mc \<Longrightarrow> handle_line mc line st \<noteq> None"
  by (cases st) (simp add: handle_line_def Let_def tools_call_total del: not_None_eq
      split: option.splits sum.splits)

text \<open>
  C29. \<open>run_stdio\<close> ends: from every state it can get into, some steps lead to its return, and since
  every step lowers the rank, no run has more steps than that; the hypothesis is a clock that runs.
\<close>

theorem stdio_returns:
  assumes "running_clock mc"
    and "reach (\<lambda>x. x = stdio_start input se s) (stdio_step mc) x"
  shows "(\<exists>y. (stdio_step mc)\<^sup>*\<^sup>* x y \<and> io_result y \<noteq> None) \<and>
    (\<forall>y. stdio_step mc x y \<longrightarrow> stdio_rank y < stdio_rank x)"
proof -
  have "io_writer x \<or> io_queue x = []"
    using stdio.reach_inv [OF assms(2)] by (auto simp: stdio_inv_def split: if_splits)
  then show ?thesis
    using stdio_runs_out [OF handle_line_total [OF assms(1)] assms(2)] stdio_rank_step by blast
qed

section \<open>A daemon that has forgotten the target\<close>

lemma register_done:
  assumes "rpc_dispatch w (TargetRegister reg) app = (Done (Inr v), app')"
  shows "record_of (core_registry (app_core app')) (reg_target reg) \<noteq> None \<and> a_options app' = a_options app"
proof -
  obtain x r' where "register (core_registry (app_core app)) reg = (Inr x, r')" and
      "core_registry (app_core app') = r'" and "a_options app' = a_options app"
    using assms
    by (auto simp: rpc_dispatch_def dispatch_request_def completed_def respond_def on_registry_def rbind_def
        split: sum.splits if_splits prod.splits)
  then show ?thesis by (auto dest!: register_OkD simp: record_of_def)
qed

text \<open>The requests on the kernel of a target, and those of them that are answered at once.\<close>

definition kernel_requests :: "target \<Rightarrow> request list" where
  "kernel_requests t = [KernelStatus t, KernelRestart t, KernelInterrupt t]"

definition kernel_request :: "target \<Rightarrow> request \<Rightarrow> bool" where
  "kernel_request t request \<longleftrightarrow>
     request \<in> set (kernel_requests t) \<or> (\<exists>p. request = KernelExecute p \<and> ex_target p = t)"

lemma kernel_request_registered:
  assumes "request \<in> set (kernel_requests t)" "target_is_valid t"
    and "record_of (core_registry (app_core app)) t \<noteq> None" "serialises (w_json w)"
  shows "\<exists>x v app'. j_to_value (w_json w) x = Inr v \<and> rpc_dispatch w request app = (Done (Inr v), app') \<and>
    a_state app' = a_state app"
proof -
  obtain tv where tv: "\<And>v. j_to_value (w_json w) v = Inr (tv v)"
    using assms(4) unfolding serialises_def by metis
  then show ?thesis
    using assms(1-3)
    by (auto simp: kernel_requests_def rpc_dispatch_def check_target_def dispatch_request_def
        registered_cwd_def ok_or_def to_json_def split: prod.splits)
qed

text \<open>A cell for a registered target is only refused for its size or because another one is running.\<close>

lemma execute_registered:
  assumes "target_is_valid (ex_target p)" "record_of (core_registry (app_core app)) (ex_target p) \<noteq> None"
  shows "(\<exists>i app'. rpc_dispatch w (KernelExecute p) app = (Awaits i, app')) \<or>
    (\<exists>e app'. rpc_dispatch w (KernelExecute p) app = (Done (Inl e), app') \<and>
       (code e = Busy \<or> CELL_CODE < length (ex_code p)))"
  using assms
  by (auto simp: rpc_dispatch_def check_target_def dispatch_request_def registration_def execute_begin_def
      rpc_error_new_def Let_def split: option.splits prod.splits if_splits)

lemma kernel_request_unregistered:
  assumes "kernel_request t request" "target_is_valid t"
    and "record_of (core_registry (app_core app)) t = None"
  shows "\<exists>e. code e = NotFound \<and> rpc_dispatch w request app = (Done (Inl e), app)"
  using assms
  by (auto simp: kernel_request_def kernel_requests_def rpc_dispatch_def check_target_def dispatch_request_def
      registered_cwd_def registration_def execute_begin_def not_found_def)

lemma registration_succeeds:
  assumes "target_is_valid (reg_target reg)" "reg_cwd reg \<noteq> []"
    and "length (targets (core_registry (app_core app))) < REGISTERED_TARGETS"
    and "serialises (w_json w)"
  shows "\<exists>x v app'. j_to_value (w_json w) x = Inr v \<and>
    rpc_dispatch w (TargetRegister reg) app = (Done (Inr v), app')"
proof -
  obtain tv where tv: "\<And>v. j_to_value (w_json w) v = Inr (tv v)"
    using assms(4) unfolding serialises_def by metis
  then show ?thesis
    using assms(1-3)
    by (auto simp: rpc_dispatch_def check_target_def dispatch_request_def completed_def respond_def rbind_def
        register_def on_registry_def to_json_def Let_def app_update_def update_def split: prod.splits)
qed

lemma app_touch_same [simp]:
  "a_state (app_touch w app) = a_state app" "a_options (app_touch w app) = a_options app"
  "same_token client (app_touch w app) = same_token client app"
  by (simp_all add: app_touch_def same_token_def)

section \<open>Deadlines\<close>

text \<open>
  Neither the MCP server nor \<open>recurse exec\<close> gives up on a cell before the daemon does: whatever
  timeout is asked for, the deadline of the call is at least 29 seconds later than the timeout the
  daemon runs the cell with, and the MCP server's timeout reaches the kernel unchanged.
\<close>

theorem client_outlasts_cell:
  "1000 * unat (clamp_timeout dflt given) + 29000 \<le> exec_deadline (map_option unat given) \<and>
   1000 * unat (clamp_timeout dflt (Some (ipython_timeout given))) + 30000 = ipython_deadline (ipython_timeout given) \<and>
   clamp_timeout dflt (Some (ipython_timeout given)) = ipython_timeout given"
proof -
  have max: "unat MAX_TIMEOUT_SEC = 3600" by (simp add: MAX_TIMEOUT_SEC_def)
  have clamp: "unat (max 1 (min n MAX_TIMEOUT_SEC)) = max 1 (min (unat n) 3600)" for n :: u64
    using max by (auto simp: max_def min_def word_le_nat_alt)
  have idem: "max 1 (min (max 1 (min n MAX_TIMEOUT_SEC)) MAX_TIMEOUT_SEC) = max 1 (min n MAX_TIMEOUT_SEC)" for n :: u64
    by (auto simp: max_def min_def MAX_TIMEOUT_SEC_def word_le_nat_alt)
  have least: "max 1 (min n 3600) + 29 \<le> min (n + 30) usize_max" for n :: nat
    unfolding usize_max_def by (auto simp: min_def)
  have "max 1 (min (unat dflt) 3600) + 29 \<le> min (3600 + 30) usize_max" unfolding usize_max_def by simp
  then have "unat (clamp_timeout dflt given) + 29 \<le> sat_add (case map_option unat given of None \<Rightarrow> 3600 | Some n \<Rightarrow> n) 30"
    by (cases given) (simp_all only: clamp_timeout_def clamp sat_add_def option.case option.map least)
  then have "1000 * unat (clamp_timeout dflt given) + 29000 \<le> exec_deadline (map_option unat given)"
    unfolding exec_deadline_def by linarith
  moreover have "unat (ipython_timeout given) \<le> 3600"
    unfolding ipython_timeout_def clamp by simp
  ultimately show ?thesis
    by (simp add: ipython_deadline_def clamp_timeout_def idem ipython_timeout_def min_def)
qed

section \<open>Witnesses\<close>

definition mcp_target :: target where
  "mcp_target = \<lparr>t_kind = Mcp, t_id = ''m''\<rparr>"

definition mcp_session :: session where
  "mcp_session = \<lparr>se_target = mcp_target, se_cwd = ''/w'', se_client = Some \<lparr>cl_base_url = ''u'', cl_token = None\<rparr>\<rparr>"

definition status_params :: json_value where
  "status_params = session_target mcp_session"

definition mcp_json :: "json_value json" where
  "mcp_json =
     \<lparr>j_null = J_Null, j_is_null = json_is_null, j_object = json_object [], j_to_value = (\<lambda>_. Inr J_Null),
      j_from_slice = (\<lambda>b. Inr (J_String b)), j_get_id = (\<lambda>_. None),
      j_envelope = (\<lambda>v. if v = J_String ''k''
        then Inr \<lparr>q_id = Some (J_Int 1), q_method = ''kernel.status'', q_params = Some status_params\<rparr>
        else Inr \<lparr>q_id = Some (J_Int 1), q_method = ''target.register'',
               q_params = Some (register_params_value (register_request mcp_session))\<rparr>),
      j_empty = (\<lambda>_. Inr ()), j_spawn = (\<lambda>_. Inl ''no''), j_delete = (\<lambda>_. Inl ''no''),
      j_agent_message = (\<lambda>_. Inl ''no''), j_bash_finished = (\<lambda>_. Inl ''no''),
      j_withdraw = (\<lambda>_. Inl ''no''), j_register = (\<lambda>_. Inr (register_request mcp_session)),
      j_execute = (\<lambda>_. Inl ''no''), j_target = (\<lambda>_. Inr mcp_target), j_child_bind = (\<lambda>_. Inl ''no''),
      j_child_fail = (\<lambda>_. Inl ''no''), j_child_id = (\<lambda>_. Inl ''no''), j_events_ack = (\<lambda>_. Inl ''no''),
      j_skills_list = (\<lambda>_. Inl ''no'')\<rparr>"

definition mcp_world :: "json_value world" where
  "mcp_world =
     \<lparr>w_now = 5, w_event_now = 6, w_instant = 100, w_pid = 42,
      w_runtime = \<lparr>rt_hash_one = (\<lambda>_ salt. salt), rt_debug = (\<lambda>s. s)\<rparr>,
      w_codec = demo_codec, w_io = (Saved, Saved), w_fs = no_fs, w_json = mcp_json\<rparr>"

definition mcp_app :: "json_value app" where
  "mcp_app =
     \<lparr>a_options = options_new (\<lambda>_ _. None) (\<lambda>_. None) ''/state'',
      a_state = \<lparr>st_core = core_default, st_dir = ''/state'', st_files = (\<lambda>_. Missing), st_changes = [], st_log = []\<rparr>,
      a_kernels = manager_default, a_started_at = 1, a_shutdown = False, a_last_rpc = 0\<rparr>"

definition mcp_render :: "json_value response \<Rightarrow> string" where
  "mcp_render rs = (case rs_error rs of None \<Rightarrow> [] | Some e \<Rightarrow> ''E'' @ message e)"

definition demo_mcp :: "'s net \<Rightarrow> ('s \<Rightarrow> nat) \<Rightarrow> (nat \<Rightarrow> 's \<Rightarrow> 's) \<Rightarrow> 's mcp" where
  "demo_mcp net now sleep =
     \<lparr>mc_wire = \<lparr>wi_request = (\<lambda>rq. Inr (if q_method rq = ''kernel.status'' then ''k'' else ''r'')),
        wi_response = (\<lambda>b. Inr (if b = [] then \<lparr>ev_result = Some J_Null, ev_error = None\<rparr>
          else \<lparr>ev_result = None, ev_error = Some \<lparr>code = NotFound, message = tl b\<rparr>\<rparr>)),
        wi_health = (\<lambda>_. Inl ''no''), wi_one = J_Int 1, wi_object = json_object [], wi_status = dec\<rparr>,
      mc_net = net,
      mc_host = \<lparr>ho_now = now, ho_sleep = sleep, ho_exe = (\<lambda>_. Inl ''no''), ho_start = (\<lambda>_ s. (Inr (), s))\<rparr>,
      mc_build = Inr (), mc_vars = (\<lambda>_. None),
      mc_from_str = (\<lambda>l. Inr (json_object [(''id'', J_String l), (''method'', J_String ''ping'')])),
      mc_pretty = (\<lambda>_. ''{}''), mc_call_params = (\<lambda>_. Inl ''no''), mc_ipython = (\<lambda>_. Inl ''no''),
      mc_ack = (\<lambda>_. Inl ''no''), mc_cell = (\<lambda>_. Inl ''no''), mc_events = (\<lambda>_. Inl ''no'')\<rparr>"

abbreviation ping_mcp :: "nat mcp" where
  "ping_mcp \<equiv> demo_mcp (\<lambda>rq s. (Inl ''refused'', s)) (\<lambda>s. s) (\<lambda>d s. s + d)"

lemma ping_clock: "running_clock ping_mcp"
  by (simp add: running_clock_def demo_mcp_def)

lemma ping_answer:
  "handle_line ping_mcp ''p'' st = Some (Some (mcp_answer (J_String ''p'') (Inr (json_object []))), st)"
  by (cases st) (simp add: handle_line_def demo_mcp_def)

theorem stdio_returns_witness:
  "\<exists>y. (stdio_step ping_mcp)\<^sup>*\<^sup>* (stdio_start [Inr ''p''] mcp_session 0) y \<and> io_result y \<noteq> None"
  using stdio_returns [OF ping_clock reach_init [of _ "stdio_start [Inr ''p''] mcp_session 0"]] by blast

theorem stdio_answers_all_witness:
  "\<exists>y. reach (\<lambda>x. x = stdio_start [Inr ''p''] mcp_session 0) (stdio_step ping_mcp) y \<and>
     mset (map response_id (io_written y)) = {#J_String ''p''#}"
proof -
  let ?x = "stdio_start [Inr ''p''] mcp_session 0 :: nat stdio"
  let ?m = "mcp_answer (J_String ''p'') (Inr (json_object []))"
  let ?x1 = "?x\<lparr>io_lines := [], io_tasks := [''p'']\<rparr>"
  let ?x2 = "?x1\<lparr>io_tasks := [], io_queue := [?m]\<rparr>"
  let ?x3 = "?x2\<lparr>io_queue := [], io_written := [?m]\<rparr>"
  let ?x4 = "?x3\<lparr>io_result := Some (Inr ())\<rparr>"
  have ch: "chars ''p'' = [''p'']" by simp
  have "\<not> blank ''p''" by (simp add: blank_def trim_def trim_end_def trim_start_def ch is_ws_def white_space_def)
  then have 1: "stdio_step ping_mcp ?x ?x1"
    using stdio_step.Read_Line [of ?x "''p''" "[]" ping_mcp] by (simp add: stdio_start_def)
  have 2: "stdio_step ping_mcp ?x1 ?x2"
    using stdio_step.Finish [of ?x1 "[]" "''p''" "[]" ping_mcp "Some ?m" mcp_session 0]
    by (simp add: stdio_start_def ping_answer has_room_def MCP_CHANNEL_def response_list_def)
  have 3: "stdio_step ping_mcp ?x2 ?x3"
    using stdio_step.Write [of ?x2 ?m "[]" ping_mcp] by (simp add: stdio_start_def)
  have 4: "stdio_step ping_mcp ?x3 ?x4"
    using stdio_step.Return [of ?x3 ping_mcp] by (simp add: stdio_start_def)
  have "reach (\<lambda>x. x = ?x) (stdio_step ping_mcp) ?x" by (rule reach_init) simp
  then have r: "reach (\<lambda>x. x = ?x) (stdio_step ping_mcp) ?x4"
    using 1 2 3 4 by (blast intro: reach_step)
  have "input_ids ping_mcp [Inr ''p''] = {#J_String ''p''#}"
    using \<open>\<not> blank ''p''\<close> by (simp add: line_id_def demo_mcp_def)
  moreover have "mset (map response_id (io_written ?x4)) = input_ids ping_mcp [Inr ''p'']"
    using stdio_answers_all [OF r] by (simp add: stdio_start_def)
  ultimately show ?thesis using r by metis
qed

end
