(* ===== verification/Countable_State.thy ===== *)
theory Countable_State
  imports State "HOL-Library.Countable"
begin

text \<open>
  The persisted types are countable, so there is a codec that reads back all it wrote: the hypothesis
  on the JSON codec can be met.
\<close>

instance target_kind :: countable by countable_datatype
instance host_name :: countable by countable_datatype
instance child_status :: countable by countable_datatype
instance role :: countable by countable_datatype

instance target_ext :: (countable) countable
  by (rule countable_classI [of "\<lambda>r. to_nat (t_kind r, t_id r, target.more r)"]) (simp add: target.equality)

instance host_info_ext :: (countable) countable
  by (rule countable_classI [of "\<lambda>r. to_nat (h_name r, h_version r, h_supports_children r, host_info.more r)"])
    (simp add: host_info.equality)

instance child_info_ext :: (countable) countable
  by (rule countable_classI [of "\<lambda>r. to_nat ((c_id r, c_name r, c_task r, c_model r, c_status r),
        (c_parent r, c_session r, c_session_dir r, c_depth r, c_created_at r), child_info.more r)"])
    (simp add: child_info.equality)

instance message_from_ext :: (countable) countable
  by (rule countable_classI [of "\<lambda>r. to_nat (mf_role r, mf_name r, mf_child_id r, message_from.more r)"])
    (simp add: message_from.equality)

instance child_spawn_payload_ext :: (countable) countable
  by (rule countable_classI [of "\<lambda>r. to_nat (sp_child r, sp_prompt r, child_spawn_payload.more r)"])
    (simp add: child_spawn_payload.equality)

instance agent_message_payload_ext :: (countable) countable
  by (rule countable_classI [of "\<lambda>r. to_nat (am_from r, am_message r, agent_message_payload.more r)"])
    (simp add: agent_message_payload.equality)

instance bash_finished_payload_ext :: (countable) countable
  by (rule countable_classI [of "\<lambda>r. to_nat (bf_handle_id r, bf_pid r, bf_exit_code r, bf_command r,
        bash_finished_payload.more r)"])
    (simp add: bash_finished_payload.equality)

instance kernel_exited_payload_ext :: (countable) countable
  by (rule countable_classI [of "\<lambda>r. to_nat (ke_pid r, ke_exit_code r, ke_signal r, kernel_exited_payload.more r)"])
    (simp add: kernel_exited_payload.equality)

instance event_body :: countable by countable_datatype

instance event_ext :: (countable) countable
  by (rule countable_classI [of "\<lambda>r. to_nat ((e_id r, e_target r, e_body r), e_actionable r, e_at r, e_text r,
        event.more r)"])
    (simp add: event.equality)

instance queued_event_ext :: (countable) countable
  by (rule countable_classI [of "\<lambda>r. to_nat (qe_event r, qe_delivered r, queued_event.more r)"])
    (simp add: queued_event.equality)

instance target_record_ext :: (countable) countable
  by (rule countable_classI [of "\<lambda>r. to_nat (tr_target r, tr_cwd r, tr_host r, tr_model r, target_record.more r)"])
    (simp add: target_record.equality)

instance registry_ext :: (countable) countable
  by (rule countable_classI [of "\<lambda>r. to_nat (targets r, children r, sequences r, registry.more r)"])
    (simp add: registry.equality)

text \<open>A value is written as the list of its number's length.\<close>

definition unary :: "'a::countable \<Rightarrow> (string, string) result" where
  "unary v = Inr (replicate (to_nat v) CHR ''1'')"

definition of_unary :: "string \<Rightarrow> (string, 'a::countable) result" where
  "of_unary s = Inr (from_nat (length s - 1))"

definition unary_codec :: codecs where
  "unary_codec = \<lparr>enc_registry = unary, dec_registry = of_unary, enc_queue = unary, dec_queue = of_unary\<rparr>"

lemma unary_codec_inverse:
  "enc_registry unary_codec r = Inr b \<Longrightarrow> dec_registry unary_codec (b @ [newline]) = Inr r"
  "enc_queue unary_codec f = Inr c \<Longrightarrow> dec_queue unary_codec (c @ [newline]) = Inr f"
  "\<exists>b. enc_registry unary_codec r = Inr b" "\<exists>c. enc_queue unary_codec f = Inr c"
  by (auto simp: unary_codec_def unary_def of_unary_def)

end
