(* ===== verification/Crash_Props.thy ===== *)
theory Crash_Props
  imports Daemon_Props Sse_Props Countable_State
begin

text \<open>
  What survives a crash. Between two requests the files always hold the state the daemon has in
  memory, so a daemon that is killed there and started again goes on where it was, over any number
  of crashes.
\<close>

section \<open>Files that hold the state\<close>

definition restarts :: "codecs \<Rightarrow> state \<Rightarrow> bool" where
  "restarts codec st \<longleftrightarrow>
     (\<exists>st'. state_load codec (st_files st) (st_dir st) = Inr st' \<and>
        core_registry (st_core st') = core_registry (st_core st) \<and>
        (\<forall>t. queue_of (core_queue (st_core st')) t = queue_of (core_queue (st_core st)) t) \<and>
        queue_inv (core_queue (st_core st')))"

text \<open>The codec of serde reads back what it wrote.\<close>

definition reads_back :: "codecs \<Rightarrow> bool" where
  "reads_back codec \<longleftrightarrow>
     (\<forall>r. \<exists>b. enc_registry codec r = Inr b \<and> dec_registry codec (b @ [newline]) = Inr r) \<and>
     (\<forall>f. \<exists>b. enc_queue codec f = Inr b \<and> dec_queue codec (b @ [newline]) = Inr f)"

definition saving :: "codecs \<Rightarrow> 'v world \<Rightarrow> bool" where
  "saving codec w \<longleftrightarrow> w_codec w = codec \<and> w_io w = (Saved, Saved)"

lemma core_inv_True: "core_inv (\<lambda>_. True) c \<longleftrightarrow> queue_inv (core_queue c) \<and> bm_wf (core_notify c)"
  by (simp add: core_inv_def)

lemma persisted_restarts:
  assumes "reads_back codec" "queue_inv (core_queue c)"
    and "st_files st' = st_files (persist codec pid (Saved, Saved) c st)" "st_dir st' = st_dir st"
    and "core_registry (st_core st') = core_registry c" "core_queue (st_core st') = core_queue c"
  shows "restarts codec st'"
proof -
  obtain rb qb where b: "enc_registry codec (core_registry c) = Inr rb"
      "dec_registry codec (rb @ [newline]) = Inr (core_registry c)"
      "enc_queue codec (to_file (core_queue c)) = Inr qb"
      "dec_queue codec (qb @ [newline]) = Inr (to_file (core_queue c))"
    using assms(1) unfolding reads_back_def by metis
  have "core_inv (\<lambda>_. True) (c\<lparr>core_notify := []\<rparr>)" using assms(2) by (simp add: core_inv_True)
  from saved_load [where codec = codec, OF this, of "st_files st'" "st_dir st'" rb qb] show ?thesis
    using b persist_saved [OF b(1,3), of pid st] assms(3-6) by (auto simp: restarts_def core_inv_True)
qed

definition tidy :: "(core \<Rightarrow> 'r rpc_result \<times> core) \<Rightarrow> bool" where
  "tidy change \<longleftrightarrow>
     (\<forall>c e c'. change c = (Inl e, c') \<longrightarrow> c' = c) \<and> (\<forall>c. announces c (snd (change c)))"

lemma update_restarts:
  assumes "tidy change" "reads_back codec" "restarts codec st" "queue_inv (core_queue (st_core st))"
  shows "restarts codec (snd (update codec pid (Saved, Saved) change st))"
    and "queue_inv (core_queue (st_core (snd (update codec pid (Saved, Saved) change st))))"
proof -
  have q: "queue_inv (core_queue (snd (change (st_core st))))"
    using assms(1,4) unfolding tidy_def announces_def by blast
  then show "queue_inv (core_queue (st_core (snd (update codec pid (Saved, Saved) change st))))" by simp
  show "restarts codec (snd (update codec pid (Saved, Saved) change st))"
  proof (cases "fst (change (st_core st))")
    case (Inl e)
    then have "snd (change (st_core st)) = st_core st"
      using assms(1) unfolding tidy_def by (metis prod.collapse)
    with Inl assms(3) show ?thesis
      by (simp add: update_def split_beta Let_def restarts_def)
  next
    case (Inr r)
    have "queue_inv (core_queue (snd (change (st_core st))\<lparr>core_notify := []\<rparr>))" using q by simp
    from persisted_restarts [OF assms(2) this, of _ pid st] Inr show ?thesis
      by (simp add: update_files)
  qed
qed

section \<open>The changes of the application\<close>

lemma tidyI:
  "(\<And>c e c'. change c = (Inl e, c') \<Longrightarrow> c' = c) \<Longrightarrow> (\<And>c. announces c (snd (change c))) \<Longrightarrow> tidy change"
  unfolding tidy_def by blast

lemma tidy_registry:
  "(\<And>r e r'. f r = (Inl e, r') \<Longrightarrow> r' = r) \<Longrightarrow> tidy (on_registry f)"
  by (intro tidyI announces_registry) (auto simp: on_registry_def split: prod.splits)

lemma tidy_changes:
  "tidy (spawn_change w md owner params)" "tidy (to_parent_change now sender msg)"
  "tidy (to_child_change now sender name msg)" "tidy (enqueue_change e)" "tidy (withdraw_change t eid)"
  "tidy (ack_change t ids)" "tidy (fail_change now t cid reason)" "tidy (hand_change t claimed)"
  "tidy (on_registry (\<lambda>r. registry_delete r t sel))" "tidy (on_registry (\<lambda>r. registry_bind r t cid s))"
  "tidy (on_registry (\<lambda>r. register r rp))"
  by (rule tidyI tidy_registry announces_spawn announces_fail announces_changes
      change_spawn.err_unchanged change_to_parent.err_unchanged change_to_child.err_unchanged
      change_enqueue.err_unchanged change_withdraw.err_unchanged change_ack.err_unchanged
      change_fail.err_unchanged hand_change_core [THEN core_change.axioms(1), THEN transaction.err_unchanged]
      registry_delete_Err registry_bind_Err register_Err | assumption)+

definition keeps_files :: "codecs \<Rightarrow> 'v app \<Rightarrow> 'v app \<Rightarrow> bool" where
  "keeps_files codec app app' \<longleftrightarrow>
     (restarts codec (a_state app) \<and> queue_inv (core_queue (app_core app)) \<longrightarrow>
        restarts codec (a_state app') \<and> queue_inv (core_queue (app_core app')))"

lemma update_keeps_files:
  assumes "reads_back codec" "saving codec w" "tidy change"
  shows "keeps_files codec app (snd (app_update w change app))"
  using update_restarts [OF assms(3,1), of "a_state app" "unat (w_pid w)"] assms(2)
  by (auto simp: keeps_files_def saving_def app_update_def split_beta)

lemma files_relation:
  assumes codec: "reads_back codec"
  shows "app_relation (saving codec) (keeps_files codec :: 'v app \<Rightarrow> 'v app \<Rightarrow> bool)"
proof
  fix a b c :: "'v app"
  assume "keeps_files codec a b" "keeps_files codec b c"
  then show "keeps_files codec a c" by (simp add: keeps_files_def)
next
  fix app :: "'v app" and m w
  show "keeps_files codec app app" "keeps_files codec app (app\<lparr>a_kernels := m\<rparr>)"
    "keeps_files codec app (app_touch w app)"
    by (simp_all add: keeps_files_def app_touch_def)
qed (rule update_keeps_files [OF codec]; simp add: tidy_changes)+

text \<open>Where the state is kept and how it is bounded never changes.\<close>

definition same_place :: "'v app \<Rightarrow> 'v app \<Rightarrow> bool" where
  "same_place app app' \<longleftrightarrow> a_options app' = a_options app \<and> st_dir (a_state app') = st_dir (a_state app)"

interpretation place: app_relation "\<lambda>_. True" same_place
  by unfold_locales (simp_all add: same_place_def app_touch_def app_update_def split_beta)

lemma place_update: "same_place app (snd (app_update w change app))"
  by (simp add: same_place_def app_update_def split_beta)

section \<open>Lifetimes\<close>

text \<open>
  A daemon runs, every save of it going through; at any moment it may be killed, and be started again
  on the files it has left.
\<close>

fun label_world :: "'v daemon_label \<Rightarrow> 'v world option" where
  "label_world (Client_Request w header body) = Some w"
| "label_world (Listener_Claims w t claimed) = Some w"
| "label_world (Idle_Turn w) = Some w"
| "label_world (Flush_State w) = Some w"
| "label_world (Host_Runs w i) = Some w"
| "label_world (Exit_Reported w t ex exit_code sig) = Some w"
| "label_world _ = None"

inductive life_step :: "codecs \<Rightarrow> options \<Rightarrow> 'v daemon \<Rightarrow> 'v daemon \<Rightarrow> bool" for codec opts where
  runs: "(\<And>w. label_world l = Some w \<Longrightarrow> saving codec w) \<Longrightarrow> life_step codec opts d (daemon_step l d)"
| killed: "daemon_start sc codec (st_files (a_state (dm_app d))) opts now instant = (Inr (addr, app), True) \<Longrightarrow>
    life_step codec opts d (daemon_running app)"

inductive_cases life_stepE: "life_step codec opts d d'"

definition first_start :: "codecs \<Rightarrow> options \<Rightarrow> 'v daemon \<Rightarrow> bool" where
  "first_start codec opts d \<longleftrightarrow>
     (\<exists>sc files now instant addr app.
        files (path_join (o_state_dir opts) REGISTRY_FILE) = Missing \<and>
        files (path_join (o_state_dir opts) EVENTS_FILE) = Missing \<and>
        daemon_start sc codec files opts now instant = (Inr (addr, app), True) \<and> d = daemon_running app)"

definition life_inv :: "codecs \<Rightarrow> options \<Rightarrow> 'v daemon \<Rightarrow> bool" where
  "life_inv codec opts d \<longleftrightarrow>
     app_inv (dm_app d) \<and> restarts codec (a_state (dm_app d)) \<and>
     a_options (dm_app d) = opts \<and> st_dir (a_state (dm_app d)) = o_state_dir opts"

lemma daemon_start_app:
  "daemon_start sc codec files opts now instant = (Inr (addr, app), True) \<Longrightarrow>
     \<exists>st. state_load codec files (o_state_dir opts) = Inr st \<and> app = app_new opts st now instant"
  by (auto simp: daemon_start_def store_open_def rbind_Inr_iff Let_def split: sum.splits)

lemma app_inv_queue: "app_inv app \<Longrightarrow> queue_inv (core_queue (app_core app))"
  by (simp add: app_inv_def core_inv_def)

lemma life_inv_same:
  assumes "life_inv codec opts d" "a_state (dm_app d') = a_state (dm_app d)"
    "a_options (dm_app d') = a_options (dm_app d)"
  shows "life_inv codec opts d'"
  using assms by (auto simp: life_inv_def app_inv_def)

lemma life_inv_served:
  assumes "life_inv codec opts d" "app_inv (dm_app d')" "keeps_files codec (dm_app d) (dm_app d')"
    "same_place (dm_app d) (dm_app d')"
  shows "life_inv codec opts d'"
  using assms app_inv_queue [of "dm_app d"] by (simp add: life_inv_def keeps_files_def same_place_def)

lemma life_inv_flush:
  assumes "reads_back codec" "saving codec w" "life_inv codec opts d"
  shows "life_inv codec opts (daemon_step (Flush_State w) d)"
proof -
  let ?st = "a_state (dm_app d)"
  have "restarts codec (flush (w_codec w) (unat (w_pid w)) (w_io w) ?st)"
    using assms(2,3) app_inv_queue [of "dm_app d"]
    by (intro persisted_restarts [OF assms(1), of "st_core ?st" _ "unat (w_pid w)" ?st])
      (simp_all add: flush_def saving_def life_inv_def)
  then show ?thesis
    using assms(3) by (auto simp: life_inv_def app_inv_flush) (simp add: flush_def)
qed

lemma life_inv_label:
  assumes codec: "reads_back codec" and inv: "life_inv codec opts d"
    and w: "\<And>w. label_world l = Some w \<Longrightarrow> saving codec w"
  shows "life_inv codec opts (daemon_step l d)"
proof -
  note files = files_relation [OF codec]
  note serves = app_relation.rel_rpc_handle [OF files] app_relation.rel_host_handle [OF files]
    app_relation.rel_serve [OF files, where a = "Kernel_Exit _ _ _ _ _", simplified]
    place.rel_rpc_handle place.rel_host_handle place.rel_serve [where a = "Kernel_Exit _ _ _ _ _", simplified]
  have app: "app_inv (dm_app d)" using inv by (simp add: life_inv_def)
  show ?thesis
  proof (cases l)
    case (Client_Request w header body)
    then show ?thesis
      using inv app w serves
      by (auto intro!: life_inv_served [OF inv] rpc_handle_app_inv)
  next
    case (Listener_Claims w t claimed)
    then show ?thesis
      using inv app w update_keeps_files [OF codec _ tidy_changes(8)]
      by (auto intro!: life_inv_served [OF inv] app_update_inv hand_change_core place_update
          simp del: app_update_simps)
  next
    case (Host_Runs w i)
    then show ?thesis
      using inv app w serves
      by (auto intro!: life_inv_served [OF inv] host_handle_app_inv simp: Let_def split: prod.splits)
  next
    case (Exit_Reported w t ex exit_code sig)
    then show ?thesis
      using inv app w serves
      by (auto intro!: life_inv_served [OF inv] report_exit_app_inv)
  next
    case (Flush_State w)
    then show ?thesis using life_inv_flush [OF codec _ inv] w by simp
  next
    case (Idle_Turn w)
    then show ?thesis
      by (intro life_inv_same [OF inv]) (simp_all add: idle_turn_def app_touch_def request_shutdown_def)
  qed (auto intro!: life_inv_same [OF inv] simp: request_shutdown_def)
qed

lemma state_load_place: "state_load codec files dir = Inr st \<Longrightarrow> st_dir st = dir \<and> st_files st = files \<and> core_notify (st_core st) = []"
  by (auto simp: state_load_def rbind_Inr_iff)

lemma state_load_restarts:
  "state_load codec files dir = Inr st \<Longrightarrow> queue_inv (core_queue (st_core st)) \<Longrightarrow> restarts codec st"
  using state_load_place [of codec files dir st] by (auto simp: restarts_def)

lemma life_inv_start:
  assumes "state_load codec files (o_state_dir opts) = Inr st"
    and "core_inv (registry_limits (unat (o_max_depth opts))) (st_core st)"
  shows "life_inv codec opts (daemon_running (app_new opts st now instant))"
  using assms state_load_place [OF assms(1)] state_load_restarts [OF assms(1)]
  by (simp add: life_inv_def daemon_running_def app_new_def app_inv_def core_inv_def)

text \<open>What is loaded satisfies the invariant the killed daemon had.\<close>

lemma restarts_inv:
  assumes "restarts codec st" "core_inv rinv (st_core st)" "state_load codec (st_files st) (st_dir st) = Inr st'"
  shows "core_inv rinv (st_core st')"
  using assms state_load_place [OF assms(3)] by (auto simp: restarts_def core_inv_def)

interpretation lifetimes: inductive_invariant "first_start codec opts" "life_step codec opts"
    "\<lambda>d. reads_back codec \<longrightarrow> life_inv codec opts d" for codec opts
proof
  fix d :: "'a daemon"
  assume "first_start codec opts d"
  then obtain sc files now instant addr app where
    missing: "files (path_join (o_state_dir opts) REGISTRY_FILE) = Missing"
      "files (path_join (o_state_dir opts) EVENTS_FILE) = Missing"
    and start: "daemon_start sc codec files opts now instant = (Inr (addr, app), True)" "d = daemon_running app"
    unfolding first_start_def by blast
  then obtain st where st: "state_load codec files (o_state_dir opts) = Inr st" "app = app_new opts st now instant"
    using daemon_start_app by blast
  then have "st_core st = core_default"
    using missing by (auto simp: state_load_def store_load_def unwrap_or_def core_default_def queue_default_def from_file_def)
  then have "core_inv (registry_limits (unat (o_max_depth opts))) (st_core st)"
    by (simp add: core_inv_default registry_limits_default)
  then show "reads_back codec \<longrightarrow> life_inv codec opts d"
    using st start(2) by (simp add: life_inv_start)
next
  fix d d' :: "'a daemon"
  assume inv: "reads_back codec \<longrightarrow> life_inv codec opts d" and step: "life_step codec opts d d'"
  show "reads_back codec \<longrightarrow> life_inv codec opts d'"
  proof
    assume codec: "reads_back codec"
    with inv have inv: "life_inv codec opts d" by blast
    from step show "life_inv codec opts d'"
    proof cases
      case (runs l)
      then show ?thesis using life_inv_label [OF codec inv] by blast
    next
      case (killed sc now instant addr app)
      then obtain st where st: "state_load codec (st_files (a_state (dm_app d))) (o_state_dir opts) = Inr st"
          "app = app_new opts st now instant" using daemon_start_app by blast
      have "core_inv (registry_limits (unat (o_max_depth opts))) (st_core st)"
        using inv st(1) restarts_inv [of codec "a_state (dm_app d)"] by (auto simp: life_inv_def app_inv_def)
      with st killed show ?thesis by (simp add: life_inv_start)
    qed
  qed
qed

section \<open>Recovery\<close>

text \<open>
  C17. Whatever a daemon has been asked, and however often it has been killed and started again since
  its state directory was empty: the files load, to the registry and the queues (with what was handed
  out) the daemon has in memory, as long as every save went through; so nothing that was answered is
  lost to a crash, and no start fails on the files of an earlier one.
\<close>

theorem crash_recovers:
  assumes "reads_back codec" and "reach (first_start codec opts) (life_step codec opts) d"
  shows "\<exists>st. state_load codec (st_files (a_state (dm_app d))) (o_state_dir opts) = Inr st \<and>
    core_registry (st_core st) = core_registry (app_core (dm_app d)) \<and>
    (\<forall>t. queue_of (core_queue (st_core st)) t = queue_of (core_queue (app_core (dm_app d))) t) \<and>
    core_inv (registry_limits (unat (o_max_depth opts))) (st_core st)"
proof -
  have inv: "life_inv codec opts d" using lifetimes.reach_inv [OF assms(2)] assms(1) by blast
  then obtain st where st: "state_load codec (st_files (a_state (dm_app d))) (st_dir (a_state (dm_app d))) = Inr st"
    "core_registry (st_core st) = core_registry (app_core (dm_app d))"
    "\<forall>t. queue_of (core_queue (st_core st)) t = queue_of (core_queue (app_core (dm_app d))) t"
    unfolding life_inv_def restarts_def by blast
  moreover have "core_inv (registry_limits (unat (o_max_depth opts))) (st_core st)"
    using inv restarts_inv [OF _ _ st(1)] by (auto simp: life_inv_def app_inv_def)
  ultimately show ?thesis using inv by (auto simp: life_inv_def)
qed

section \<open>Witness\<close>

text \<open>A daemon starts on an empty directory, a kernel dies and is reported, and the daemon is killed.\<close>

definition crash_world :: "nat world" where
  "crash_world = demo_world\<lparr>w_codec := unary_codec, w_io := (Saved, Saved)\<rparr>"

definition crash_calls :: start_calls where
  "crash_calls =
     \<lparr>sc_create = Inr (), sc_chmod = Inr (), sc_acquire = Inr (), sc_bind = Inr (),
      sc_local_addr = Inr ''127.0.0.1:7777''\<rparr>"

definition crash_options :: options where
  "crash_options = options_new (\<lambda>_ _. None) (\<lambda>_. None) ''/state''"

definition crash_state :: state where
  "crash_state = \<lparr>st_core = core_default, st_dir = ''/state'', st_files = (\<lambda>_. Missing), st_changes = [], st_log = []\<rparr>"

definition crash_running :: "nat daemon" where
  "crash_running = daemon_running (app_new crash_options crash_state 5 0)"

definition crash_reported :: "nat daemon" where
  "crash_reported = daemon_step
     (Exit_Reported crash_world demo_session \<lparr>exit_pid = 7, exit_report = True\<rparr> (Some 1) None) crash_running"

lemma unary_reads_back: "reads_back unary_codec"
  unfolding reads_back_def using unary_codec_inverse by blast

lemma crash_start: "first_start unary_codec crash_options crash_running"
proof -
  have dir: "o_state_dir crash_options = ''/state''" by (simp add: crash_options_def options_new_def)
  have "state_load unary_codec (\<lambda>_. Missing) ''/state'' = Inr crash_state"
    by (simp add: state_load_def store_load_def unwrap_or_def crash_state_def core_default_def from_file_def
        queue_default_def)
  then have "daemon_start crash_calls unary_codec (\<lambda>_. Missing) crash_options 5 0 =
      (Inr (''127.0.0.1:7777'', app_new crash_options crash_state 5 0), True)"
    by (simp add: daemon_start_def store_open_def crash_calls_def dir)
  then show ?thesis
    unfolding first_start_def crash_running_def
    by (intro exI [of _ crash_calls] exI [of _ "\<lambda>_. Missing"] exI [of _ 5] exI [of _ 0]
        exI [of _ "''127.0.0.1:7777''"] exI [of _ "app_new crash_options crash_state 5 0"] conjI) simp_all
qed

lemma crash_reach: "reach (first_start unary_codec crash_options) (life_step unary_codec crash_options) crash_reported"
proof -
  have "life_step unary_codec crash_options crash_running crash_reported"
    unfolding crash_reported_def by (rule runs) (simp add: saving_def crash_world_def)
  then show ?thesis by (rule reach_step [OF reach_init [where init = "first_start unary_codec crash_options", OF crash_start]])
qed

theorem crash_recovers_witness:
  "\<exists>st. state_load unary_codec (st_files (a_state (dm_app crash_reported))) ''/state'' = Inr st \<and>
     queue_of (core_queue (st_core st)) demo_session \<noteq> []"
proof -
  let ?e = "kernel_exited demo_session 7 (Some 1) None (w_event_now crash_world)"
  have e: "e_target ?e = demo_session"
      "snd (app_update crash_world (enqueue_change ?e) (dm_app crash_running)) = dm_app crash_reported"
    by (simp add: kernel_exited_def Let_def) (simp add: crash_reported_def report_exit_def del: app_update_simps)
  have "core_queue (app_core (dm_app crash_reported)) = snd (push queue_default ?e)"
    by (simp add: e(2) [symmetric] enqueue_change_def map_prod_def split_beta crash_running_def daemon_running_def
        app_new_def crash_state_def core_default_def)
  then have "queue_of (core_queue (app_core (dm_app crash_reported))) demo_session \<noteq> []"
    using queue_of_push [of queue_default ?e demo_session]
    by (simp add: e(1) add_event_def drop_overflow_fit QUEUED_EVENTS_def)
  then show ?thesis
    using crash_recovers [OF unary_reads_back crash_reach] by (auto simp: crash_options_def options_new_def)
qed

end
