(* ===== verification/Store_Steps.thy ===== *)
theory Store_Steps
  imports State
begin

text \<open>
  \<open>Store::save\<close>, \<open>write_private\<close> and \<open>State::persist\<close> system call by system call, over directory
  entries and inodes: what is on disk in between, and after a crash. A process that is killed leaves
  the files as they are. When the power fails, an inode that was not synced has lost any of its text,
  and the directory is as it is or as it was before some of the last changes, which the file system
  keeps in order.
\<close>

section \<open>The disk\<close>

record disk =
  dk_dir :: "string \<Rightarrow> nat option"
  dk_text :: "nat \<Rightarrow> string"
  dk_synced :: "nat \<Rightarrow> bool"
  dk_next :: nat
  dk_past :: "(string \<Rightarrow> nat option) list"

definition read_entry :: "(nat \<Rightarrow> string) \<Rightarrow> (string \<Rightarrow> nat option) \<Rightarrow> files" where
  "read_entry texts entries p = (case entries p of None \<Rightarrow> Missing | Some i \<Rightarrow> Contents (texts i))"

definition files_of :: "disk \<Rightarrow> files" where
  "files_of d = read_entry (dk_text d) (dk_dir d)"

definition change_dir :: "(string \<Rightarrow> nat option) \<Rightarrow> disk \<Rightarrow> disk" where
  "change_dir entries d = d\<lparr>dk_dir := entries, dk_past := dk_dir d # dk_past d\<rparr>"

definition put_text :: "nat \<Rightarrow> string \<Rightarrow> disk \<Rightarrow> disk" where
  "put_text i txt d = d\<lparr>dk_text := (dk_text d)(i := txt), dk_synced := (dk_synced d)(i := False)\<rparr>"

text \<open>\<open>open\<close> with create and truncate, \<open>fsync\<close>, and \<open>rename\<close>.\<close>

definition open_truncated :: "string \<Rightarrow> disk \<Rightarrow> disk" where
  "open_truncated p d =
     (case dk_dir d p of
        Some i \<Rightarrow> put_text i [] d
      | None \<Rightarrow>
          put_text (dk_next d) []
            (change_dir ((dk_dir d)(p \<mapsto> dk_next d)) (d\<lparr>dk_next := Suc (dk_next d)\<rparr>)))"

definition sync_file :: "nat \<Rightarrow> disk \<Rightarrow> disk" where
  "sync_file i d = d\<lparr>dk_synced := (dk_synced d)(i := True)\<rparr>"

definition rename_file :: "string \<Rightarrow> string \<Rightarrow> disk \<Rightarrow> disk" where
  "rename_file from_path to_path d =
     change_dir ((dk_dir d)(from_path := None, to_path := dk_dir d from_path)) d"

section \<open>Saving a file\<close>

text \<open>
  The calls of \<open>save\<close>: opening the temporary file, the writes of \<open>write_all\<close> (each takes some bytes;
  none is an error), the sync, and the rename. \<open>inode\<close> is the open file.
\<close>

datatype save_stage =
  Sv_Open
  | Sv_Write nat nat
  | Sv_Sync nat
  | Sv_Rename
  | Sv_Done "(string, unit) result"

datatype sys_io = Sys_Ok nat | Sys_Error string

definition save_poll ::
  "string \<Rightarrow> string \<Rightarrow> string \<Rightarrow> sys_io \<Rightarrow> save_stage \<times> disk \<Rightarrow> save_stage \<times> disk" where
  "save_poll temporary path bytes io sd =
     (let (stage, d) = sd;
          failed = (\<lambda>e. (Sv_Done (Inl (''write '' @ path @ '': '' @ e)), d))
      in case stage of
           Sv_Open \<Rightarrow>
             (case io of
                Sys_Error e \<Rightarrow> failed e
              | Sys_Ok _ \<Rightarrow>
                  let d' = open_truncated temporary d
                  in (Sv_Write (the (dk_dir d' temporary)) 0, d'))
         | Sv_Write i k \<Rightarrow>
             (case io of
                Sys_Error e \<Rightarrow> failed e
              | Sys_Ok n \<Rightarrow>
                  if n = 0 then failed ''failed to write whole buffer''
                  else let k' = min (k + n) (length bytes)
                       in (if k' = length bytes then Sv_Sync i else Sv_Write i k',
                           put_text i (take k' bytes) d))
         | Sv_Sync i \<Rightarrow>
             (case io of Sys_Error e \<Rightarrow> failed e | Sys_Ok _ \<Rightarrow> (Sv_Rename, sync_file i d))
         | Sv_Rename \<Rightarrow>
             (case io of
                Sys_Error e \<Rightarrow> failed e
              | Sys_Ok _ \<Rightarrow> (Sv_Done (Inr ()), rename_file temporary path d))
         | Sv_Done r \<Rightarrow> (Sv_Done r, d))"

section \<open>Persisting the core\<close>

datatype persist_stage =
  Ps_Start
  | Ps_Registry string save_stage
  | Ps_Events string save_stage
  | Ps_Done "(string, unit) result"

definition persist_poll ::
  "codecs \<Rightarrow> nat \<Rightarrow> string \<Rightarrow> core \<Rightarrow> sys_io \<Rightarrow> persist_stage \<times> disk \<Rightarrow> persist_stage \<times> disk" where
  "persist_poll codec pid dir c io pd =
     (let (stage, d) = pd
      in case stage of
           Ps_Start \<Rightarrow>
             (case enc_registry codec (core_registry c) of
                Inl e \<Rightarrow> (Ps_Done (Inl e), d)
              | Inr b \<Rightarrow> (Ps_Registry (b @ [newline]) Sv_Open, d))
         | Ps_Registry bytes (Sv_Done (Inl e)) \<Rightarrow> (Ps_Done (Inl e), d)
         | Ps_Registry bytes (Sv_Done (Inr _)) \<Rightarrow>
             (case enc_queue codec (to_file (core_queue c)) of
                Inl e \<Rightarrow> (Ps_Done (Inl e), d)
              | Inr b \<Rightarrow> (Ps_Events (b @ [newline]) Sv_Open, d))
         | Ps_Registry bytes stage \<Rightarrow>
             map_prod (Ps_Registry bytes) (\<lambda>d. d)
               (save_poll (temporary_path dir REGISTRY_FILE pid) (path_join dir REGISTRY_FILE) bytes io (stage, d))
         | Ps_Events bytes (Sv_Done r) \<Rightarrow> (Ps_Done r, d)
         | Ps_Events bytes stage \<Rightarrow>
             map_prod (Ps_Events bytes) (\<lambda>d. d)
               (save_poll (temporary_path dir EVENTS_FILE pid) (path_join dir EVENTS_FILE) bytes io (stage, d))
         | Ps_Done r \<Rightarrow> (Ps_Done r, d))"

definition persist_run :: "codecs \<Rightarrow> nat \<Rightarrow> string \<Rightarrow> core \<Rightarrow> sys_io list \<Rightarrow> disk \<Rightarrow> persist_stage \<times> disk" where
  "persist_run codec pid dir c ios d = fold (persist_poll codec pid dir c) ios (Ps_Start, d)"

section \<open>Crashes\<close>

inductive crash :: "disk \<Rightarrow> disk \<Rightarrow> bool" where
  killed: "crash d d"
| power_lost: "entries \<in> set (dk_dir d # dk_past d) \<Longrightarrow> (\<And>i. dk_synced d i \<Longrightarrow> texts i = dk_text d i) \<Longrightarrow>
    crash d (d\<lparr>dk_dir := entries, dk_text := texts, dk_past := []\<rparr>)"

inductive_cases crashE: "crash d d'"

section \<open>What the calls leave alone\<close>

definition history :: "disk \<Rightarrow> (string \<Rightarrow> nat option) set" where
  "history d = set (dk_dir d # dk_past d)"

text \<open>The watched files as they read through some directory.\<close>

definition watch :: "string set \<Rightarrow> disk \<Rightarrow> (string \<Rightarrow> nat option) \<Rightarrow> files" where
  "watch W d entries p = (if p \<in> W then read_entry (dk_text d) entries p else Missing)"

text \<open>
  Through every directory that may come back the watched files are synced, and none of them shares an
  inode with a temporary file; no inode has two names.
\<close>

definition disk_ok :: "string set \<Rightarrow> string set \<Rightarrow> disk \<Rightarrow> bool" where
  "disk_ok W T d \<longleftrightarrow>
     (\<forall>entries \<in> history d. \<forall>p \<in> W. \<forall>i. entries p = Some i \<longrightarrow>
        dk_synced d i \<and> i < dk_next d \<and> (\<forall>t \<in> T. dk_dir d t \<noteq> Some i)) \<and>
     (\<forall>p q i. dk_dir d p = Some i \<longrightarrow> dk_dir d q = Some i \<longrightarrow> p = q) \<and>
     (\<forall>p i. dk_dir d p = Some i \<longrightarrow> i < dk_next d)"

definition views :: "string set \<Rightarrow> disk \<Rightarrow> files set" where
  "views W d = watch W d ` history d"

definition view :: "string set \<Rightarrow> disk \<Rightarrow> files" where
  "view W d = watch W d (dk_dir d)"

text \<open>A change that the watched files do not notice.\<close>

definition unnoticed :: "string set \<Rightarrow> disk \<Rightarrow> disk \<Rightarrow> bool" where
  "unnoticed W d d' \<longleftrightarrow> views W d' = views W d \<and> view W d' = view W d"

lemma put_text_unnoticed:
  assumes "disk_ok W T d" "t \<in> T" "dk_dir d t = Some i"
  shows "disk_ok W T (put_text i txt d)" "unnoticed W d (put_text i txt d)"
proof -
  have ne: "entries p \<noteq> Some i" if "entries \<in> history d" "p \<in> W" for entries p
    using assms that unfolding disk_ok_def by blast
  have h: "history (put_text i txt d) = history d" by (simp add: history_def put_text_def)
  have w: "watch W (put_text i txt d) entries = watch W d entries" if "entries \<in> history d" for entries
    using ne [OF that] by (auto simp: watch_def read_entry_def put_text_def fun_eq_iff split: option.splits)
  show "unnoticed W d (put_text i txt d)"
    using w h by (auto simp: unnoticed_def views_def view_def history_def put_text_def)
  show "disk_ok W T (put_text i txt d)"
    using assms(1) ne unfolding disk_ok_def h by (auto simp: put_text_def)
qed

lemma sync_file_unnoticed:
  assumes "disk_ok W T d"
  shows "disk_ok W T (sync_file i d)" "unnoticed W d (sync_file i d)"
proof -
  have "watch W (sync_file i d) entries = watch W d entries" for entries
    by (simp add: watch_def sync_file_def fun_eq_iff)
  then show "unnoticed W d (sync_file i d)"
    by (simp add: unnoticed_def views_def view_def history_def sync_file_def)
  show "disk_ok W T (sync_file i d)"
    using assms unfolding disk_ok_def history_def by (auto simp: sync_file_def)
qed

lemma new_file_unnoticed:
  fixes d t
  defines "d' \<equiv> change_dir ((dk_dir d)(t \<mapsto> dk_next d)) (d\<lparr>dk_next := Suc (dk_next d)\<rparr>)"
  assumes ok: "disk_ok W T d" and t: "t \<notin> W"
  shows "disk_ok W T d'" "unnoticed W d d'"
proof -
  have h: "history d' = insert ((dk_dir d)(t \<mapsto> dk_next d)) (history d)"
    by (auto simp: d'_def history_def change_dir_def)
  have w: "watch W d' entries = watch W d entries" for entries
    by (simp add: d'_def watch_def change_dir_def fun_eq_iff)
  have same: "watch W d ((dk_dir d)(t \<mapsto> dk_next d)) = watch W d (dk_dir d)"
    using t by (auto simp: watch_def read_entry_def fun_eq_iff)
  have "watch W d (dk_dir d) \<in> watch W d ` history d" by (simp add: history_def)
  then show "unnoticed W d d'"
    using same w h by (auto simp: unnoticed_def views_def view_def) (simp add: d'_def change_dir_def same)+
  have less: "dk_dir d p = Some i \<Longrightarrow> i < dk_next d" for p i using ok unfolding disk_ok_def by blast
  have cur: "dk_dir d \<in> history d" by (simp add: history_def)
  show "disk_ok W T d'"
    unfolding disk_ok_def h
  proof (intro conjI ballI allI impI)
    fix entries p i
    assume e: "entries \<in> insert ((dk_dir d)(t \<mapsto> dk_next d)) (history d)" "p \<in> W" "entries p = Some i"
    then have "\<exists>entries \<in> history d. entries p = Some i" using t cur by (auto split: if_splits)
    then obtain es where es: "es \<in> history d" "es p = Some i" by blast
    then have *: "dk_synced d i \<and> i < dk_next d \<and> (\<forall>t \<in> T. dk_dir d t \<noteq> Some i)"
      using ok e(2) unfolding disk_ok_def by blast
    then show "dk_synced d' i" "i < dk_next d'" by (simp_all add: d'_def change_dir_def)
    show "dk_dir d' t' \<noteq> Some i" if "t' \<in> T" for t' using * that by (auto simp: d'_def change_dir_def)
  next
    show "p = q" if "dk_dir d' p = Some i" "dk_dir d' q = Some i" for p q i
      using that ok less unfolding disk_ok_def by (auto simp: d'_def change_dir_def split: if_splits)
    show "i < dk_next d'" if "dk_dir d' p = Some i" for p i
      using that less by (auto simp: d'_def change_dir_def less_SucI split: if_splits)
  qed
qed

lemma open_truncated_unnoticed:
  assumes "disk_ok W T d" "t \<in> T" "W \<inter> T = {}"
  shows "disk_ok W T (open_truncated t d)" "unnoticed W d (open_truncated t d)"
    "\<exists>i. dk_dir (open_truncated t d) t = Some i"
proof -
  have "disk_ok W T (open_truncated t d) \<and> unnoticed W d (open_truncated t d) \<and>
    (\<exists>i. dk_dir (open_truncated t d) t = Some i)"
  proof (cases "dk_dir d t")
    case (Some i)
    then show ?thesis
      using put_text_unnoticed [OF assms(1,2) Some] by (simp add: open_truncated_def put_text_def)
  next
    case None
    let ?d = "change_dir ((dk_dir d)(t \<mapsto> dk_next d)) (d\<lparr>dk_next := Suc (dk_next d)\<rparr>)"
    have t: "t \<notin> W" using assms(2,3) by blast
    have dt: "dk_dir ?d t = Some (dk_next d)" by (simp add: change_dir_def)
    have eq: "open_truncated t d = put_text (dk_next d) [] ?d" using None by (simp add: open_truncated_def)
    show ?thesis
      using put_text_unnoticed [OF new_file_unnoticed(1) [OF assms(1) t] assms(2) dt, of "[]"]
        new_file_unnoticed(2) [OF assms(1) t] dt
      by (simp add: eq unnoticed_def) (simp add: put_text_def)
  qed
  then show "disk_ok W T (open_truncated t d)" "unnoticed W d (open_truncated t d)"
    "\<exists>i. dk_dir (open_truncated t d) t = Some i" by blast+
qed

lemma rename_noticed:
  assumes "disk_ok W T d" "t \<in> T" "p \<in> W" "W \<inter> T = {}" "dk_dir d t = Some i" "dk_synced d i"
  shows "disk_ok W T (rename_file t p d)"
    "views W (rename_file t p d) = insert ((view W d)(p := Contents (dk_text d i))) (views W d)"
    "view W (rename_file t p d) = (view W d)(p := Contents (dk_text d i))"
proof -
  let ?new = "(dk_dir d)(t := None, p \<mapsto> i)"
  have tp: "t \<noteq> p" "t \<notin> W" using assms(2-4) by auto
  have d': "rename_file t p d = change_dir ?new d" using assms(5) by (simp add: rename_file_def)
  have h: "history (rename_file t p d) = insert ?new (history d)"
    by (auto simp: d' history_def change_dir_def)
  have w: "watch W (rename_file t p d) entries = watch W d entries" for entries
    by (simp add: d' watch_def change_dir_def fun_eq_iff)
  have new: "watch W d ?new = (view W d)(p := Contents (dk_text d i))"
    using assms(3) tp by (auto simp: watch_def view_def read_entry_def fun_eq_iff)
  show "views W (rename_file t p d) = insert ((view W d)(p := Contents (dk_text d i))) (views W d)"
    by (simp add: views_def h w new)
  show "view W (rename_file t p d) = (view W d)(p := Contents (dk_text d i))"
    by (simp add: view_def w) (simp add: d' change_dir_def new view_def)
  have inj: "dk_dir d q = Some j \<Longrightarrow> dk_dir d r = Some j \<Longrightarrow> q = r" for q r j
    using assms(1) unfolding disk_ok_def by blast
  have less: "dk_dir d q = Some j \<Longrightarrow> j < dk_next d" for q j using assms(1) unfolding disk_ok_def by blast
  have cur: "dk_dir d \<in> history d" by (simp add: history_def)
  show "disk_ok W T (rename_file t p d)"
    unfolding disk_ok_def h
  proof (intro conjI ballI allI impI)
    fix entries q j
    assume e: "entries \<in> insert ?new (history d)" "q \<in> W" "entries q = Some j"
    then have cases: "j = i \<or> (\<exists>es \<in> history d. es q = Some j)" using tp cur by (auto split: if_splits)
    have old: "dk_synced d j \<and> j < dk_next d \<and> (\<forall>t \<in> T. dk_dir d t \<noteq> Some j)"
      if "es \<in> history d" "es q = Some j" for es
      using assms(1) e(2) that unfolding disk_ok_def by blast
    show "dk_synced (rename_file t p d) j" "j < dk_next (rename_file t p d)"
      using cases old assms(6) less [OF assms(5)] by (auto simp: d' change_dir_def)
    show "dk_dir (rename_file t p d) u \<noteq> Some j" if "u \<in> T" for u
      using cases old that inj assms(3-5) by (auto simp: d' change_dir_def)
  next
    show "q = r" if "dk_dir (rename_file t p d) q = Some j" "dk_dir (rename_file t p d) r = Some j" for q r j
      using that inj assms(5) by (auto simp: d' change_dir_def split: if_splits)
    show "j < dk_next (rename_file t p d)" if "dk_dir (rename_file t p d) q = Some j" for q j
      using that less assms(5) by (auto simp: d' change_dir_def split: if_splits)
  qed
qed

text \<open>
  A disk is recoverable when it would be in order through every directory that may come back, too:
  then a crash leaves a recoverable disk.
\<close>

definition recoverable :: "string set \<Rightarrow> string set \<Rightarrow> disk \<Rightarrow> bool" where
  "recoverable W T d \<longleftrightarrow>
     disk_ok W T d \<and> (\<forall>entries \<in> history d. disk_ok W T (d\<lparr>dk_dir := entries, dk_past := []\<rparr>))"

lemma recoverable_step:
  assumes "recoverable W T d" "disk_ok W T d'"
    and "history d' \<subseteq> insert (dk_dir d') (history d)" "dk_next d \<le> dk_next d'"
  shows "recoverable W T d'"
proof -
  have "disk_ok W T (d'\<lparr>dk_dir := entries, dk_past := []\<rparr>)" if e: "entries \<in> history d'" for entries
  proof (cases "entries = dk_dir d'")
    case True
    then show ?thesis using assms(2) by (simp add: disk_ok_def history_def)
  next
    case False
    then have "disk_ok W T (d\<lparr>dk_dir := entries, dk_past := []\<rparr>)"
      using e assms(1,3) unfolding recoverable_def by blast
    then show ?thesis
      using e assms(2,4) unfolding disk_ok_def history_def by (simp, meson less_le_trans)
  qed
  then show ?thesis using assms(2) by (simp add: recoverable_def)
qed

section \<open>A save among the watched files\<close>

fun stage_ok :: "string \<Rightarrow> string \<Rightarrow> save_stage \<Rightarrow> disk \<Rightarrow> bool" where
  "stage_ok temporary bytes Sv_Open d \<longleftrightarrow> True"
| "stage_ok temporary bytes (Sv_Write i k) d \<longleftrightarrow> dk_dir d temporary = Some i"
| "stage_ok temporary bytes (Sv_Sync i) d \<longleftrightarrow> dk_dir d temporary = Some i \<and> dk_text d i = bytes"
| "stage_ok temporary bytes Sv_Rename d \<longleftrightarrow>
     (\<exists>i. dk_dir d temporary = Some i \<and> dk_text d i = bytes \<and> dk_synced d i)"
| "stage_ok temporary bytes (Sv_Done r) d \<longleftrightarrow> True"

lemma save_poll_step:
  assumes ok: "disk_ok W T d" "stage_ok t bytes st d" and names: "t \<in> T" "p \<in> W" "W \<inter> T = {}"
    and poll: "save_poll t p bytes io (st, d) = (st', d')"
  shows "disk_ok W T d' \<and> stage_ok t bytes st' d' \<and>
    (if st = Sv_Rename \<and> st' = Sv_Done (Inr ())
     then views W d' = insert ((view W d)(p := Contents bytes)) (views W d) \<and>
       view W d' = (view W d)(p := Contents bytes)
     else unnoticed W d d' \<and> (st' = Sv_Done (Inr ()) \<longrightarrow> st = st'))"
proof -
  have refl: "unnoticed W d d" by (simp add: unnoticed_def)
  show ?thesis
  proof (cases st)
    case Sv_Open
    then show ?thesis
      using poll ok(1) refl open_truncated_unnoticed [OF ok(1) names(1,3)]
      by (auto simp: save_poll_def Let_def split: sys_io.splits)
  next
    case (Sv_Write i k)
    then have i: "dk_dir d t = Some i" using ok(2) by simp
    show ?thesis
      using poll ok(1) refl i put_text_unnoticed [OF ok(1) names(1) i] Sv_Write
      by (auto simp: save_poll_def Let_def split: sys_io.splits if_splits) (auto simp: put_text_def)
  next
    case (Sv_Sync i)
    then show ?thesis
      using poll ok refl sync_file_unnoticed [OF ok(1)]
      by (auto simp: save_poll_def Let_def split: sys_io.splits) (auto simp: sync_file_def)
  next
    case Sv_Rename
    then obtain i where i: "dk_dir d t = Some i" "dk_text d i = bytes" "dk_synced d i"
      using ok(2) by auto
    show ?thesis
      using poll ok refl rename_noticed [OF ok(1) names i(1,3)] i(2) Sv_Rename
      by (auto simp: save_poll_def Let_def split: sys_io.splits)
  next
    case (Sv_Done r)
    then show ?thesis using poll ok refl by (auto simp: save_poll_def)
  qed
qed

lemma save_poll_history:
  "save_poll t p bytes io (st, d) = (st', d') \<Longrightarrow>
     history d' \<subseteq> insert (dk_dir d') (history d) \<and> dk_next d \<le> dk_next d' \<and> history d \<subseteq> history d'"
  by (auto simp: save_poll_def Let_def history_def open_truncated_def put_text_def change_dir_def sync_file_def
      rename_file_def split: save_stage.splits sys_io.splits if_splits option.splits)

section \<open>Persisting, watched\<close>

definition state_paths :: "string \<Rightarrow> string set" where
  "state_paths dir = {path_join dir REGISTRY_FILE, path_join dir EVENTS_FILE}"

text \<open>The temporary files of every process.\<close>

definition state_temporaries :: "string \<Rightarrow> string set" where
  "state_temporaries dir = range (temporary_path dir REGISTRY_FILE) \<union> range (temporary_path dir EVENTS_FILE)"

lemma state_names: "state_paths dir \<inter> state_temporaries dir = {}"
  by (auto simp: state_paths_def state_temporaries_def dest: state_paths_distinct [THEN notE, rotated])

text \<open>
  The views of the two files that may be found: what may have been found before (\<open>A\<close>, with \<open>v\<close> the
  present one), and the view between and after the two renames.
\<close>

definition view1 :: "string \<Rightarrow> string \<Rightarrow> files \<Rightarrow> files" where
  "view1 dir rb v = v(path_join dir REGISTRY_FILE := Contents (rb @ [newline]))"

definition view2 :: "string \<Rightarrow> string \<Rightarrow> string \<Rightarrow> files \<Rightarrow> files" where
  "view2 dir rb qb v = (view1 dir rb v)(path_join dir EVENTS_FILE := Contents (qb @ [newline]))"

definition shows_view :: "string \<Rightarrow> files set \<Rightarrow> files \<Rightarrow> disk \<Rightarrow> bool" where
  "shows_view dir A v d \<longleftrightarrow> views (state_paths dir) d \<subseteq> A \<and> view (state_paths dir) d = v"

fun persist_ok ::
  "nat \<Rightarrow> string \<Rightarrow> string \<Rightarrow> string \<Rightarrow> files set \<Rightarrow> files \<Rightarrow> persist_stage \<Rightarrow> disk \<Rightarrow> bool" where
  "persist_ok pid dir rb qb A v Ps_Start d \<longleftrightarrow> shows_view dir A v d"
| "persist_ok pid dir rb qb A v (Ps_Registry bytes st) d \<longleftrightarrow>
     bytes = rb @ [newline] \<and> stage_ok (temporary_path dir REGISTRY_FILE pid) bytes st d \<and>
     (if st = Sv_Done (Inr ()) then shows_view dir (insert (view1 dir rb v) A) (view1 dir rb v) d
      else shows_view dir A v d)"
| "persist_ok pid dir rb qb A v (Ps_Events bytes st) d \<longleftrightarrow>
     bytes = qb @ [newline] \<and> stage_ok (temporary_path dir EVENTS_FILE pid) bytes st d \<and>
     (if st = Sv_Done (Inr ())
      then shows_view dir (insert (view2 dir rb qb v) (insert (view1 dir rb v) A)) (view2 dir rb qb v) d
      else shows_view dir (insert (view1 dir rb v) A) (view1 dir rb v) d)"
| "persist_ok pid dir rb qb A v (Ps_Done r) d \<longleftrightarrow>
     (\<exists>v' \<in> {v, view1 dir rb v, view2 dir rb qb v}.
        shows_view dir (insert (view2 dir rb qb v) (insert (view1 dir rb v) A)) v' d \<and>
        (r = Inr () \<longrightarrow> v' = view2 dir rb qb v))"

lemma shows_view_mono: "shows_view dir A v d \<Longrightarrow> A \<subseteq> B \<Longrightarrow> shows_view dir B v d"
  by (auto simp: shows_view_def)

lemma persist_ok_views:
  assumes "persist_ok pid dir rb qb A v stage d"
  shows "\<exists>v' \<in> {v, view1 dir rb v, view2 dir rb qb v}.
    shows_view dir (insert (view2 dir rb qb v) (insert (view1 dir rb v) A)) v' d \<and>
    (stage = Ps_Done (Inr ()) \<longrightarrow> v' = view2 dir rb qb v)"
  using assms by (cases stage) (auto simp: shows_view_def split: if_splits)

lemma persist_poll_saving:
  assumes "persist_poll codec pid dir c io (stage, d) = (stage', d')" "\<forall>r. st \<noteq> Sv_Done r"
  shows "stage = Ps_Registry bytes st \<Longrightarrow>
      \<exists>st'. save_poll (temporary_path dir REGISTRY_FILE pid) (path_join dir REGISTRY_FILE) bytes io (st, d) = (st', d') \<and>
        stage' = Ps_Registry bytes st'"
    and "stage = Ps_Events bytes st \<Longrightarrow>
      \<exists>st'. save_poll (temporary_path dir EVENTS_FILE pid) (path_join dir EVENTS_FILE) bytes io (st, d) = (st', d') \<and>
        stage' = Ps_Events bytes st'"
  using assms by (cases st; auto simp: persist_poll_def map_prod_def split: prod.splits)+

lemma persist_poll_ok:
  assumes "enc_registry codec (core_registry c) = Inr rb" "enc_queue codec (to_file (core_queue c)) = Inr qb"
    and ok: "disk_ok (state_paths dir) (state_temporaries dir) d" "persist_ok pid dir rb qb A v stage d"
    and poll: "persist_poll codec pid dir c io (stage, d) = (stage', d')"
  shows "disk_ok (state_paths dir) (state_temporaries dir) d' \<and> persist_ok pid dir rb qb A v stage' d'"
proof (cases stage)
  case Ps_Start
  then show ?thesis using assms by (auto simp: persist_poll_def)
next
  case (Ps_Done r)
  then show ?thesis using assms by (auto simp: persist_poll_def)
next
  case (Ps_Registry bytes st)
  let ?t = "temporary_path dir REGISTRY_FILE pid" and ?p = "path_join dir REGISTRY_FILE"
  show ?thesis
  proof (cases "\<exists>r. st = Sv_Done r")
    case True
    then obtain r where "st = Sv_Done r" ..
    then show ?thesis using assms Ps_Registry by (cases r) (auto simp: persist_poll_def shows_view_def)
  next
    case False
    obtain st' where save: "save_poll ?t ?p bytes io (st, d) = (st', d')" and stage': "stage' = Ps_Registry bytes st'"
      using persist_poll_saving(1) [OF poll _ Ps_Registry] False by blast
    from save_poll_step [OF ok(1) _ _ _ state_names save] show ?thesis
      using ok(2) Ps_Registry False stage'
      by (auto simp: state_paths_def state_temporaries_def unnoticed_def shows_view_def view1_def split: if_splits)
  qed
next
  case (Ps_Events bytes st)
  let ?t = "temporary_path dir EVENTS_FILE pid" and ?p = "path_join dir EVENTS_FILE"
  show ?thesis
  proof (cases "\<exists>r. st = Sv_Done r")
    case True
    then obtain r where "st = Sv_Done r" ..
    then show ?thesis
      using assms Ps_Events by (cases r) (auto simp: persist_poll_def shows_view_def split: if_splits)
  next
    case False
    obtain st' where save: "save_poll ?t ?p bytes io (st, d) = (st', d')" and stage': "stage' = Ps_Events bytes st'"
      using persist_poll_saving(2) [OF poll _ Ps_Events] False by blast
    from save_poll_step [OF ok(1) _ _ _ state_names save] show ?thesis
      using ok(2) Ps_Events False stage'
      by (auto simp: state_paths_def state_temporaries_def unnoticed_def shows_view_def view2_def split: if_splits)
  qed
qed

lemma persist_poll_history:
  assumes "persist_poll codec pid dir c io (stage, d) = (stage', d')"
  shows "history d' \<subseteq> insert (dk_dir d') (history d) \<and> dk_next d \<le> dk_next d' \<and> history d \<subseteq> history d'"
proof -
  have "d' = d \<or> (\<exists>t p bytes st st'. save_poll t p bytes io (st, d) = (st', d'))"
    using assms by (auto simp: persist_poll_def map_prod_def split: persist_stage.splits save_stage.splits
        sum.splits prod.splits)
  then show ?thesis by (metis save_poll_history history_def list.set_intros(1) insert_absorb order_refl)
qed

lemma persist_run_ok:
  assumes "enc_registry codec (core_registry c) = Inr rb" "enc_queue codec (to_file (core_queue c)) = Inr qb"
    and "recoverable (state_paths dir) (state_temporaries dir) d"
    and "persist_run codec pid dir c ios d = (stage, d')"
  shows "recoverable (state_paths dir) (state_temporaries dir) d'"
    "persist_ok pid dir rb qb (views (state_paths dir) d) (view (state_paths dir) d) stage d'"
proof -
  let ?A = "views (state_paths dir) d" and ?v = "view (state_paths dir) d"
  define ok where "ok = (\<lambda>(st, d). recoverable (state_paths dir) (state_temporaries dir) d \<and>
    persist_ok pid dir rb qb ?A ?v st d)"
  have step: "ok (persist_poll codec pid dir c io x)" if "ok x" for io x
  proof -
    obtain st1 d1 st2 d2 where x: "x = (st1, d1)" "persist_poll codec pid dir c io (st1, d1) = (st2, d2)"
      by (metis surj_pair)
    then have old: "recoverable (state_paths dir) (state_temporaries dir) d1" "persist_ok pid dir rb qb ?A ?v st1 d1"
      using that by (simp_all add: ok_def)
    then have "disk_ok (state_paths dir) (state_temporaries dir) d2 \<and> persist_ok pid dir rb qb ?A ?v st2 d2"
      using persist_poll_ok [OF assms(1,2) _ _ x(2)] by (simp add: recoverable_def)
    then show ?thesis
      using x recoverable_step [OF old(1)] persist_poll_history [OF x(2)] by (simp add: ok_def)
  qed
  have "ok (fold (persist_poll codec pid dir c) ios x)" if "ok x" for x
    using that by (induction ios arbitrary: x) (simp_all add: step)
  moreover have "ok (Ps_Start, d)" using assms(3) by (simp add: ok_def shows_view_def)
  ultimately have "ok (stage, d')" using assms(4) unfolding persist_run_def by metis
  then show "recoverable (state_paths dir) (state_temporaries dir) d'" "persist_ok pid dir rb qb ?A ?v stage d'"
    by (simp_all add: ok_def)
qed

lemma crash_view:
  assumes "crash d d'" and ok: "recoverable W T d"
  shows "recoverable W T d'" "views W d' \<subseteq> views W d"
proof -
  have "recoverable W T d' \<and> views W d' \<subseteq> views W d"
    using assms(1)
  proof cases
    case killed
    then show ?thesis using ok by simp
  next
    case (power_lost entries texts)
    then have e: "entries \<in> history d" "\<And>i. dk_synced d i \<Longrightarrow> texts i = dk_text d i"
      and d': "d' = d\<lparr>dk_dir := entries, dk_text := texts, dk_past := []\<rparr>" by (simp_all add: history_def)
    have "dk_synced d i" if "p \<in> W" "entries p = Some i" for p i
      using ok e(1) that unfolding recoverable_def disk_ok_def by blast
    then have "watch W d' entries = watch W d entries"
      using e(2) by (auto simp: watch_def read_entry_def d' fun_eq_iff split: option.splits)
    moreover have "history d' = {entries}" by (simp add: d' history_def)
    ultimately have "views W d' \<subseteq> views W d" using e(1) by (auto simp: views_def)
    moreover have "disk_ok W T (d\<lparr>dk_dir := entries, dk_past := []\<rparr>)"
      using ok e(1) unfolding recoverable_def by blast
    then have "recoverable W T d'" by (simp add: recoverable_def disk_ok_def history_def d')
    ultimately show ?thesis by blast
  qed
  then show "recoverable W T d'" "views W d' \<subseteq> views W d" by simp_all
qed

section \<open>The life of a state directory\<close>

lemma view_path: "p \<in> state_paths dir \<Longrightarrow> view (state_paths dir) d p = files_of d p"
  by (simp add: view_def watch_def files_of_def)

text \<open>Loading only looks at the two files.\<close>

definition loads :: "codecs \<Rightarrow> files \<Rightarrow> string \<Rightarrow> registry \<Rightarrow> event_queue \<Rightarrow> bool" where
  "loads codec files dir r q \<longleftrightarrow>
     (\<exists>st. state_load codec files dir = Inr st \<and> core_registry (st_core st) = r \<and> core_queue (st_core st) = q)"

lemma loads_iff:
  "loads codec files dir r q \<longleftrightarrow>
     (\<exists>ro. store_load (dec_registry codec) files dir REGISTRY_FILE = Inr ro \<and> r = unwrap_or registry_default ro) \<and>
     (\<exists>fo. store_load (dec_queue codec) files dir EVENTS_FILE = Inr fo \<and> q = from_file (unwrap_or [] fo))"
  by (auto simp: loads_def state_load_def rbind_Inr_iff)

lemma loads_view: "loads codec (view (state_paths dir) d) dir r q \<longleftrightarrow> loads codec (files_of d) dir r q"
proof -
  have "view (state_paths dir) d (path_join dir REGISTRY_FILE) = files_of d (path_join dir REGISTRY_FILE)"
    "view (state_paths dir) d (path_join dir EVENTS_FILE) = files_of d (path_join dir EVENTS_FILE)"
    by (rule view_path, simp add: state_paths_def)+
  then show ?thesis by (simp add: loads_iff store_load_def Let_def)
qed

text \<open>Queues as they are read back, and cores that the codec of serde reads back.\<close>

definition reloaded :: "core \<Rightarrow> event_queue" where
  "reloaded c = from_file (to_file (core_queue c))"

definition stores :: "codecs \<Rightarrow> core \<Rightarrow> bool" where
  "stores codec c \<longleftrightarrow>
     (\<exists>rb. enc_registry codec (core_registry c) = Inr rb \<and> dec_registry codec (rb @ [newline]) = Inr (core_registry c)) \<and>
     (\<exists>qb. enc_queue codec (to_file (core_queue c)) = Inr qb \<and> dec_queue codec (qb @ [newline]) = Inr (to_file (core_queue c)))"

lemma storesE:
  assumes "stores codec c"
  obtains rb qb where "enc_registry codec (core_registry c) = Inr rb" "enc_queue codec (to_file (core_queue c)) = Inr qb"
    "\<And>v r q. loads codec v dir r q \<Longrightarrow> loads codec (view1 dir rb v) dir (core_registry c) q"
    "\<And>v. loads codec (view2 dir rb qb v) dir (core_registry c) (reloaded c)"
proof -
  obtain rb qb where b: "enc_registry codec (core_registry c) = Inr rb"
      "dec_registry codec (rb @ [newline]) = Inr (core_registry c)"
      "enc_queue codec (to_file (core_queue c)) = Inr qb"
      "dec_queue codec (qb @ [newline]) = Inr (to_file (core_queue c))"
    using assms by (auto simp: stores_def)
  show ?thesis
    by (rule that [OF b(1,3)])
      (use b in \<open>auto simp: loads_iff store_load_def view1_def view2_def unwrap_or_def reloaded_def\<close>)
qed

text \<open>
  One \<open>persist\<close> after the other, by any processes; each has made any number of its calls when the next
  begins, and crashes come in between.
\<close>

inductive disk_life :: "codecs \<Rightarrow> string \<Rightarrow> disk \<Rightarrow> core list \<Rightarrow> disk \<Rightarrow> bool" for codec dir d0 where
  begun: "disk_life codec dir d0 [] d0"
| persisted: "disk_life codec dir d0 cs d \<Longrightarrow> persist_run codec pid dir c ios d = (stage, d') \<Longrightarrow>
    disk_life codec dir d0 (cs @ [c]) d'"
| crashed: "disk_life codec dir d0 cs d \<Longrightarrow> crash d d' \<Longrightarrow> disk_life codec dir d0 cs d'"

text \<open>What the files read as: the registry of some \<open>persist\<close>, and the queues of the same or an earlier one.\<close>

definition kept :: "codecs \<Rightarrow> string \<Rightarrow> registry \<Rightarrow> event_queue \<Rightarrow> core list \<Rightarrow> files \<Rightarrow> bool" where
  "kept codec dir r q cs v \<longleftrightarrow>
     (\<exists>i j. j \<le> i \<and> i \<le> length cs \<and>
        loads codec v dir ((r # map core_registry cs) ! i) ((q # map reloaded cs) ! j))"

lemma nth_snoc:
  "k \<le> length cs \<Longrightarrow> (x # map f (cs @ [c])) ! k = (x # map f cs) ! k"
  "(x # map f (cs @ [c])) ! Suc (length cs) = f c"
  by (cases k) (simp_all add: nth_append)

lemma kept_snoc: "kept codec dir r q cs v \<Longrightarrow> kept codec dir r q (cs @ [c]) v"
proof -
  assume "kept codec dir r q cs v"
  then obtain i j where ij: "j \<le> i" "i \<le> length cs"
      "loads codec v dir ((r # map core_registry cs) ! i) ((q # map reloaded cs) ! j)"
    by (auto simp: kept_def)
  then have "loads codec v dir ((r # map core_registry (cs @ [c])) ! i) ((q # map reloaded (cs @ [c])) ! j)"
    by (simp only: nth_snoc(1) le_trans [OF ij(1,2)])
  then show ?thesis unfolding kept_def using ij(1,2) by (metis le_SucI length_append_singleton)
qed

lemma kept_views:
  assumes "kept codec dir r q cs v"
    and "\<And>r q. loads codec v dir r q \<Longrightarrow> loads codec v1 dir (core_registry c) q"
    and "loads codec v2 dir (core_registry c) (reloaded c)"
  shows "kept codec dir r q (cs @ [c]) v1" "kept codec dir r q (cs @ [c]) v2"
proof -
  let ?n = "Suc (length cs)"
  obtain i j where ij: "j \<le> i" "i \<le> length cs"
      "loads codec v dir ((r # map core_registry cs) ! i) ((q # map reloaded cs) ! j)"
    using assms(1) by (auto simp: kept_def)
  have "loads codec v1 dir ((r # map core_registry (cs @ [c])) ! ?n) ((q # map reloaded (cs @ [c])) ! j)"
    using assms(2) [OF ij(3)] by (simp only: nth_snoc le_trans [OF ij(1,2)])
  moreover have "j \<le> ?n" "?n \<le> length (cs @ [c])" using ij by simp_all
  ultimately show "kept codec dir r q (cs @ [c]) v1" unfolding kept_def by blast
  have "loads codec v2 dir ((r # map core_registry (cs @ [c])) ! ?n) ((q # map reloaded (cs @ [c])) ! ?n)"
    using assms(3) by (simp only: nth_snoc)
  then show "kept codec dir r q (cs @ [c]) v2" using \<open>?n \<le> length (cs @ [c])\<close> unfolding kept_def by blast
qed

lemma disk_life_kept:
  assumes "disk_life codec dir d0 cs d"
    and "recoverable (state_paths dir) (state_temporaries dir) d0"
    and "\<forall>v \<in> views (state_paths dir) d0. loads codec v dir r q"
  shows "\<forall>c \<in> set cs. stores codec c \<Longrightarrow> recoverable (state_paths dir) (state_temporaries dir) d \<and>
    (\<forall>v \<in> views (state_paths dir) d. kept codec dir r q cs v)"
  using assms(1)
proof induction
  case begun
  then show ?case using assms(2,3) by (auto simp: kept_def)
next
  case (persisted cs d pid c ios stage d')
  then have old: "recoverable (state_paths dir) (state_temporaries dir) d"
      "\<forall>v \<in> views (state_paths dir) d. kept codec dir r q cs v" by simp_all
  have "stores codec c" using persisted.prems by simp
  then obtain rb qb where b: "enc_registry codec (core_registry c) = Inr rb" "enc_queue codec (to_file (core_queue c)) = Inr qb"
      "\<And>v r q. loads codec v dir r q \<Longrightarrow> loads codec (view1 dir rb v) dir (core_registry c) q"
      "\<And>v. loads codec (view2 dir rb qb v) dir (core_registry c) (reloaded c)"
    by (rule storesE [where dir = dir]) blast
  note run = persist_run_ok [OF b(1,2) old(1) persisted.hyps(2)]
  let ?v = "view (state_paths dir) d"
  have v: "kept codec dir r q cs ?v" using old(2) by (simp add: view_def views_def history_def)
  have "views (state_paths dir) d' \<subseteq> insert (view2 dir rb qb ?v) (insert (view1 dir rb ?v) (views (state_paths dir) d))"
    using persist_ok_views [OF run(2)] by (auto simp: shows_view_def)
  moreover have "kept codec dir r q (cs @ [c]) (view1 dir rb ?v)" "kept codec dir r q (cs @ [c]) (view2 dir rb qb ?v)"
    by (rule kept_views [OF v b(3) b(4)], assumption)+
  ultimately show ?case using run(1) old(2) kept_snoc by blast
next
  case (crashed cs d d')
  then show ?case using crash_view by blast
qed

text \<open>
  C18. A state directory loads at every moment of its life, whatever \<open>persist\<close>s and crashes, of the
  process or of the machine, came before: each of its files reads as one of the \<open>persist\<close>s wrote it, or
  as it was at first, never in between, and the registry is never older than the events. The crash of
  a process takes nothing back: during the next \<open>persist\<close> each file reads as it did before or as it was
  to be, and when that has returned without an error both are new. The failure of the machine can
  take back whole \<open>persist\<close>s, because the directory is never synced.
\<close>

theorem crash_mid_persist:
  assumes start: "recoverable (state_paths dir) (state_temporaries dir) d0"
      "\<forall>v \<in> views (state_paths dir) d0. loads codec v dir r q"
    and life: "disk_life codec dir d0 cs d" "\<forall>c \<in> set (cs @ [c]). stores codec c"
    and run: "persist_run codec pid dir c ios d = (stage, d')"
  shows "\<exists>i j. j \<le> i \<and> i \<le> length cs \<and>
    (let before_r = (r # map core_registry cs) ! i; before_q = (q # map reloaded cs) ! j
     in loads codec (files_of d) dir before_r before_q \<and>
        (loads codec (files_of d') dir before_r before_q \<or>
         loads codec (files_of d') dir (core_registry c) before_q \<or>
         loads codec (files_of d') dir (core_registry c) (reloaded c)) \<and>
        (stage = Ps_Done (Inr ()) \<longrightarrow> loads codec (files_of d') dir (core_registry c) (reloaded c)))"
proof -
  let ?v = "view (state_paths dir) d"
  have old: "recoverable (state_paths dir) (state_temporaries dir) d" "kept codec dir r q cs ?v"
    using disk_life_kept [OF life(1) start] life(2) by (simp_all add: view_def views_def history_def)
  then obtain i j where ij: "j \<le> i" "i \<le> length cs"
      "loads codec ?v dir ((r # map core_registry cs) ! i) ((q # map reloaded cs) ! j)"
    by (auto simp: kept_def)
  have "stores codec c" using life(2) by simp
  then obtain rb qb where b: "enc_registry codec (core_registry c) = Inr rb" "enc_queue codec (to_file (core_queue c)) = Inr qb"
      "\<And>v r q. loads codec v dir r q \<Longrightarrow> loads codec (view1 dir rb v) dir (core_registry c) q"
      "\<And>v. loads codec (view2 dir rb qb v) dir (core_registry c) (reloaded c)"
    by (rule storesE [where dir = dir]) blast
  obtain v' where v': "v' \<in> {?v, view1 dir rb ?v, view2 dir rb qb ?v}" "view (state_paths dir) d' = v'"
      "stage = Ps_Done (Inr ()) \<Longrightarrow> v' = view2 dir rb qb ?v"
    using persist_ok_views [OF persist_run_ok(2) [OF b(1,2) old(1) run]] by (auto simp: shows_view_def)
  then show ?thesis
    using ij b(3) [OF ij(3)] b(4) unfolding Let_def loads_view [symmetric]
    by - (rule exI [of _ i], rule exI [of _ j], auto)
qed

section \<open>Persisting as one step\<close>

text \<open>No inode has two names: a write reaches one file only.\<close>

definition one_name :: "disk \<Rightarrow> bool" where
  "one_name d \<longleftrightarrow> disk_ok {} {} d"

lemma one_name_iff: "disk_ok {} T d \<longleftrightarrow> one_name d"
  by (simp add: one_name_def disk_ok_def)

lemma files_put_text:
  "one_name d \<Longrightarrow> dk_dir d t = Some i \<Longrightarrow> files_of (put_text i txt d) = (files_of d)(t := Contents txt)"
  by (auto simp: one_name_def disk_ok_def files_of_def read_entry_def put_text_def fun_eq_iff split: option.splits)

lemma files_sync [simp]: "files_of (sync_file i d) = files_of d"
  by (simp add: files_of_def sync_file_def fun_eq_iff read_entry_def)

lemma files_open:
  "one_name d \<Longrightarrow> files_of (open_truncated t d) = (files_of d)(t := Contents [])"
  by (cases "dk_dir d t")
    (auto simp: open_truncated_def files_put_text one_name_def disk_ok_def files_of_def read_entry_def
      put_text_def change_dir_def fun_eq_iff split: option.splits)

lemma files_rename:
  "p \<noteq> t \<Longrightarrow> dk_dir d t = Some i \<Longrightarrow>
     files_of (rename_file t p d) = (files_of d)(t := Missing, p := Contents (dk_text d i))"
  by (auto simp: rename_file_def files_of_def read_entry_def change_dir_def fun_eq_iff)

lemma one_name_keeps:
  assumes "one_name d"
  shows "one_name (open_truncated t d)" "\<exists>i. dk_dir (open_truncated t d) t = Some i"
    "dk_dir d t = Some i \<Longrightarrow> one_name (put_text i txt d)"
    "one_name (sync_file i d)" "p \<noteq> t \<Longrightarrow> one_name (rename_file t p d)"
  using assms open_truncated_unnoticed [of "{}" "{t}" d t] put_text_unnoticed [of "{}" "{t}" d t i "txt"]
    sync_file_unnoticed [of "{}" "{t}" d i]
  by (auto simp: one_name_iff) (auto simp: one_name_def disk_ok_def rename_file_def change_dir_def)

text \<open>What the files are while a save is at work, and what the save still has to do.\<close>

definition save_files :: "string \<Rightarrow> string \<Rightarrow> string \<Rightarrow> files \<Rightarrow> save_stage \<Rightarrow> files \<Rightarrow> bool" where
  "save_files t p bytes F st F' \<longleftrightarrow>
     (if st = Sv_Done (Inr ()) then F' = F(t := Missing, p := Contents bytes)
      else (\<exists>X. F' = F(t := X)) \<and> (\<forall>e. st = Sv_Done (Inl e) \<longrightarrow> (\<exists>e'. e = ''write '' @ p @ '': '' @ e')))"

fun save_rank :: "nat \<Rightarrow> save_stage \<Rightarrow> nat" where
  "save_rank n Sv_Open = n + 4"
| "save_rank n (Sv_Write i k) = n - k + 3"
| "save_rank n (Sv_Sync i) = 2"
| "save_rank n Sv_Rename = 1"
| "save_rank n (Sv_Done r) = 0"

lemma save_poll_files:
  assumes "one_name d" "stage_ok t bytes st d" "save_files t p bytes F st (files_of d)" "p \<noteq> t"
    and "save_poll t p bytes io (st, d) = (st', d')"
  shows "one_name d' \<and> stage_ok t bytes st' d' \<and> save_files t p bytes F st' (files_of d')"
proof (cases st)
  case Sv_Open
  then show ?thesis
    using assms one_name_keeps(1,2) [OF assms(1), of t] files_open [OF assms(1), of t]
    by (auto simp: save_poll_def save_files_def Let_def split: sys_io.splits)
next
  case (Sv_Write i k)
  then have i: "dk_dir d t = Some i" using assms(2) by simp
  show ?thesis
    using assms Sv_Write i one_name_keeps(3) [OF assms(1) i] files_put_text [OF assms(1) i]
    by (auto simp: save_poll_def save_files_def Let_def split: sys_io.splits if_splits) (auto simp: put_text_def)
next
  case (Sv_Sync i)
  then show ?thesis
    using assms one_name_keeps(4) [OF assms(1)]
    by (auto simp: save_poll_def save_files_def split: sys_io.splits) (auto simp: sync_file_def)
next
  case Sv_Rename
  then obtain i where "dk_dir d t = Some i" "dk_text d i = bytes" using assms(2) by auto
  then show ?thesis
    using assms Sv_Rename one_name_keeps(5) [OF assms(1,4)] files_rename [OF assms(4)]
    by (auto simp: save_poll_def save_files_def split: sys_io.splits)
next
  case (Sv_Done r)
  then show ?thesis using assms by (auto simp: save_poll_def)
qed

lemma save_poll_rank:
  "save_poll t p bytes io (st, d) = (st', d') \<Longrightarrow> \<forall>r. st \<noteq> Sv_Done r \<Longrightarrow>
     save_rank (length bytes) st' < save_rank (length bytes) st"
  by (cases st) (auto simp: save_poll_def Let_def min_def split: sys_io.splits if_splits)

text \<open>
  The same for \<open>persist\<close>: in each stage the files are those of the big step so far, with anything in
  the temporary file of the save that is at work.
\<close>

definition first_saved :: "string \<Rightarrow> nat \<Rightarrow> string \<Rightarrow> files \<Rightarrow> files" where
  "first_saved dir pid rb F =
     F(temporary_path dir REGISTRY_FILE pid := Missing, path_join dir REGISTRY_FILE := Contents (rb @ [newline]))"

fun persist_files :: "codecs \<Rightarrow> string \<Rightarrow> nat \<Rightarrow> core \<Rightarrow> files \<Rightarrow> persist_stage \<Rightarrow> disk \<Rightarrow> bool" where
  "persist_files codec dir pid c F Ps_Start d \<longleftrightarrow> files_of d = F"
| "persist_files codec dir pid c F (Ps_Registry bytes st) d \<longleftrightarrow>
     (\<exists>rb. enc_registry codec (core_registry c) = Inr rb \<and> bytes = rb @ [newline]) \<and>
     stage_ok (temporary_path dir REGISTRY_FILE pid) bytes st d \<and>
     save_files (temporary_path dir REGISTRY_FILE pid) (path_join dir REGISTRY_FILE) bytes F st (files_of d)"
| "persist_files codec dir pid c F (Ps_Events bytes st) d \<longleftrightarrow>
     (\<exists>rb qb. enc_registry codec (core_registry c) = Inr rb \<and>
        enc_queue codec (to_file (core_queue c)) = Inr qb \<and> bytes = qb @ [newline] \<and>
        stage_ok (temporary_path dir EVENTS_FILE pid) bytes st d \<and>
        save_files (temporary_path dir EVENTS_FILE pid) (path_join dir EVENTS_FILE) bytes
          (first_saved dir pid rb F) st (files_of d))"
| "persist_files codec dir pid c F (Ps_Done r) d \<longleftrightarrow>
     (\<exists>io. \<forall>st. st_files st = F \<longrightarrow> st_dir st = dir \<longrightarrow>
        st_files (persist codec pid io c st) = files_of d \<and>
        st_log (persist codec pid io c st) =
          st_log st @ (case r of Inl e \<Rightarrow> [''persist state: '' @ e] | Inr _ \<Rightarrow> []))"

fun persist_rank :: "codecs \<Rightarrow> core \<Rightarrow> persist_stage \<Rightarrow> nat" where
  "persist_rank codec c Ps_Start =
     (case enc_registry codec (core_registry c) of Inl _ \<Rightarrow> 0 | Inr b \<Rightarrow> length b) +
     (case enc_queue codec (to_file (core_queue c)) of Inl _ \<Rightarrow> 0 | Inr b \<Rightarrow> length b) + 13"
| "persist_rank codec c (Ps_Registry bytes st) =
     save_rank (length bytes) st +
     (case enc_queue codec (to_file (core_queue c)) of Inl _ \<Rightarrow> 0 | Inr b \<Rightarrow> length b) + 7"
| "persist_rank codec c (Ps_Events bytes st) = save_rank (length bytes) st + 1"
| "persist_rank codec c (Ps_Done r) = 0"

lemma untouched: "\<exists>X. F = F(t := X)"
  by (metis fun_upd_triv)

lemma persist_registry_files:
  assumes "one_name d" "persist_files codec dir pid c F stage d"
    and poll: "persist_poll codec pid dir c io (stage, d) = (stage', d')"
    and stage: "stage = Ps_Registry bytes st"
  shows "one_name d' \<and> persist_files codec dir pid c F stage' d'"
proof -
  let ?t = "temporary_path dir REGISTRY_FILE pid" and ?p = "path_join dir REGISTRY_FILE"
  obtain rb where rb: "enc_registry codec (core_registry c) = Inr rb" "bytes = rb @ [newline]"
    and st: "stage_ok ?t bytes st d" "save_files ?t ?p bytes F st (files_of d)"
    using assms(2) stage by auto
  consider e where "st = Sv_Done (Inl e)" | "st = Sv_Done (Inr ())" | "\<forall>r. st \<noteq> Sv_Done r"
    by (metis old.unit.exhaust sum.exhaust)
  then show ?thesis
  proof cases
    case (1 e)
    then obtain X e' where "files_of d = F(?t := X)" "e = ''write '' @ ?p @ '': '' @ e'"
      using st by (auto simp: save_files_def)
    then show ?thesis
      using 1 poll assms(1) stage rb
      by (auto simp: persist_poll_def persist_def store_save_def Let_def intro!: exI [of _ "Write_Failed e' X"])
  next
    case 2
    then have "files_of d = first_saved dir pid rb F"
      using st rb(2) by (simp add: save_files_def first_saved_def)
    then show ?thesis
      using 2 poll assms(1) stage rb untouched [of "files_of d"]
      by (cases "enc_queue codec (to_file (core_queue c))")
        (auto simp: persist_poll_def save_files_def,
          auto simp: persist_def store_save_def first_saved_def Let_def intro!: exI [of _ Saved])
  next
    case 3
    obtain st' where save: "save_poll ?t ?p bytes io (st, d) = (st', d')" and stage': "stage' = Ps_Registry bytes st'"
      using persist_poll_saving(1) [OF poll 3 stage] by blast
    show ?thesis
      using save_poll_files [OF assms(1) st _ save] rb stage' by simp
  qed
qed

lemma persist_events_files:
  assumes "one_name d" "persist_files codec dir pid c F stage d"
    and poll: "persist_poll codec pid dir c io (stage, d) = (stage', d')"
    and stage: "stage = Ps_Events bytes st"
  shows "one_name d' \<and> persist_files codec dir pid c F stage' d'"
proof -
  let ?t = "temporary_path dir EVENTS_FILE pid" and ?p = "path_join dir EVENTS_FILE"
  obtain rb qb where rb: "enc_registry codec (core_registry c) = Inr rb"
      "enc_queue codec (to_file (core_queue c)) = Inr qb" "bytes = qb @ [newline]"
    and st: "stage_ok ?t bytes st d" "save_files ?t ?p bytes (first_saved dir pid rb F) st (files_of d)"
    using assms(2) stage by auto
  consider e where "st = Sv_Done (Inl e)" | "st = Sv_Done (Inr ())" | "\<forall>r. st \<noteq> Sv_Done r"
    by (metis old.unit.exhaust sum.exhaust)
  then show ?thesis
  proof cases
    case (1 e)
    then obtain X e' where "files_of d = (first_saved dir pid rb F)(?t := X)" "e = ''write '' @ ?p @ '': '' @ e'"
      using st by (auto simp: save_files_def)
    then have "persist_files codec dir pid c F (Ps_Done (Inl e)) d"
      using rb unfolding persist_files.simps
      by (intro exI [of _ "(Saved, Write_Failed e' X)"])
        (auto simp: persist_def store_save_def first_saved_def Let_def)
    moreover have "stage' = Ps_Done (Inl e)" "d' = d"
      using 1 poll stage by (auto simp: persist_poll_def)
    ultimately show ?thesis using assms(1) by blast
  next
    case 2
    then have "files_of d = (first_saved dir pid rb F)(?t := Missing, ?p := Contents bytes)"
      using st by (simp add: save_files_def)
    then have "persist_files codec dir pid c F (Ps_Done (Inr ())) d"
      using rb unfolding persist_files.simps
      by (intro exI [of _ "(Saved, Saved)"]) (auto simp: persist_def store_save_def first_saved_def Let_def)
    moreover have "stage' = Ps_Done (Inr ())" "d' = d"
      using 2 poll stage by (auto simp: persist_poll_def)
    ultimately show ?thesis using assms(1) by blast
  next
    case 3
    obtain st' where save: "save_poll ?t ?p bytes io (st, d) = (st', d')" and stage': "stage' = Ps_Events bytes st'"
      using persist_poll_saving(2) [OF poll 3 stage] by blast
    show ?thesis
      using save_poll_files [OF assms(1) st _ save] rb stage' by auto
  qed
qed

lemma persist_poll_files:
  assumes "one_name d" "persist_files codec dir pid c F stage d"
    and poll: "persist_poll codec pid dir c io (stage, d) = (stage', d')"
  shows "one_name d' \<and> persist_files codec dir pid c F stage' d'"
proof (cases stage)
  case Ps_Start
  show ?thesis
  proof (cases "enc_registry codec (core_registry c)")
    case (Inl e)
    then show ?thesis
      using assms Ps_Start by (auto simp: persist_poll_def persist_def store_save_def Let_def)
  next
    case (Inr b)
    then show ?thesis
      using assms Ps_Start untouched by (auto simp: persist_poll_def save_files_def)
  qed
next
  case (Ps_Done r)
  then have "stage' = stage" "d' = d" using poll by (simp_all add: persist_poll_def)
  then show ?thesis using assms by blast
next
  case (Ps_Registry bytes st)
  then show ?thesis by (rule persist_registry_files [OF assms])
next
  case (Ps_Events bytes st)
  then show ?thesis by (rule persist_events_files [OF assms])
qed

lemma persist_poll_rank:
  assumes "persist_files codec dir pid c F stage d" "\<forall>r. stage \<noteq> Ps_Done r"
    and "persist_poll codec pid dir c io (stage, d) = (stage', d')"
  shows "persist_rank codec c stage' < persist_rank codec c stage"
proof (cases stage)
  case Ps_Start
  then show ?thesis using assms by (auto simp: persist_poll_def split: sum.splits)
next
  case (Ps_Registry bytes st)
  show ?thesis
  proof (cases "\<exists>r. st = Sv_Done r")
    case True
    then show ?thesis
      using assms Ps_Registry by (auto simp: persist_poll_def split: sum.splits)
  next
    case False
    then show ?thesis
      using persist_poll_saving(1) [OF assms(3) _ Ps_Registry] save_poll_rank Ps_Registry by fastforce
  qed
next
  case (Ps_Events bytes st)
  show ?thesis
  proof (cases "\<exists>r. st = Sv_Done r")
    case True
    then show ?thesis using assms Ps_Events by (auto simp: persist_poll_def)
  next
    case False
    then show ?thesis
      using persist_poll_saving(2) [OF assms(3) _ Ps_Events] save_poll_rank Ps_Events by fastforce
  qed
qed (use assms in simp)

text \<open>
  C19. \<open>persist\<close> call by call is the \<open>persist\<close> of the state in one step: after at most as many calls as
  the two texts are long, and 13 more, whatever each of them does, it has returned, with the files and
  the log that the one step has for some outcome of the two saves.
\<close>

theorem persist_refines:
  assumes "one_name d"
    and "length ios \<ge> (case enc_registry codec (core_registry c) of Inl _ \<Rightarrow> 0 | Inr b \<Rightarrow> length b) +
      (case enc_queue codec (to_file (core_queue c)) of Inl _ \<Rightarrow> 0 | Inr b \<Rightarrow> length b) + 13"
  shows "\<exists>r d' io. persist_run codec pid dir c ios d = (Ps_Done r, d') \<and>
    (\<forall>st. st_files st = files_of d \<longrightarrow> st_dir st = dir \<longrightarrow>
      st_files (persist codec pid io c st) = files_of d' \<and>
      st_log (persist codec pid io c st) =
        st_log st @ (case r of Inl e \<Rightarrow> [''persist state: '' @ e] | Inr _ \<Rightarrow> []))"
proof -
  let ?poll = "persist_poll codec pid dir c"
  have run: "\<exists>r d2. fold ?poll ios (stage, d1) = (Ps_Done r, d2) \<and>
      persist_files codec dir pid c (files_of d) (Ps_Done r) d2"
    if "one_name d1" "persist_files codec dir pid c (files_of d) stage d1" "persist_rank codec c stage \<le> length ios"
    for ios stage d1
    using that
  proof (induction ios arbitrary: stage d1)
    case Nil
    then show ?case by (cases stage) auto
  next
    case (Cons io ios)
    obtain stage' d' where poll: "?poll io (stage, d1) = (stage', d')" by (metis surj_pair)
    have "persist_rank codec c stage' \<le> length ios"
    proof (cases "\<exists>r. stage = Ps_Done r")
      case True
      then have "stage' = stage" using poll by (auto simp: persist_poll_def)
      then show ?thesis using True by auto
    next
      case False
      then show ?thesis using persist_poll_rank [OF Cons.prems(2) _ poll] Cons.prems(3) by auto
    qed
    then show ?case
      using Cons.IH persist_poll_files [OF Cons.prems(1,2) poll] poll by simp
  qed
  show ?thesis
    using run [of d Ps_Start ios] assms unfolding persist_run_def by fastforce
qed

section \<open>Witnesses\<close>

text \<open>
  A registry with one sequence is persisted into an empty directory; the power fails, the directory
  comes back empty, and the next daemon is in the middle of the same.
\<close>

definition blank_disk :: disk where
  "blank_disk = \<lparr>dk_dir = (\<lambda>_. None), dk_text = (\<lambda>_. []), dk_synced = (\<lambda>_. False), dk_next = 0, dk_past = []\<rparr>"

definition small_registry :: registry where
  "small_registry = registry_default\<lparr>sequences := [(''session:a'', 1)]\<rparr>"

definition small_codec :: codecs where
  "small_codec = \<lparr>enc_registry = (\<lambda>_. Inr ''{1}''), dec_registry = (\<lambda>_. Inr small_registry),
     enc_queue = (\<lambda>_. Inr ''[]''), dec_queue = (\<lambda>_. Inr [])\<rparr>"

definition small_core :: core where
  "small_core = core_default\<lparr>core_registry := small_registry\<rparr>"

definition small_run :: "nat \<Rightarrow> persist_stage \<times> disk" where
  "small_run n = persist_run small_codec 7 ''/s'' small_core (replicate n (Sys_Ok 100)) blank_disk"

lemma blank_ok: "recoverable W T blank_disk" "dk_past blank_disk = []" "one_name blank_disk"
  by (simp_all add: blank_disk_def recoverable_def disk_ok_def history_def one_name_def)

lemma blank_loads: "loads small_codec (files_of blank_disk) ''/s'' registry_default queue_default"
  by (simp add: loads_iff store_load_def files_of_def blank_disk_def read_entry_def unwrap_or_def from_file_def)

lemma small_codec_facts:
  "enc_registry small_codec (core_registry small_core) = Inr ''{1}''"
  "dec_registry small_codec (''{1}'' @ [newline]) = Inr (core_registry small_core)"
  "enc_queue small_codec (to_file (core_queue small_core)) = Inr ''[]''"
  "dec_queue small_codec (''[]'' @ [newline]) = Inr (to_file (core_queue small_core))"
  by (simp_all add: small_codec_def small_core_def core_default_def queue_default_def to_file_def)

lemma persist_run_history: "persist_run codec pid dir c ios d = (stage, d') \<Longrightarrow> history d \<subseteq> history d'"
proof -
  have "history (snd x) \<subseteq> history (snd (fold (persist_poll codec pid dir c) ios x))" for x
  proof (induction ios arbitrary: x)
    case (Cons io ios)
    have "history (snd x) \<subseteq> history (snd (persist_poll codec pid dir c io x))"
      using persist_poll_history [of codec pid dir c io "fst x" "snd x"] by (metis prod.collapse)
    then show ?case using Cons.IH [of "persist_poll codec pid dir c io x"] by simp
  qed simp
  from this [of "(Ps_Start, d)"] show "persist_run codec pid dir c ios d = (stage, d') \<Longrightarrow> ?thesis"
    by (simp add: persist_run_def)
qed

text \<open>The machine fails after a \<open>persist\<close> that has returned, and the directory comes back as it was at first.\<close>

definition reset_disk :: disk where
  "reset_disk = (snd (small_run 18))\<lparr>dk_dir := dk_dir blank_disk, dk_past := []\<rparr>"

lemma reset_crash: "crash (snd (small_run 18)) reset_disk"
proof -
  have "dk_dir blank_disk \<in> history (snd (small_run 18))"
    using persist_run_history [of small_codec 7 "''/s''" small_core "replicate 18 (Sys_Ok 100)" blank_disk
        "fst (small_run 18)" "snd (small_run 18)"]
    by (auto simp: small_run_def history_def)
  then have "crash (snd (small_run 18)) ((snd (small_run 18))\<lparr>dk_dir := dk_dir blank_disk,
      dk_text := dk_text (snd (small_run 18)), dk_past := []\<rparr>)"
    by (intro power_lost) (simp_all add: history_def)
  then show ?thesis by (simp add: reset_disk_def)
qed

theorem crash_mid_persist_witness:
  "fst (small_run 18) = Ps_Done (Inr ()) \<and>
   files_of reset_disk ''/s/registry.json'' = Missing \<and>
   (\<exists>r q. loads small_codec
      (files_of (snd (persist_run small_codec 9 ''/s'' small_core (replicate 8 (Sys_Ok 100)) reset_disk))) ''/s'' r q)"
proof (intro conjI)
  show "fst (small_run 18) = Ps_Done (Inr ())" by code_simp
  show "files_of reset_disk ''/s/registry.json'' = Missing"
    by (simp add: files_of_def read_entry_def reset_disk_def blank_disk_def)
  have "disk_life small_codec ''/s'' blank_disk ([] @ [small_core]) (snd (small_run 18))"
    by (rule persisted [OF begun, where stage = "fst (small_run 18)"]) (simp add: small_run_def)
  then have life: "disk_life small_codec ''/s'' blank_disk [small_core] reset_disk"
    using crashed reset_crash by simp
  have start: "\<forall>v \<in> views (state_paths ''/s'') blank_disk. loads small_codec v ''/s'' registry_default queue_default"
    using blank_loads loads_view by (simp add: views_def view_def [symmetric] history_def blank_ok)
  have "\<forall>c \<in> set ([small_core] @ [small_core]). stores small_codec c"
    using small_codec_facts by (simp add: stores_def)
  from crash_mid_persist [OF blank_ok(1) start life this surjective_pairing]
  show "\<exists>r q. loads small_codec
      (files_of (snd (persist_run small_codec 9 ''/s'' small_core (replicate 8 (Sys_Ok 100)) reset_disk))) ''/s'' r q"
    unfolding Let_def by blast
qed

theorem persist_refines_witness:
  "\<exists>r d' io. small_run 18 = (Ps_Done r, d') \<and>
     st_files (persist small_codec 7 io small_core
       \<lparr>st_core = small_core, st_dir = ''/s'', st_files = files_of blank_disk, st_changes = [], st_log = []\<rparr>) =
     files_of d'"
proof -
  let ?st = "\<lparr>st_core = small_core, st_dir = ''/s'', st_files = files_of blank_disk, st_changes = [], st_log = []\<rparr>"
  have "(case enc_registry small_codec (core_registry small_core) of Inl _ \<Rightarrow> 0 | Inr b \<Rightarrow> length b) +
      (case enc_queue small_codec (to_file (core_queue small_core)) of Inl _ \<Rightarrow> 0 | Inr b \<Rightarrow> length b) + 13 \<le>
      length (replicate 18 (Sys_Ok 100))"
    by (simp add: small_codec_facts)
  from persist_refines [OF blank_ok(3) this, of 7 "''/s''"]
  obtain r d' io where run: "small_run 18 = (Ps_Done r, d')" and files: "\<forall>st. st_files st = files_of blank_disk \<longrightarrow>
      st_dir st = ''/s'' \<longrightarrow> st_files (persist small_codec 7 io small_core st) = files_of d'"
    unfolding small_run_def by meson
  have "st_files (persist small_codec 7 io small_core ?st) = files_of d'" by (rule files [rule_format]) simp_all
  with run show ?thesis by blast
qed

end
