(* ===== verification/Stream_Props.thy ===== *)
theory Stream_Props
  imports Client_Stream
begin

text \<open>
  The client reads back what the daemon streams: text survives the lossy decoding, and frames are
  found again however the connection cuts the bytes.
\<close>

section \<open>Valid text is read as it is\<close>

lemma utf8_step_wf:
  assumes "wf_char (c # bs)" "list_all is_cont bs" "s = [] \<or> \<not> is_cont (hd s)"
  shows "utf8_step c (bs @ s) = (True, length bs)"
  using assms
  by (cases "c # bs" rule: wf_char.cases)
    (auto simp: utf8_step_def Let_def cont_next_def second_ok_def in_range_def dest: is_cont_range)

lemma from_utf8_lossy_valid: "valid_utf8 s \<Longrightarrow> from_utf8_lossy s = s"
proof (induction s rule: chars.induct)
  case (2 c cs)
  let ?bs = "takeWhile is_cont cs" and ?rest = "dropWhile is_cont cs"
  have wf: "wf_char (c # ?bs)" and v: "valid_utf8 ?rest" using 2(2) by (simp_all add: valid_utf8_def)
  have "?rest = [] \<or> \<not> is_cont (hd ?rest)" by (metis hd_dropWhile)
  moreover have "list_all is_cont ?bs" by (auto simp: list_all_iff dest: set_takeWhileD)
  ultimately have "utf8_step c (?bs @ ?rest) = (True, length ?bs)" using utf8_step_wf [OF wf] by blast
  then have "utf8_step c cs = (True, length ?bs)" by simp
  moreover have "take (length ?bs) cs = ?bs" "drop (length ?bs) cs = ?rest"
    by (simp_all add: takeWhile_eq_take [symmetric] dropWhile_eq_drop [symmetric])
  ultimately show ?case using 2(1) [OF v] by simp
qed simp

section \<open>Blocks\<close>

text \<open>What the server writes for one frame: \<open>Event::data\<close> of a text without line breaks.\<close>

definition sse_block :: "string \<Rightarrow> string" where
  "sse_block data = ''data: '' @ data @ [newline, newline]"

definition one_line :: "string \<Rightarrow> bool" where
  "one_line data \<longleftrightarrow> newline \<notin> set data \<and> carriage_return \<notin> set data \<and> valid_utf8 data"

lemma blank_line_none: "newline \<notin> set s \<Longrightarrow> blank_line s = None \<and> blank_line (s @ [newline]) = None"
proof (induction s)
  case (Cons a s)
  then show ?case by (cases s) auto
qed simp

lemma blank_line_found:
  "newline \<notin> set s \<Longrightarrow> blank_line (s @ newline # newline # rest) = Some (length s)"
proof (induction s)
  case (Cons a s)
  then show ?case by (cases s) auto
qed simp

lemma take_block_found:
  assumes "one_line data"
  shows "take_block (sse_block data @ rest) = Some (sse_block data, rest)"
proof -
  let ?s = "''data: '' @ data"
  have b: "blank_line (sse_block data @ rest) = Some (length ?s)"
    using assms blank_line_found [of ?s rest] by (simp add: sse_block_def one_line_def)
  have "valid_utf8 ''data: ''" "valid_utf8 [newline, newline]" "\<not> is_cont newline"
    by (simp_all add: valid_utf8_def is_cont_def)
  then have "valid_utf8 (data @ [newline, newline])"
    using assms by (subst valid_utf8_append) (simp_all add: one_line_def)
  moreover have "\<not> is_cont (hd (data @ [newline, newline]))"
    using valid_utf8_hd [of data] assms \<open>\<not> is_cont newline\<close> by (cases data) (auto simp: one_line_def)
  ultimately have "valid_utf8 (sse_block data)"
    unfolding sse_block_def using \<open>valid_utf8 ''data: ''\<close> by (subst valid_utf8_append) blast+
  then have lossy: "from_utf8_lossy (sse_block data) = sse_block data" by (rule from_utf8_lossy_valid)
  have len: "length ?s + 2 = length (sse_block data)" by (simp add: sse_block_def)
  show ?thesis by (simp only: take_block_def b option.map len) (simp add: lossy)
qed

lemma take_front: "k \<le> length xs \<Longrightarrow> take k (xs @ ys) = take k xs"
  by simp

lemma take_block_partial:
  assumes "one_line data" "buffer @ more' = sse_block data" "more' \<noteq> []"
  shows "take_block buffer = None"
proof -
  let ?s = "''data: '' @ data"
  have nl: "newline \<notin> set ?s" using assms(1) by (simp add: one_line_def)
  have "length (buffer @ more') = length ?s + 2" using assms(2) by (simp add: sse_block_def)
  moreover have "0 < length more'" using assms(3) by simp
  ultimately have len: "length buffer \<le> length ?s + 1" unfolding length_append by linarith
  have "buffer = take (length buffer) ((?s @ [newline]) @ [newline])"
    using assms(2) unfolding sse_block_def by (metis append.assoc append_Cons append_Nil append_eq_conv_conj)
  then have b: "buffer = take (length buffer) (?s @ [newline])"
    using len by (metis append_Nil2 diff_is_0_eq length_append_singleton Suc_eq_plus1 take0 take_append)
  have "blank_line buffer = None"
  proof (cases "length buffer \<le> length ?s")
    case True
    then have "buffer = take (length buffer) ?s" using b take_front by metis
    then have "newline \<notin> set buffer" using nl by (metis in_set_takeD)
    then show ?thesis using blank_line_none by blast
  next
    case False
    then have "buffer = ?s @ [newline]" using b len by simp
    then show ?thesis using blank_line_none [OF nl] by simp
  qed
  then show ?thesis by (simp add: take_block_def)
qed

lemma parse_block_found:
  assumes "one_line data" "data \<noteq> []"
  shows "parse_block from_str (sse_block data) =
    (case from_str data of Inr frame \<Rightarrow> Inr (Some frame)
     | Inl error \<Rightarrow> Inl (Protocol (''decode SSE frame: '' @ error)))"
proof -
  let ?s = "''data: '' @ data"
  have "last data \<noteq> carriage_return" using assms last_in_set [of data] unfolding one_line_def by metis
  then have "lines (?s @ newline # [newline]) = ?s # lines [newline]"
    using assms by (intro lines_cons) (auto simp: one_line_def)
  moreover have "lines [newline] = [[]]"
    by (simp add: lines_def strip_eol_def strip_suffix_def)
  ultimately have "lines (sse_block data) = [?s, []]" by (simp add: sse_block_def)
  then show ?thesis by (simp add: parse_block_def data_line_def List.map_filter_def Let_def)
qed

section \<open>Reading a stream cut anywhere\<close>

lemma next_frame_found:
  assumes "one_line data" "data \<noteq> []" "from_str data = Inr frame"
  shows "next_frame from_str (sse_block data @ rest) chunks = (Inr (Some frame), rest, chunks)"
  using assms
  by (subst next_frame.simps) (simp add: take_block_found parse_block_found)

lemma next_frame_chunked:
  assumes data: "one_line data" "data \<noteq> []" "from_str data = Inr frame"
    and short: "length (sse_block data) \<le> 2 * SSE_FRAME"
  shows "buffer @ concat pieces = sse_block data @ tail \<Longrightarrow>
    \<exists>buffer' pieces'. next_frame from_str buffer (map Inr pieces) =
        (Inr (Some frame), buffer', map Inr pieces') \<and> buffer' @ concat pieces' = tail"
proof (induction pieces arbitrary: buffer)
  case Nil
  then show ?case using next_frame_found [where from_str = from_str, OF data, of tail "[]"] by force
next
  case (Cons piece pieces)
  show ?case
  proof (cases "length (sse_block data) \<le> length buffer")
    case True
    then obtain rest where r: "buffer = sse_block data @ rest" "rest @ concat (piece # pieces) = tail"
      using Cons.prems by (metis append_eq_append_conv_if append_take_drop_id)
    then show ?thesis
      using next_frame_found [where from_str = from_str, OF data, of rest "map Inr (piece # pieces)"]
      by blast
  next
    case False
    then obtain missing where m: "buffer @ missing = sse_block data" "missing \<noteq> []"
      using Cons.prems by (metis append_eq_append_conv_if append_take_drop_id append_Nil2 nle_le)
    then have "take_block buffer = None" by (rule take_block_partial [OF data(1)])
    moreover have "\<not> 2 * SSE_FRAME < length buffer" using False short by simp
    ultimately have "next_frame from_str buffer (map Inr (piece # pieces)) =
        next_frame from_str (buffer @ piece) (map Inr pieces)"
      by (subst next_frame.simps) simp
    then show ?thesis using Cons.IH [of "buffer @ piece"] Cons.prems by simp
  qed
qed

lemma next_frame_exhausted:
  "concat pieces = [] \<Longrightarrow> next_frame from_str [] (map Inr pieces) = (Inr None, [], [])"
proof (induction pieces)
  case Nil
  then show ?case by (subst next_frame.simps) (simp add: take_block_def)
next
  case (Cons p pieces)
  then show ?case by (subst next_frame.simps) (simp add: take_block_def)
qed

text \<open>The loop of a client that reads frames until the stream ends.\<close>

fun read_frames ::
  "(string \<Rightarrow> (string, sse_frame) result) \<Rightarrow> nat \<Rightarrow> string \<Rightarrow> chunks \<Rightarrow>
     (client_error, sse_frame option) result list" where
  "read_frames from_str 0 buffer chunks = []"
| "read_frames from_str (Suc n) buffer chunks =
     (let (r, buffer', chunks') = next_frame from_str buffer chunks
      in r # read_frames from_str n buffer' chunks')"

definition framed :: "frame_json \<Rightarrow> (string \<Rightarrow> (string, sse_frame) result) \<Rightarrow> sse_frame \<Rightarrow> string \<Rightarrow> bool" where
  "framed fj from_str frame data \<longleftrightarrow>
     fj_frame fj frame = Inr data \<and> from_str data = Inr frame \<and> one_line data \<and> data \<noteq> [] \<and>
     length (sse_block data) \<le> 2 * SSE_FRAME"

text \<open>
  C25. A client reads exactly the frames that were sent, in order, and then the end of the stream,
  however the connection cuts the bytes into chunks, for every frame whose text is one line and at
  most twice the frame bound long.
\<close>

theorem stream_read_back:
  assumes "list_all2 (framed fj from_str) frames texts"
    and "concat pieces = concat (map sse_block texts)"
  shows "read_frames from_str (Suc (length frames)) [] (map Inr pieces) =
    map (\<lambda>frame. Inr (Some frame)) frames @ [Inr None]"
proof -
  have "read_frames from_str (Suc (length frames)) buffer (map Inr pieces) =
      map (\<lambda>frame. Inr (Some frame)) frames @ [Inr None]"
    if "buffer @ concat pieces = concat (map sse_block texts)" for buffer pieces
    using assms(1) that
  proof (induction frames texts arbitrary: buffer pieces rule: list_all2_induct)
    case Nil
    then have "buffer = []" "concat pieces = []" by simp_all
    then have "next_frame from_str [] (map Inr pieces) = (Inr None, [], [])" by (simp add: next_frame_exhausted)
    with \<open>buffer = []\<close> show ?case by simp
  next
    case (Cons frame frames data texts)
    then obtain buffer' pieces' where
      "next_frame from_str buffer (map Inr pieces) = (Inr (Some frame), buffer', map Inr pieces')"
      "buffer' @ concat pieces' = concat (map sse_block texts)"
      using next_frame_chunked [of data from_str frame buffer pieces "concat (map sse_block texts)"]
      by (auto simp: framed_def)
    then show ?case using Cons.IH by simp
  qed
  then show ?thesis using assms(2) by simp
qed

definition two_frames :: "sse_frame list" where
  "two_frames = [Heartbeat 1, Heartbeat 2]"

theorem stream_read_back_witness:
  "\<exists>fj from_str. read_frames from_str 3 [] (map Inr [''data: a'', [newline], newline # ''data: b'', [newline, newline]]) =
     [Inr (Some (Heartbeat 1)), Inr (Some (Heartbeat 2)), Inr None] \<and>
     list_all2 (framed fj from_str) two_frames [''a'', ''b'']"
proof -
  let ?fj = "\<lparr>fj_event = (\<lambda>_. Inl ''no''),
    fj_frame = (\<lambda>f. if f = Heartbeat 1 then Inr ''a'' else Inr ''b'')\<rparr> :: frame_json"
  let ?from = "\<lambda>s. if s = ''a'' then Inr (Heartbeat 1) else (Inr (Heartbeat 2) :: (string, sse_frame) result)"
  have fr: "list_all2 (framed ?fj ?from) two_frames [''a'', ''b'']"
    by (simp add: framed_def one_line_def two_frames_def sse_block_def valid_utf8_def is_cont_def
        SSE_FRAME_def)
  have "read_frames ?from 3 [] (map Inr [''data: a'', [newline], newline # ''data: b'', [newline, newline]]) =
      [Inr (Some (Heartbeat 1)), Inr (Some (Heartbeat 2)), Inr None]"
    using stream_read_back [OF fr, of "[''data: a'', [newline], newline # ''data: b'', [newline, newline]]"]
    by (simp add: two_frames_def sse_block_def eval_nat_numeral del: read_frames.simps)
  with fr show ?thesis by blast
qed

end
