(* ===== verification/Server.thy ===== *)
theory Server
  imports Client_Props Stream_Props
begin

text \<open>
  \<open>router\<close> of \<open>crates/daemon/src/server.rs\<close>, and the daemon as a client sees it over HTTP: \<open>POST /rpc\<close>
  is the request handler, \<open>GET /events\<close> a listener that sends what is queued when it starts. How the
  connection cuts the bytes of a stream is a parameter.
\<close>

section \<open>Routes\<close>

text \<open>
  A path has its methods; axum refuses another method with 405 and another path with 404, and answers
  \<open>HEAD\<close> with the handler of \<open>GET\<close>.
\<close>

datatype http_method = M_Get | M_Head | M_Post | M_Other

datatype route = To_Rpc | To_Events | Refused nat

definition router :: "http_method \<Rightarrow> string \<Rightarrow> route" where
  "router meth path =
     (if path = ''/rpc'' then (if meth = M_Post then To_Rpc else Refused 405)
      else if path = ''/events'' then (if meth = M_Get \<or> meth = M_Head then To_Events else Refused 405)
      else Refused 404)"

text \<open>
  The wait for a signal ends once one of the two has arrived, and never when one of the handlers could
  not be installed.
\<close>

datatype unix_signal = Sig_Term | Sig_Int | Sig_Other

definition termination_signal :: "(string, unit) result \<Rightarrow> (string, unit) result \<Rightarrow> unix_signal list \<Rightarrow> bool" where
  "termination_signal on_term on_int arrived =
     (case (on_term, on_int) of
        (Inr _, Inr _) \<Rightarrow> list_ex (\<lambda>s. s = Sig_Term \<or> s = Sig_Int) arrived
      | _ \<Rightarrow> False)"

text \<open>The path of a URL below the address of the daemon, and the \<open>target\<close> of its query.\<close>

definition url_parts :: "string \<Rightarrow> string \<Rightarrow> string \<times> string option" where
  "url_parts base url =
     (case strip_prefix base url of
        None \<Rightarrow> ([], None)
      | Some rest \<Rightarrow>
          (case split_once CHR ''?'' rest of
             None \<Rightarrow> (rest, None)
           | Some (path, query) \<Rightarrow> (path, strip_prefix ''target='' query)))"

section \<open>The daemon over HTTP\<close>

definition bearer_header :: "http_request \<Rightarrow> string option" where
  "bearer_header rq = map_option (\<lambda>t. ''Bearer '' @ t) (hq_bearer rq)"

definition frame_text :: "frame_json \<Rightarrow> sse_frame \<Rightarrow> string" where
  "frame_text fj f = (case fj_frame fj f of Inl _ \<Rightarrow> [] | Inr d \<Rightarrow> d)"

definition stream_bytes :: "frame_json \<Rightarrow> sse_frame list \<Rightarrow> string" where
  "stream_bytes fj frames = concat (map (\<lambda>f. sse_block (frame_text fj f)) frames)"

text \<open>The polls of a listener until it waits, when nothing else happens.\<close>

definition listen_once :: "'v world \<Rightarrow> frame_json \<Rightarrow> listener \<Rightarrow> 'v app \<Rightarrow> listener \<times> 'v app" where
  "listen_once w fj l app =
     listener_run w fj (4 + length (chunk fj (list_events (core_queue (app_core app)) (l_target l)))) (l, app)"

definition plain_answer :: "nat \<Rightarrow> string \<Rightarrow> http_answer" where
  "plain_answer status body = \<lparr>ha_status = status, ha_text = Inr body, ha_chunks = []\<rparr>"

definition daemon_http ::
  "'v world \<Rightarrow> target_codec \<Rightarrow> frame_json \<Rightarrow> ('v response \<Rightarrow> string) \<Rightarrow> (string \<Rightarrow> string list) \<Rightarrow> string \<Rightarrow> 'v app net" where
  "daemon_http w tc fj render pieces_of base rq app =
     (let (path, query) = url_parts base (hq_url rq)
      in case router (if hq_post rq then M_Post else M_Get) path of
           To_Rpc \<Rightarrow> daemon_net w render rq app
         | To_Events \<Rightarrow>
             (case events_handle tc (bearer_header rq) query None app of
                Inl rs \<Rightarrow> (Inr (plain_answer (rs_status rs) (render rs)), app)
              | Inr l \<Rightarrow>
                  let (l', app') = listen_once w fj l app
                  in (Inr \<lparr>ha_status = 200, ha_text = Inr [],
                           ha_chunks = map Inr (pieces_of (stream_bytes fj (l_sent l')))\<rparr>, app'))
         | Refused status \<Rightarrow> (Inr (plain_answer status []), app))"

lemma url_rpc [simp]: "url_parts base (base @ ''/rpc'') = (''/rpc'', None)"
proof -
  have "strip_prefix base (base @ ''/rpc'') = Some ''/rpc''" by (simp only: strip_prefix_Some)
  then show ?thesis by (simp add: url_parts_def)
qed

lemma url_events: "url_parts base (base @ ''/events?target='' @ q) = (''/events'', Some q)"
proof -
  have "strip_prefix base (base @ ''/events?target='' @ q) = Some (''/events?target='' @ q)"
    by (simp only: strip_prefix_Some)
  then show ?thesis by (simp add: url_parts_def)
qed

lemmas url_events_simp [simp] = url_events [simplified]

text \<open>A call to the daemon is a call over the request handler alone.\<close>

lemma call_over_http:
  "call_with_timeout wi (daemon_http w tc fj render pieces_of (cl_base_url client)) client decode meth params timeout app =
     call_with_timeout wi (daemon_net w render) client decode meth params timeout app"
  by (simp add: call_with_timeout_def daemon_http_def router_def split: sum.splits)

text \<open>A subscription gets the listener's frames.\<close>

lemma subscribe_over_http:
  assumes "same_token client app" "decode_target tc (Some (encode_target tc t)) = Inr t"
    and "json_total fj" "\<not> a_shutdown app"
  shows "subscribe wi tc (daemon_http w tc fj render pieces_of (cl_base_url client)) client t app =
      (Inr (map Inr (pieces_of (stream_bytes fj
         (Subscribed t # map (Events t) (chunk fj (list_events (core_queue (app_core app)) t)))))),
       snd (app_update w (hand_change t {}) app))"
  using same_token_authorized [OF assms(1)] assms(2) replay_run [OF assms(3,4), of w t]
  by (simp add: subscribe_def daemon_http_def router_def bearer_header_def events_handle_def listen_once_def
      listener_new_def)

end
