(* ===== verification/Paths.thy ===== *)
theory Paths
  imports Options
begin

text \<open>
  The rest of \<open>crates/daemon/src/paths.rs\<close>: the search for the directories shipped beside the
  executable or, in a debug build, in the repository around it; and the path functions of the
  standard library it needs.
\<close>

section \<open>Parents and ancestors\<close>

text \<open>
  \<open>Path::parent\<close>: the last component goes with the separators and the dots around it, the root
  stays.
\<close>

fun drop_separators :: "string \<Rightarrow> string" where
  "drop_separators [] = []"
| "drop_separators (c # s) =
     (if s \<noteq> [] \<and> (c = CHR ''/'' \<or> c = CHR ''.'' \<and> hd s = CHR ''/'') then drop_separators s else c # s)"

definition trim_components :: "string \<Rightarrow> string" where
  "trim_components s = rev (drop_separators (rev s))"

definition path_parent :: "string \<Rightarrow> string option" where
  "path_parent path =
     (let p = trim_components path
      in if p = [] \<or> p = ''/'' then None
         else Some (trim_components (rev (dropWhile (\<lambda>c. c \<noteq> CHR ''/'') (rev p)))))"

lemma drop_separators_length: "length (drop_separators s) \<le> length s"
  by (induction s rule: drop_separators.induct) auto

lemma drop_separators_hd: "drop_separators s = c # s' \<Longrightarrow> s' = [] \<or> c \<noteq> CHR ''/''"
  by (induction s rule: drop_separators.induct) (auto split: if_splits)

lemma dropWhile_length: "length (dropWhile P xs) \<le> length xs"
  by (induction xs) auto

lemma path_parent_shorter: "path_parent path = Some d \<Longrightarrow> length d < length path"
proof -
  assume "path_parent path = Some d"
  then obtain c s where p: "drop_separators (rev path) = c # s" and d:
      "d = rev (drop_separators (dropWhile (\<lambda>c. c \<noteq> CHR ''/'') (c # s)))" and "\<not> (s = [] \<and> c = CHR ''/'')"
    by (cases "drop_separators (rev path)") (auto simp: path_parent_def trim_components_def Let_def split: if_splits)
  then have "c \<noteq> CHR ''/''" using drop_separators_hd by blast
  then have "length d \<le> length s"
    using d drop_separators_length [of "dropWhile (\<lambda>c. c \<noteq> CHR ''/'') s"]
      dropWhile_length [of "\<lambda>c. c \<noteq> CHR ''/''" s] by simp
  then show ?thesis using drop_separators_length [of "rev path"] p by simp
qed

text \<open>\<open>Path::ancestors\<close>: the path itself first.\<close>

function path_ancestors :: "string \<Rightarrow> string list" where
  "path_ancestors path =
     path # (case path_parent path of None \<Rightarrow> [] | Some d \<Rightarrow> path_ancestors d)"
  by pat_completeness auto
termination
  by (relation "measure length") (auto simp: path_parent_shorter)

declare path_ancestors.simps [simp del]

section \<open>Bundled directories\<close>

text \<open>
  What the search looks at: the path of the executable, the build, and which paths exist or are files.
\<close>

record site =
  si_exe :: "string option"
  si_debug :: bool
  si_manifest :: string
  si_exists :: "string \<Rightarrow> bool"
  si_is_file :: "string \<Rightarrow> bool"

definition repo_dir :: "site \<Rightarrow> string \<Rightarrow> string \<Rightarrow> string \<Rightarrow> string option" where
  "repo_dir si start name marker =
     List.find (\<lambda>dir. si_exists si (path_join dir marker))
       (map (\<lambda>dir. path_join dir name)
         (filter (\<lambda>dir. si_is_file si (path_join dir ''docs/protocol.md'')) (path_ancestors start)))"

definition bundled :: "site \<Rightarrow> string \<Rightarrow> string \<Rightarrow> string option" where
  "bundled si name marker =
     (let exe_dir = Option.bind (si_exe si) path_parent;
          share = Option.bind (Option.bind exe_dir path_parent) (\<lambda>prefix.
            let dir = path_join (path_join prefix ''share/recurse'') name
            in if si_exists si (path_join dir marker) then Some dir else None)
      in case share of
           Some dir \<Rightarrow> Some dir
         | None \<Rightarrow>
             if \<not> si_debug si then None
             else (case List.map_filter (\<lambda>start. repo_dir si start name marker)
                          ((case exe_dir of None \<Rightarrow> [] | Some d \<Rightarrow> [d]) @ [si_manifest si]) of
                     [] \<Rightarrow> None | found # _ \<Rightarrow> Some found))"

text \<open>What is found holds the marker.\<close>

lemma repo_dir_marked: "repo_dir si start name marker = Some dir \<Longrightarrow> si_exists si (path_join dir marker)"
  by (auto simp: repo_dir_def find_Some_iff)

lemma map_filter_head: "List.map_filter f xs = y # ys \<Longrightarrow> \<exists>x \<in> set xs. f x = Some y"
  by (induction xs) (auto simp: List.map_filter_def split: option.splits if_splits)

lemma bundled_marked: "bundled si name marker = Some dir \<Longrightarrow> si_exists si (path_join dir marker)"
  by (auto simp: bundled_def Let_def repo_dir_marked bind_eq_Some_conv dest!: map_filter_head
      split: option.splits if_splits list.splits)

end
