(* ===== verification/Cli_Main.thy ===== *)
theory Cli_Main
  imports Cli Paths
begin

text \<open>
  \<open>crates/cli/src/skills.rs\<close> and \<open>main.rs\<close>: the local skill commands, the dispatch on the first
  argument and the exit code of the process. The daemon and the MCP server that \<open>run\<close> starts are
  parameters of the shell here.
\<close>

section \<open>Skills\<close>

definition find_skill :: "skill_info list \<Rightarrow> string \<Rightarrow> (string, skill_info) result" where
  "find_skill skills name =
     ok_or (''no skill named '' @ name) (List.find (\<lambda>s. sk_name s = name) skills)"

definition skill_dir :: "skill_info \<Rightarrow> string" where
  "skill_dir skill =
     (case path_parent (sk_path skill) of None \<Rightarrow> sk_path skill | Some d \<Rightarrow> d)"

text \<open>The reference files of a skill, in the order of their paths, appended to the text.\<close>

fun append_references :: "'s cli \<Rightarrow> string \<Rightarrow> string list \<Rightarrow> (string, string) result" where
  "append_references ci txt [] = Inr txt"
| "append_references ci txt (path # paths) =
     (case ci_read ci path of
        Inl e \<Rightarrow> Inl (''read '' @ ci_lossy ci path @ '': '' @ e)
      | Inr content \<Rightarrow>
          let name = (case file_name path of None \<Rightarrow> [] | Some n \<Rightarrow> ci_lossy ci n)
          in append_references ci
               (txt @ [newline, newline] @ ''## references/'' @ name @ [newline, newline] @ trim_end content)
               paths)"

definition document :: "'s cli \<Rightarrow> skill_info \<Rightarrow> bool \<Rightarrow> (string, string) result" where
  "document ci skill full =
     rbind (map_sum (\<lambda>e. ''read '' @ sk_path skill @ '': '' @ e) (\<lambda>b. b) (ci_read ci (sk_path skill))) (\<lambda>body.
       let txt = ''# '' @ sk_name skill @ [newline, newline] @ trim_end body
       in if \<not> full then Inr txt
          else
            let references = path_join (skill_dir skill) ''references'';
                paths = (case fs_read_dir (ci_fs ci) references of
                           None \<Rightarrow> [] | Some entries \<Rightarrow> filter (ci_is_file ci) entries)
            in append_references ci txt (sort paths))"

text \<open>\<open>collect\<close> into a \<open>Result\<close>: the first error wins.\<close>

fun documents :: "'s cli \<Rightarrow> skill_info list \<Rightarrow> bool \<Rightarrow> string list \<Rightarrow> (string, string list) result" where
  "documents ci skills full [] = Inr []"
| "documents ci skills full (name # names) =
     rbind (find_skill skills name) (\<lambda>skill.
     rbind (document ci skill full) (\<lambda>d.
     rbind (documents ci skills full names) (\<lambda>ds. Inr (d # ds))))"

definition cli_skills :: "'s cli \<Rightarrow> args \<Rightarrow> (nat, 's) cmd" where
  "cli_skills ci args =
     cmd_then (cmd_of (from_env (ci_bundled ci) (ci_vars ci))) (\<lambda>opts.
       let cwd = (case ci_cwd ci of Inl _ \<Rightarrow> None | Inr d \<Rightarrow> Some d);
           dirs = skill_dirs (ci_fs ci) opts cwd;
           skills = discover (ci_fs ci) dirs;
           (command, names) = subcommand args;
           success = cmd_of (Inr SUCCESS)
       in if command = ''list'' \<and> names = [] then
            cmd_then (put_lines (map (\<lambda>s. sk_name s @ [CHR 0x09] @ sk_description s)
                        (filter (\<lambda>s. \<not> sk_hidden s) skills))) (\<lambda>_. success)
          else if command = ''get'' \<and> names \<noteq> [] then
            cmd_then (cmd_of (documents ci skills (args_has args ''--full'') names)) (\<lambda>ds.
            cmd_then (put_line (join [newline, newline] ds)) (\<lambda>_. success))
          else if command = ''path'' \<and> names = [] then
            cmd_then (put_lines (map (ci_lossy ci) dirs)) (\<lambda>_. success)
          else if command = ''path'' \<and> length names = 1 then
            cmd_then (cmd_of (find_skill skills (hd names))) (\<lambda>skill.
            cmd_then (put_line (ci_lossy ci (skill_dir skill))) (\<lambda>_. success))
          else
            cmd_of (Inl (''usage: recurse skills list | get <name>'' @ ellipsis @
              '' [--full] | path [name]'')))"

section \<open>The process\<close>

definition USAGE :: string where
  "USAGE = join [newline]
     [''usage: recurse <command> [options]'',
      '''',
      ''  daemon [--port N]                         run the daemon in the foreground'',
      ''  mcp                                       stdio MCP server (a daemon client)'',
      ''  health                                    check the daemon'',
      ''  exec [--target-id ID] [--timeout SEC] (-c CODE | FILE | -)'',
      ''                                            run one cell in the cli target'' @ [CHR 0x27] @ ''s kernel'',
      ''  kernel status|restart|interrupt [--target-id ID]'',
      ''  children list [--target-kind K --target-id ID]'',
      ''  events list|follow [--target-id ID]'',
      ''  events ack <event-id>'' @ ellipsis @ '' [--target-id ID]'',
      ''  skills list | get <name>'' @ ellipsis @ '' [--full] | path [name]'',
      ''  --version'',
      '''',
      ''The cli target id defaults to this machine'' @ [CHR 0x27] @ ''s hostname.'']"

text \<open>\<open>serve\<close> and \<open>run_stdio\<close> write to the streams while they run and report a message of their own.\<close>

definition cmd_server :: "'s server \<Rightarrow> (nat, 's) cmd" where
  "cmd_server f sh =
     (let (r, out, err, s) = f (sh_world sh)
      in Some (map_sum (\<lambda>e. e) (\<lambda>_. SUCCESS) r,
           \<lparr>sh_out = sh_out sh @ out, sh_err = sh_err sh @ err, sh_world = s\<rparr>))"

definition cli_daemon :: "'s cli \<Rightarrow> args \<Rightarrow> (nat, 's) cmd" where
  "cli_daemon ci args =
     cmd_then (cmd_of (from_env (ci_bundled ci) (ci_vars ci))) (\<lambda>opts.
     cmd_then (cmd_of (args_number args ''--port'')) (\<lambda>port.
     cmd_then (cmd_of
       (case port of
          None \<Rightarrow> Inr opts
        | Some n \<Rightarrow>
            if n \<le> u16_max then Inr (opts\<lparr>o_port := of_nat n\<rparr>)
            else Inl (''--port '' @ dec n @ '' is out of range''))) (\<lambda>opts.
       cmd_server (ci_serve ci opts))))"

definition cli_run :: "'s cli \<Rightarrow> string list \<Rightarrow> (nat, 's) cmd" where
  "cli_run ci tokens =
     (let (command, rest) = (case tokens of [] \<Rightarrow> (''help'', []) | t # ts \<Rightarrow> (t, ts))
      in cmd_then (cmd_of (args_parse rest)) (\<lambda>args.
           if command \<in> {''--version'', ''-V'', ''version''} then
             cmd_then (put_line (''recurse '' @ VERSION)) (\<lambda>_. cmd_of (Inr SUCCESS))
           else if command \<in> {''help'', ''--help'', ''-h''} then
             cmd_then (put_line USAGE) (\<lambda>_. cmd_of (Inr SUCCESS))
           else if command = ''daemon'' then cli_daemon ci args
           else if command = ''mcp'' then cmd_server (ci_mcp ci)
           else if command = ''health'' then cli_health ci
           else if command = ''exec'' then cli_exec ci args
           else if command = ''kernel'' then cli_kernel ci args
           else if command = ''children'' then cli_children ci args
           else if command = ''events'' then cli_events ci args
           else if command = ''skills'' then cli_skills ci args
           else cmd_of (Inl (''unknown command '' @ command @ [newline, newline] @ USAGE))))"

text \<open>\<open>main\<close> after the runtime has started, and the failure that ends it.\<close>

definition cli_fail :: "string \<Rightarrow> 's shell \<Rightarrow> nat \<times> 's shell" where
  "cli_fail msg sh = (2, sh\<lparr>sh_err := sh_err sh @ ''recurse: '' @ msg @ [newline]\<rparr>)"

definition cli_main :: "'s cli \<Rightarrow> (string, unit) result \<Rightarrow> string list \<Rightarrow> 's shell \<Rightarrow> (nat \<times> 's shell) option" where
  "cli_main ci runtime tokens sh =
     (case runtime of
        Inl e \<Rightarrow> Some (cli_fail (''start runtime: '' @ e) sh)
      | Inr _ \<Rightarrow>
          (case cli_run ci tokens sh of
             None \<Rightarrow> None
           | Some (Inr exit, sh') \<Rightarrow> Some (exit, sh')
           | Some (Inl msg, sh') \<Rightarrow> Some (cli_fail msg sh')))"

end
