(* ===== verification/Cli_Props.thy ===== *)
theory Cli_Props
  imports Cli_Main Stream_Props
begin

text \<open>
  What a user of the command line may rely on: following prints and acknowledges exactly the frames
  that were sent, \<open>exec\<close> ends with success exactly for a cell that ended well, and what a command that
  fails has written.
\<close>

section \<open>Following\<close>

text \<open>
  The contract of \<open>follow\<close>: the events of each frame on standard output, one line each, then one
  acknowledgement of exactly these events, and nothing more once an acknowledgement has failed.
\<close>

definition event_lines :: "'s cli \<Rightarrow> event list \<Rightarrow> string" where
  "event_lines ci events = concat (map (\<lambda>e. ci_event_line ci e @ [newline]) events)"

fun follow_spec :: "'s cli \<Rightarrow> client \<Rightarrow> target \<Rightarrow> sse_frame list \<Rightarrow> (unit, 's) cmd" where
  "follow_spec ci client t [] sh = Some (Inr (), sh)"
| "follow_spec ci client t (Subscribed _ # frames) sh = follow_spec ci client t frames sh"
| "follow_spec ci client t (Heartbeat _ # frames) sh = follow_spec ci client t frames sh"
| "follow_spec ci client t (Events _ events # frames) sh =
     (if events = [] then follow_spec ci client t frames sh
      else
        let printed = sh\<lparr>sh_out := sh_out sh @ event_lines ci events\<rparr>
        in case client_call (ci_wire ci) (ci_net ci) client Inr ''events.ack''
                  (Inr (ack_params t (map e_id events))) (sh_world sh) of
             (Inl e, s) \<Rightarrow> Some (Inl (client_error_display e), printed\<lparr>sh_world := s\<rparr>)
           | (Inr v, s) \<Rightarrow> follow_spec ci client t frames (printed\<lparr>sh_world := s\<rparr>))"

lemma put_lines_out:
  "put_lines ls sh = Some (Inr (), sh\<lparr>sh_out := sh_out sh @ concat (map (\<lambda>l. l @ [newline]) ls)\<rparr>)"
  by (induction ls arbitrary: sh) (simp_all add: cmd_of_def cmd_then_def put_line_def put_out_def)

lemma follow_spec_frame:
  "follow_spec ci client t (frame # frames) sh =
     cmd_then (follow_frame ci client t frame) (\<lambda>_. follow_spec ci client t frames) sh"
  by (cases frame)
    (simp_all add: follow_frame_def cmd_then_def cmd_of_def put_lines_out event_lines_def o_def cli_call_def
      cmd_client_def Let_def split: prod.splits sum.splits)

lemma follow_loop_refines:
  assumes "list_all2 (framed fj (ci_frame ci)) frames texts"
    and "buffer @ concat pieces = concat (map sse_block texts)"
  shows "follow_loop ci client t buffer (map Inr pieces) sh = follow_spec ci client t frames sh"
  using assms
proof (induction frames texts arbitrary: buffer pieces sh rule: list_all2_induct)
  case Nil
  then have "next_frame (ci_frame ci) buffer (map Inr pieces) = (Inr None, [], [])"
    by (simp add: next_frame_exhausted)
  then show ?case by (subst follow_loop.simps) simp
next
  case (Cons frame frames data texts)
  then obtain buffer' pieces' where
    "next_frame (ci_frame ci) buffer (map Inr pieces) = (Inr (Some frame), buffer', map Inr pieces')"
    "buffer' @ concat pieces' = concat (map sse_block texts)"
    using next_frame_chunked [of data "ci_frame ci" frame buffer pieces "concat (map sse_block texts)"]
    by (auto simp: framed_def)
  then show ?case
    using Cons.IH unfolding follow_spec_frame
    by (subst follow_loop.simps) (auto simp: cmd_then_def split: option.splits sum.splits)
qed

text \<open>
  C31. \<open>recurse events follow\<close> refines its contract: whatever the connection does to the bytes of the
  stream, the frames are handled one by one in the order the daemon sent them, the events of a frame
  are printed before they are acknowledged, and nothing is printed after an acknowledgement failed.
\<close>

theorem follow_refines:
  assumes "subscribe (ci_wire ci) (ci_codec ci) (ci_net ci) client t (sh_world sh) = (Inr (map Inr pieces), s)"
    and "list_all2 (framed fj (ci_frame ci)) frames texts"
    and "concat pieces = concat (map sse_block texts)"
  shows "follow ci client t sh = follow_spec ci client t frames (sh\<lparr>sh_world := s\<rparr>)"
  using follow_loop_refines [OF assms(2), of "[]" pieces client t] assms
  by (simp add: follow_def cmd_then_def cmd_client_def)

section \<open>Failing\<close>

text \<open>
  A program is silent when it writes to neither stream, infallible when it never ends with a message,
  and clean when it has written nothing whenever it ends with a message.
\<close>

definition same_output :: "'s shell \<Rightarrow> 's shell \<Rightarrow> bool" where
  "same_output sh sh' \<longleftrightarrow> sh_out sh' = sh_out sh \<and> sh_err sh' = sh_err sh"

definition silent :: "('a, 's) cmd \<Rightarrow> bool" where
  "silent m \<longleftrightarrow> (\<forall>sh r sh'. m sh = Some (r, sh') \<longrightarrow> same_output sh sh')"

definition infallible :: "('a, 's) cmd \<Rightarrow> bool" where
  "infallible m \<longleftrightarrow> (\<forall>sh e sh'. m sh \<noteq> Some (Inl e, sh'))"

definition clean :: "('a, 's) cmd \<Rightarrow> bool" where
  "clean m \<longleftrightarrow> (\<forall>sh e sh'. m sh = Some (Inl e, sh') \<longrightarrow> same_output sh sh')"

named_theorems writes

lemma silent_of [writes]: "silent (cmd_of r)"
  by (simp add: silent_def cmd_of_def same_output_def)

lemma silent_client [writes]: "silent (cmd_client f)"
  by (auto simp: silent_def cmd_client_def same_output_def split: prod.splits)

lemma silent_connect [writes]: "silent (cli_client ci)"
  by (auto simp: silent_def cli_client_def same_output_def split: prod.splits option.splits)

lemma silent_then [writes]: "silent m \<Longrightarrow> (\<And>a. silent (f a)) \<Longrightarrow> silent (cmd_then m f)"
  unfolding silent_def cmd_then_def same_output_def by (fastforce split: option.splits sum.splits)

lemma infallible_of [writes]: "infallible (cmd_of (Inr a))"
  by (simp add: infallible_def cmd_of_def)

lemma infallible_out [writes]: "infallible (put_out s)" "infallible (put_err s)"
    "infallible (put_line s)" "infallible (put_err_line s)"
  by (simp_all add: infallible_def put_out_def put_err_def put_line_def put_err_line_def)

lemma infallible_then [writes]:
  "infallible m \<Longrightarrow> (\<And>a. infallible (f a)) \<Longrightarrow> infallible (cmd_then m f)"
  by (auto simp: infallible_def cmd_then_def split: option.splits sum.splits)

lemma infallible_lines [writes]: "infallible (put_lines ls)"
  by (induction ls) (simp_all add: writes)

lemma clean_silent: "silent m \<Longrightarrow> clean m"
  by (simp add: silent_def clean_def)

lemma clean_infallible: "infallible m \<Longrightarrow> clean m"
  by (simp add: infallible_def clean_def)

lemma clean_then: "silent m \<Longrightarrow> (\<And>a. clean (f a)) \<Longrightarrow> clean (cmd_then m f)"
  unfolding silent_def clean_def cmd_then_def same_output_def
  by (fastforce split: option.splits sum.splits)

lemma clean_print: "infallible m \<Longrightarrow> clean (cmd_then m (\<lambda>_. cmd_of (Inr c)))"
  by (rule clean_infallible) (rule infallible_then infallible_of | assumption)+

lemma clean_if: "(b \<Longrightarrow> clean m) \<Longrightarrow> (\<not> b \<Longrightarrow> clean m') \<Longrightarrow> clean (if b then m else m')"
  by simp

lemma silent_if: "silent m \<Longrightarrow> silent m' \<Longrightarrow> silent (if b then m else m')"
  by simp

lemmas clean_rules = clean_print clean_if clean_then clean_silent [OF silent_of]

lemma silent_call [writes]: "silent (cli_call ci client meth params)"
  by (simp add: cli_call_def writes)

lemma silent_register [writes]: "silent (cli_register ci client t)"
  by (simp add: cli_register_def writes)

lemma infallible_json [writes]: "infallible (print_json ci v)"
  by (simp add: print_json_def writes)

lemma infallible_cell [writes]: "infallible (print_cell cell)"
  by (simp add: print_cell_def writes)

lemma clean_exec: "clean (cli_exec ci args)"
  unfolding cli_exec_def by (rule clean_then clean_infallible [OF infallible_cell] writes)+

lemma clean_kernel: "clean (cli_kernel ci args)"
  unfolding cli_kernel_def by (rule clean_rules writes)+

lemma clean_children: "clean (cli_children ci args)"
  unfolding cli_children_def by (rule clean_rules writes)+

lemma clean_health: "clean (cli_health ci)"
proof -
  have print: "infallible (cmd_then (print_json ci v) (\<lambda>_. cmd_of (Inr c)))"
      "infallible (cmd_then (put_err_line msg) (\<lambda>_. cmd_of (Inr c)))" for v msg and c :: nat
    by (intro writes)+
  show ?thesis
    unfolding cli_health_def
    by (rule clean_then [OF silent_of], rule clean_infallible, simp only: infallible_def)
      (auto simp: print [unfolded infallible_def] split: prod.splits sum.splits)
qed

lemma clean_skills: "clean (cli_skills ci args)"
  unfolding cli_skills_def Let_def prod.case_eq_if by (rule clean_rules writes)+

lemma clean_events: "subcommand args \<noteq> (''follow'', []) \<Longrightarrow> clean (cli_events ci args)"
proof -
  assume nf: "subcommand args \<noteq> (''follow'', [])"
  have call: "clean (cmd_then (cmd_then (cli_call ci client meth params) (print_json ci)) (\<lambda>_. cmd_of (Inr c)))"
    for client meth params and c :: nat
    unfolding clean_def cmd_then_def
    using silent_call [of ci client meth params] infallible_json [of ci]
    by (auto simp: silent_def infallible_def cmd_of_def split: option.splits sum.splits)
  obtain command rest where sub: "subcommand args = (command, rest)" by fastforce
  consider "command = ''list''" | "command = ''ack''" | "command \<noteq> ''list''" "command \<noteq> ''ack''" by blast
  then show ?thesis
    unfolding cli_events_def sub Let_def prod.case
    by cases (use nf sub in \<open>auto intro!: clean_then clean_silent [OF silent_of] silent_of silent_connect call\<close>)
qed

lemma clean_then_of: "(\<And>a. r = Inr a \<Longrightarrow> clean (f a)) \<Longrightarrow> clean (cmd_then (cmd_of r) f)"
  by (cases r) (simp_all add: clean_def cmd_then_def cmd_of_def same_output_def)

lemmas clean_commands = clean_exec clean_kernel clean_children clean_health clean_skills

text \<open>
  The commands that write while they run: the two servers, and \<open>events follow\<close>, which prints what it
  has acknowledged.
\<close>

fun streams :: "string list \<Rightarrow> bool" where
  "streams [] \<longleftrightarrow> False"
| "streams (command # rest) \<longleftrightarrow>
     command = ''daemon'' \<or> command = ''mcp'' \<or>
     command = ''events'' \<and> map_sum (\<lambda>e. e) subcommand (args_parse rest) = Inr (''follow'', [])"

text \<open>What holds of each command holds of \<open>run\<close>.\<close>

lemma run_cases:
  assumes quiet: "\<not> streams tokens"
    and "\<And>e. P (cmd_of (Inl e))" "\<And>txt. P (cmd_then (put_line txt) (\<lambda>_. cmd_of (Inr SUCCESS)))"
    and "P (cli_health ci)"
    and "\<And>args. P (cli_exec ci args)" "\<And>args. P (cli_kernel ci args)" "\<And>args. P (cli_children ci args)"
      "\<And>args. P (cli_skills ci args)" "\<And>args. subcommand args \<noteq> (''follow'', []) \<Longrightarrow> P (cli_events ci args)"
  shows "P (cli_run ci tokens)"
proof -
  obtain command rest where t: "(case tokens of [] \<Rightarrow> (''help'', []) | t # ts \<Rightarrow> (t, ts)) = (command, rest)"
    by fastforce
  then have quiet: "command \<noteq> ''daemon''" "command \<noteq> ''mcp''"
      "\<And>args. command = ''events'' \<Longrightarrow> args_parse rest = Inr args \<Longrightarrow> subcommand args \<noteq> (''follow'', [])"
    using quiet by (auto split: list.splits)
  show ?thesis
  proof (cases "args_parse rest")
    case (Inl e)
    then have "cli_run ci tokens = cmd_of (Inl e)"
      unfolding cli_run_def t Let_def prod.case by (simp add: cmd_then_def cmd_of_def fun_eq_iff)
    then show ?thesis using assms(2) by simp
  next
    case (Inr args)
    have first: "cmd_then (cmd_of (Inr args)) f = f args" for f :: "args \<Rightarrow> (nat, 'a) cmd"
      by (simp add: cmd_then_def cmd_of_def fun_eq_iff)
    have P_if: "(b \<Longrightarrow> P m) \<Longrightarrow> (\<not> b \<Longrightarrow> P m') \<Longrightarrow> P (if b then m else m')" for b m m'
      by simp
    have events: "command = ''events'' \<Longrightarrow> P (cli_events ci args)" using quiet(3) Inr assms(9) by blast
    show ?thesis
      unfolding cli_run_def t Let_def prod.case Inr first
      by (intro P_if assms(2-8)) (simp only: quiet(1) events, simp only: quiet(2) events, rule events)
  qed
qed

lemma clean_run: "\<not> streams tokens \<Longrightarrow> clean (cli_run ci tokens)"
  by (rule run_cases [where P = clean])
    (simp_all add: clean_events clean_commands clean_print infallible_out clean_silent [OF silent_of])

text \<open>
  How a command fails that has not ended with a message: \<open>health\<close> by one line on standard error,
  \<open>exec\<close> by a cell that did not end well, which it has shown.
\<close>

definition told :: "'s shell \<Rightarrow> 's shell \<Rightarrow> bool" where
  "told sh sh' \<longleftrightarrow>
     sh_out sh' = sh_out sh \<and> (\<exists>msg. sh_err sh' = sh_err sh @ ''recurse: '' @ msg @ [newline])"

definition showed :: "'s shell \<Rightarrow> 's shell \<Rightarrow> bool" where
  "showed sh sh' \<longleftrightarrow>
     (\<exists>cell. cr_status cell \<noteq> Cell_Ok \<and> sh_out sh' = sh_out sh @ cell_out cell \<and> sh_err sh' = sh_err sh @ cell_err cell)"

definition succeeds :: "(nat, 's) cmd \<Rightarrow> bool" where
  "succeeds m \<longleftrightarrow> (\<forall>sh c sh'. m sh = Some (Inr c, sh') \<longrightarrow> c = SUCCESS)"

definition fails_openly :: "(nat, 's) cmd \<Rightarrow> bool" where
  "fails_openly m \<longleftrightarrow>
     (\<forall>sh c sh'. m sh = Some (Inr c, sh') \<longrightarrow> c = SUCCESS \<or> c = FAILURE \<and> (told sh sh' \<or> showed sh sh'))"

lemma succeeds_of: "succeeds (cmd_of (Inr SUCCESS))" "succeeds (cmd_of (Inl e))"
  by (simp_all add: succeeds_def cmd_of_def)

lemma succeeds_then: "(\<And>a. succeeds (f a)) \<Longrightarrow> succeeds (cmd_then m f)"
  by (auto simp: succeeds_def cmd_then_def split: option.splits sum.splits)

lemma succeeds_if: "succeeds m \<Longrightarrow> succeeds m' \<Longrightarrow> succeeds (if b then m else m')"
  by simp

lemma succeeds_events: "succeeds (cli_events ci args)"
  unfolding cli_events_def Let_def prod.case_eq_if by (intro succeeds_then succeeds_if succeeds_of)

lemma succeeds_commands:
  "succeeds (cli_kernel ci args)" "succeeds (cli_children ci args)" "succeeds (cli_skills ci args)"
  unfolding cli_kernel_def cli_children_def cli_skills_def Let_def prod.case_eq_if
  by (intro succeeds_then succeeds_if succeeds_of)+

lemma fails_openly_succeeds: "succeeds m \<Longrightarrow> fails_openly m"
  by (auto simp: succeeds_def fails_openly_def)

lemma told_same: "same_output sh sh1 \<Longrightarrow> told sh1 sh' = told sh sh'" "same_output sh sh1 \<Longrightarrow> showed sh1 sh' = showed sh sh'"
  by (simp_all add: same_output_def told_def showed_def)

lemma fails_openly_then:
  assumes "silent m" "\<And>a. fails_openly (f a)"
  shows "fails_openly (cmd_then m f)"
  unfolding fails_openly_def
proof (intro allI impI)
  fix sh c sh'
  assume "cmd_then m f sh = Some (Inr c, sh')"
  then obtain a sh1 where m: "m sh = Some (Inr a, sh1)" and f: "f a sh1 = Some (Inr c, sh')"
    by (auto simp: cmd_then_def split: option.splits sum.splits)
  have "same_output sh sh1" using assms(1) m unfolding silent_def by blast
  then show "c = SUCCESS \<or> c = FAILURE \<and> (told sh sh' \<or> showed sh sh')"
    using assms(2) [of a] f told_same [of sh sh1 sh'] unfolding fails_openly_def by blast
qed

lemma fails_openly_cell: "fails_openly (print_cell cell)"
  by (auto simp: print_cell_def fails_openly_def showed_def cmd_then_def cmd_of_def put_out_def put_err_def
      cell_outcome_def)

lemma fails_openly_exec: "fails_openly (cli_exec ci args)"
  unfolding cli_exec_def by (rule fails_openly_then fails_openly_cell writes)+

lemma fails_openly_health: "fails_openly (cli_health ci)"
proof -
  have "fails_openly (\<lambda>sh. case client_health (ci_wire ci) (ci_net ci) client (sh_world sh) of
      (Inr found, s) \<Rightarrow>
        cmd_then (print_json ci (ci_health ci found)) (\<lambda>_. cmd_of (Inr SUCCESS)) (sh\<lparr>sh_world := s\<rparr>)
    | (Inl e, s) \<Rightarrow>
        cmd_then (put_err_line (''recurse: daemon at '' @ cl_base_url client @ '' is not healthy: '' @ client_error_display e))
          (\<lambda>_. cmd_of (Inr FAILURE)) (sh\<lparr>sh_world := s\<rparr>))" for client
    by (auto simp: fails_openly_def told_def cmd_then_def cmd_of_def print_json_def put_line_def put_out_def
        put_err_line_def put_err_def split: prod.splits sum.splits)
  then show ?thesis unfolding cli_health_def by (intro fails_openly_then silent_of)
qed

lemma fails_openly_run: "\<not> streams tokens \<Longrightarrow> fails_openly (cli_run ci tokens)"
  by (rule run_cases [where P = fails_openly])
    (simp_all add: fails_openly_exec fails_openly_health fails_openly_succeeds succeeds_commands succeeds_events
      succeeds_then succeeds_of)


section \<open>Executing\<close>

lemma cmd_then_Inr:
  "cmd_then m f sh = Some (Inr b, sh') \<longleftrightarrow> (\<exists>a sh1. m sh = Some (Inr a, sh1) \<and> f a sh1 = Some (Inr b, sh'))"
  by (auto simp: cmd_then_def split: option.splits sum.splits)

lemma cmd_of_Inr: "cmd_of r sh = Some (Inr a, sh') \<longleftrightarrow> r = Inr a \<and> sh' = sh"
  by (auto simp: cmd_of_def)

lemma cmd_client_Inr:
  "cmd_client f sh = Some (Inr a, sh') \<longleftrightarrow> (\<exists>s. f (sh_world sh) = (Inr a, s) \<and> sh' = sh\<lparr>sh_world := s\<rparr>)"
  by (cases "f (sh_world sh)", cases "fst (f (sh_world sh))") (auto simp: cmd_client_def)

lemma print_cell_Inr:
  "print_cell cell sh = Some (Inr c, sh') \<longleftrightarrow> c = cell_outcome cell \<and>
     sh' = sh\<lparr>sh_out := sh_out sh @ cell_out cell, sh_err := sh_err sh @ cell_err cell\<rparr>"
  by (auto simp: print_cell_def cmd_then_def put_out_def put_err_def cmd_of_def)

text \<open>
  \<open>recurse exec\<close> that does not fail has registered its target and run the code it was given,
  with the timeout it was given and a deadline thirty seconds later; it adds the output of the cell
  to the two streams, and its exit code is 0 exactly for a cell that ended well.
\<close>

theorem exec_runs_cell:
  assumes "cli_main ci (Inr ()) (''exec'' # tokens) sh = Some (exit, sh')" and "exit \<noteq> 2"
  shows "\<exists>args src t timeout client sh1 sh2 cell s.
    args_parse tokens = Inr args \<and> read_code ci args = Inr src \<and>
    args_target (ci_hostname ci) args = Inr t \<and> args_number args ''--timeout'' = Inr timeout \<and>
    cli_client ci sh = Some (Inr client, sh1) \<and> cli_register ci client t sh1 = Some (Inr (), sh2) \<and>
    call_with_timeout (ci_wire ci) (ci_net ci) client (ci_cell ci) ''kernel.execute''
      (Inr (exec_params t src timeout)) (exec_deadline timeout) (sh_world sh2) = (Inr cell, s) \<and>
    sh_out sh' = sh_out sh @ cell_out cell \<and> sh_err sh' = sh_err sh @ cell_err cell \<and> sh_world sh' = s \<and>
    (exit = 0) = (cr_status cell = Cell_Ok)"
proof -
  have "cli_run ci (''exec'' # tokens) sh = Some (Inr exit, sh')"
    using assms by (auto simp: cli_main_def cli_fail_def split: option.splits sum.splits)
  then obtain args where args: "args_parse tokens = Inr args" and
      "cli_exec ci args sh = Some (Inr exit, sh')"
    by (auto simp: cli_run_def cmd_then_Inr cmd_of_Inr)
  then obtain src t timeout client sh1 sh2 cell s where
      run: "read_code ci args = Inr src" "args_target (ci_hostname ci) args = Inr t"
        "args_number args ''--timeout'' = Inr timeout" "cli_client ci sh = Some (Inr client, sh1)"
        "cli_register ci client t sh1 = Some (Inr (), sh2)"
        "call_with_timeout (ci_wire ci) (ci_net ci) client (ci_cell ci) ''kernel.execute''
          (Inr (exec_params t src timeout)) (exec_deadline timeout) (sh_world sh2) = (Inr cell, s)"
      and cell: "exit = cell_outcome cell"
        "sh' = sh2\<lparr>sh_world := s, sh_out := sh_out sh2 @ cell_out cell, sh_err := sh_err sh2 @ cell_err cell\<rparr>"
    by (auto simp: cli_exec_def cmd_then_Inr cmd_of_Inr cmd_client_Inr print_cell_Inr)
  have "same_output sh sh1" "same_output sh1 sh2"
    using silent_connect [of ci] silent_register [of ci client t] run(4,5) by (auto simp: silent_def)
  then show ?thesis
    using args run cell by (auto simp: same_output_def cell_outcome_def SUCCESS_def FAILURE_def)
qed

section \<open>Witnesses\<close>

text \<open>A daemon that echoes the method, streams two frames, and a cell that prints.\<close>

definition demo_cell :: cell_result where
  "demo_cell = (cell_result_empty Cell_Error 1 5)\<lparr>cr_stdout := ''hi''\<rparr>"

definition demo_event :: event where
  "demo_event =
     \<lparr>e_id = ''e1'', e_target = \<lparr>t_kind = Cli, t_id = ''box''\<rparr>, e_body = KernelExited \<lparr>ke_pid = 7, ke_exit_code = None, ke_signal = None\<rparr>,
      e_actionable = True, e_at = 0, e_text = ''gone''\<rparr>"

definition demo_events :: sse_frame where
  "demo_events = Events \<lparr>t_kind = Cli, t_id = ''box''\<rparr> [demo_event]"

definition demo_cli :: "nat cli" where
  "demo_cli =
     \<lparr>ci_wire = \<lparr>wi_request = (\<lambda>rq. Inr (q_method rq)),
        wi_response = (\<lambda>b. Inr \<lparr>ev_result = Some (J_String b), ev_error = None\<rparr>),
        wi_health = (\<lambda>_. Inr \<lparr>hr_ok = True, hr_name = DAEMON_NAME, hr_version = VERSION,
          hr_protocol = PROTOCOL_VERSION, hr_pid = 1, hr_started_at = 0\<rparr>),
        wi_one = J_Int 1, wi_object = json_object [], wi_status = dec\<rparr>,
      ci_codec = \<lparr>tc_encode_no_pad = (\<lambda>_. ''QQ''), tc_decode_no_pad = (\<lambda>_. Inl ''no''),
        tc_decode_padded = (\<lambda>_. Inl ''no''), tc_target_json = (\<lambda>_. Inr ''A''),
        tc_target_of_json = (\<lambda>_. Inl ''no'')\<rparr>,
      ci_net = (\<lambda>rq s. (Inr \<lparr>ha_status = 200,
          ha_text = Inr (case hq_body rq of None \<Rightarrow> [] | Some b \<Rightarrow> b),
          ha_chunks = map Inr [''data: a'', [newline], newline # ''data: b'', [newline, newline]]\<rparr>, s + 1)),
      ci_host = \<lparr>ho_now = (\<lambda>s. s), ho_sleep = (\<lambda>d s. s + d), ho_exe = (\<lambda>_. Inl ''no''),
        ho_start = (\<lambda>_ s. (Inr (), s))\<rparr>,
      ci_build = Inr (), ci_vars = (\<lambda>_. None), ci_hostname = (0, ''box'' @ [CHR 0x00]),
      ci_cwd = Inr ''/tmp'', ci_lossy = (\<lambda>p. p), ci_stdin = Inr [], ci_read = (\<lambda>_. Inl ''no''),
      ci_cell = (\<lambda>_. Inr demo_cell), ci_health = (\<lambda>_. J_Null), ci_pretty = (\<lambda>_. ''{}''),
      ci_event_line = e_id,
      ci_frame = (\<lambda>b. if b = ''a'' then Inr demo_events else Inr (Heartbeat 2)),
      ci_fs = \<lparr>fs_is_dir = (\<lambda>_. False), fs_read_dir = (\<lambda>_. None), fs_files = (\<lambda>_. Missing), fs_lossy = (\<lambda>p. p)\<rparr>,
      ci_is_file = (\<lambda>_. True), ci_bundled = (\<lambda>_ _. None), ci_serve = (\<lambda>_ s. (Inr (), [], [], s)),
      ci_mcp = (\<lambda>s. (Inr (), [], [], s))\<rparr>"

definition demo_shell :: "nat shell" where
  "demo_shell = \<lparr>sh_out = [], sh_err = [], sh_world = 0\<rparr>"

lemmas demo_defs = demo_cli_def demo_shell_def cli_client_def connect_or_spawn_def client_from_env_def
  client_new_def client_health_def call_with_timeout_def client_call_def decode_response_def
  cli_register_def cmd_then_def cmd_of_def cmd_client_def

lemma exec_demo:
  "cli_main demo_cli (Inr ()) [''exec'', ''-c'', ''1 + 1''] demo_shell =
     Some (1, \<lparr>sh_out = ''hi'', sh_err = [], sh_world = 3\<rparr>)"
proof -
  have args: "args_parse [''-c'', ''1 + 1''] = Inr \<lparr>ar_positional = [], ar_flags = [(''-c'', ''1 + 1'')]\<rparr>"
    by (simp add: args_parse_def args_default_def VALUE_FLAGS_def add_flag_def split_token_def)
  have "cli_exec demo_cli \<lparr>ar_positional = [], ar_flags = [(''-c'', ''1 + 1'')]\<rparr> demo_shell =
      Some (Inr 1, \<lparr>sh_out = ''hi'', sh_err = [], sh_world = 3\<rparr>)"
    by (simp add: demo_defs cli_exec_def read_code_def args_value_def args_target_def rbind_def hostname_def
        target_is_valid_def char_count_def TARGET_ID_def args_number_def print_cell_def demo_cell_def
        cell_result_empty_def cell_outcome_def put_out_def put_err_def cell_out_def cell_err_def FAILURE_def
        utf8_step_def)
  then show ?thesis using args by (simp add: cli_main_def cli_run_def cmd_then_def cmd_of_def)
qed


theorem exec_runs_cell_witness:
  "\<exists>sh'. cli_main demo_cli (Inr ()) [''exec'', ''-c'', ''1 + 1''] demo_shell = Some (1, sh') \<and>
     (\<exists>cell. sh_out sh' = cell_out cell)"
  using exec_runs_cell [OF exec_demo] exec_demo by (auto simp: demo_shell_def)

theorem follow_refines_witness:
  "\<exists>sh'. follow demo_cli \<lparr>cl_base_url = ''u'', cl_token = None\<rparr> \<lparr>t_kind = Cli, t_id = ''box''\<rparr> demo_shell =
     Some (Inr (), sh') \<and> sh_out sh' = ''e1'' @ [newline] \<and> sh_world sh' = 2"
proof -
  let ?pieces = "[''data: a'', [newline], newline # ''data: b'', [newline, newline]]"
  let ?fj = "\<lparr>fj_event = (\<lambda>_. Inl ''no''),
    fj_frame = (\<lambda>f. if f = demo_events then Inr ''a'' else Inr ''b'')\<rparr> :: frame_json"
  let ?client = "\<lparr>cl_base_url = ''u'', cl_token = None\<rparr>" and ?t = "\<lparr>t_kind = Cli, t_id = ''box''\<rparr>"
  have fr: "list_all2 (framed ?fj (ci_frame demo_cli)) [demo_events, Heartbeat 2] [''a'', ''b'']"
    by (simp add: framed_def one_line_def sse_block_def valid_utf8_def is_cont_def SSE_FRAME_def demo_cli_def
        demo_events_def)
  have sub: "subscribe (ci_wire demo_cli) (ci_codec demo_cli) (ci_net demo_cli) ?client ?t (sh_world demo_shell) =
      (Inr (map Inr ?pieces), 1)"
    by (simp add: subscribe_def demo_cli_def demo_shell_def)
  have "follow demo_cli ?client ?t demo_shell =
      follow_spec demo_cli ?client ?t [demo_events, Heartbeat 2] (demo_shell\<lparr>sh_world := 1\<rparr>)"
    by (rule follow_refines [OF sub fr]) (simp add: sse_block_def)
  then show ?thesis
    by (simp add: demo_events_def demo_defs demo_event_def event_lines_def)
qed

end
