(* ===== verification/End_To_End.thy ===== *)
theory End_To_End
  imports Server Cli_Props
begin

text \<open>
  The components together: a user follows the events of a target, the client subscribes, the daemon's
  listener hands out the queue, the bytes arrive in pieces, and every event is printed and
  acknowledged.
\<close>

section \<open>Acknowledging against the daemon\<close>

definition ack_carried :: "'s cli \<Rightarrow> json_value json \<Rightarrow> target \<Rightarrow> event list \<Rightarrow> bool" where
  "ack_carried ci js t events \<longleftrightarrow>
     carried (ci_wire ci) js ''events.ack'' (ack_params t (map e_id events)) \<and>
     request_parse js ''events.ack'' (Some (ack_params t (map e_id events))) =
       Inr (EventsAck t (map e_id events))"

lemma dispatch_ack:
  assumes "target_is_valid t" "serialises (w_json w)"
  shows "\<exists>x v. j_to_value (w_json w) x = Inr v \<and>
    rpc_dispatch w (EventsAck t ids) app = (Done (Inr v), snd (app_update w (ack_change t ids) app))"
proof -
  obtain tv where tv: "\<And>v. j_to_value (w_json w) v = Inr (tv v)"
    using assms(2) unfolding serialises_def by metis
  then show ?thesis
    using assms(1)
    by (auto simp: rpc_dispatch_def check_target_def dispatch_request_def completed_def
        dispatch_children_and_events_def respond_def rbind_def to_json_def ack_change_def on_queue_def
        map_prod_def split_beta)
qed

lemma acked_events:
  assumes "queue_inv q"
  shows "list_events (snd (ack q t ids)) t = filter (\<lambda>e. e_id e \<notin> set ids) (list_events q t)"
  using assms by (simp add: list_events_queue_of queue_of_ack queue_inv_def filter_map o_def)

lemma ack_call:
  assumes net: "ci_net ci = daemon_http w tc fj render pieces_of (cl_base_url client)"
    and daemon: "serialises (w_json w)" "target_is_valid t" "same_token client app"
      "results_answered (ci_wire ci) render (w_json w)"
    and ack: "ack_carried ci (w_json w) t events"
  shows "\<exists>v app'. client_call (ci_wire ci) (ci_net ci) client Inr ''events.ack''
        (Inr (ack_params t (map e_id events))) app = (Inr v, app') \<and>
      same_token client app' \<and>
      core_queue (app_core app') = snd (ack (core_queue (app_core app)) t (map e_id events))"
proof -
  let ?touched = "app_touch w app" and ?ids = "map e_id events"
  let ?app' = "snd (app_update w (ack_change t ?ids) ?touched)"
  obtain x v where v: "j_to_value (w_json w) x = Inr v"
      "rpc_dispatch w (EventsAck t ?ids) ?touched = (Done (Inr v), ?app')"
    using dispatch_ack [OF daemon(2,1)] by blast
  have "call_with_timeout (ci_wire ci) (daemon_net w render) client Inr ''events.ack''
      (Inr (ack_params t ?ids)) DEFAULT_TIMEOUT app = (client_outcome Inr (Inr v), ?app')"
    using ack daemon_call [OF _ _ daemon(3) _ v(2)] daemon(4) v(1)
    unfolding ack_carried_def results_answered_def by blast
  then have "client_call (ci_wire ci) (ci_net ci) client Inr ''events.ack'' (Inr (ack_params t ?ids)) app =
      (Inr v, ?app')"
    by (simp add: client_call_def net call_over_http client_outcome_def)
  moreover have "core_queue (app_core ?app') = snd (ack (core_queue (app_core app)) t ?ids)"
    by (simp add: ack_change_def on_queue_def map_prod_def split_beta)
  moreover have "same_token client ?app'" using daemon(3) by (simp add: same_token_def app_touch_def)
  ultimately show ?thesis by blast
qed

lemma acks_drain:
  assumes net: "ci_net ci = daemon_http w tc fj render pieces_of (cl_base_url client)"
    and daemon: "serialises (w_json w)" "target_is_valid t"
      "results_answered (ci_wire ci) render (w_json w)"
  shows "same_token client (sh_world sh) \<Longrightarrow> queue_inv (core_queue (app_core (sh_world sh))) \<Longrightarrow>
    list_all (\<lambda>c. c \<noteq> [] \<longrightarrow> ack_carried ci (w_json w) t c) cs \<Longrightarrow>
    \<exists>sh'. follow_spec ci client t (map (Events t) cs) sh = Some (Inr (), sh') \<and>
      sh_out sh' = sh_out sh @ event_lines ci (concat cs) \<and>
      list_events (core_queue (app_core (sh_world sh'))) t =
        filter (\<lambda>e. e_id e \<notin> e_id ` set (concat cs)) (list_events (core_queue (app_core (sh_world sh))) t)"
proof (induction cs arbitrary: sh)
  case Nil
  then show ?case by (simp add: event_lines_def)
next
  case (Cons c cs)
  show ?case
  proof (cases "c = []")
    case True
    with Cons show ?thesis by simp
  next
    case False
    then obtain v app' where call: "client_call (ci_wire ci) (ci_net ci) client Inr ''events.ack''
          (Inr (ack_params t (map e_id c))) (sh_world sh) = (Inr v, app')"
        "same_token client app'"
        "core_queue (app_core app') = snd (ack (core_queue (app_core (sh_world sh))) t (map e_id c))"
      using ack_call [where events = c, OF net daemon(1,2) Cons.prems(1) daemon(3)] Cons.prems(3) by auto
    let ?sh = "sh\<lparr>sh_out := sh_out sh @ event_lines ci c, sh_world := app'\<rparr>"
    have q: "queue_inv (core_queue (app_core app'))" by (simp add: call(3) ack_inv Cons.prems(2))
    have left: "list_events (core_queue (app_core app')) t =
        filter (\<lambda>e. e_id e \<notin> e_id ` set c) (list_events (core_queue (app_core (sh_world sh))) t)"
      by (simp add: call(3) acked_events [OF Cons.prems(2)])
    obtain sh' where "follow_spec ci client t (map (Events t) cs) ?sh = Some (Inr (), sh')"
        "sh_out sh' = sh_out ?sh @ event_lines ci (concat cs)"
        "list_events (core_queue (app_core (sh_world sh'))) t =
          filter (\<lambda>e. e_id e \<notin> e_id ` set (concat cs)) (list_events (core_queue (app_core app')) t)"
      using Cons.IH [of ?sh] call(2) q Cons.prems(3) by auto
    then show ?thesis
      using False call(1) left
      by (auto simp: event_lines_def image_Un Let_def intro!: filter_cong)
  qed
qed

section \<open>Following a target drains its queue\<close>

text \<open>
  C11. \<open>recurse events follow\<close> against the daemon prints every event that was queued for the target, in
  queue order, acknowledges exactly these, and leaves the queue of the target empty when the stream
  ends, however the connection cuts the bytes; as long as nothing else happens to the target in the
  meantime and serialisation carries the frames and the requests.
\<close>

theorem follow_drains_queue:
  assumes net: "ci_net ci = daemon_http w (ci_codec ci) fj render pieces_of (cl_base_url client)"
      "\<And>s. concat (pieces_of s) = s"
    and daemon: "sh_world sh = app" "app_inv app" "\<not> a_shutdown app" "same_token client app"
      "events = list_events (core_queue (app_core app)) t"
    and target: "decode_target (ci_codec ci) (Some (encode_target (ci_codec ci) t)) = Inr t" "target_is_valid t"
    and frames: "json_total fj"
      "list_all (\<lambda>f. framed fj (ci_frame ci) f (frame_text fj f)) (Subscribed t # map (Events t) (chunk fj events))"
    and acks: "serialises (w_json w)" "list_all (\<lambda>c. c \<noteq> [] \<longrightarrow> ack_carried ci (w_json w) t c) (chunk fj events)"
      "results_answered (ci_wire ci) render (w_json w)"
  shows "\<exists>sh'. follow ci client t sh = Some (Inr (), sh') \<and>
    sh_out sh' = sh_out sh @ event_lines ci events \<and>
    list_events (core_queue (app_core (sh_world sh'))) t = []"
proof -
  let ?frames = "Subscribed t # map (Events t) (chunk fj events)"
  let ?app = "snd (app_update w (hand_change t {}) app)"
  have sub: "subscribe (ci_wire ci) (ci_codec ci) (ci_net ci) client t (sh_world sh) =
      (Inr (map Inr (pieces_of (stream_bytes fj ?frames))), ?app)"
    unfolding net(1) daemon(1,5) by (rule subscribe_over_http [OF daemon(4) target(1) frames(1) daemon(3)])
  have texts: "list_all2 (framed fj (ci_frame ci)) ?frames (map (frame_text fj) ?frames)"
    using frames(2) by (simp add: list_all2_conv_all_nth list_all_length del: list.map)
  have bytes: "concat (pieces_of (stream_bytes fj ?frames)) = concat (map sse_block (map (frame_text fj) ?frames))"
    by (simp add: net(2) stream_bytes_def o_def)
  have q: "core_queue (app_core ?app) = snd (hand_out (core_queue (app_core app)) t {})"
    unfolding hand_queue by (simp add: retained_def)
  have inv: "queue_inv (core_queue (app_core app))" using daemon(2) by (simp add: app_inv_def core_inv_def)
  have "list_events (core_queue (app_core ?app)) t = events"
    by (simp add: q list_events_queue_of queue_of_hand_out daemon(5) del: app_update_simps)
  moreover have "concat (chunk fj events) = events" by simp
  moreover have "queue_inv (core_queue (app_core ?app))" by (simp add: q hand_out_inv inv del: app_update_simps)
  moreover have "same_token client ?app" using daemon(4) by (simp add: same_token_def)
  moreover have "follow_loop ci client t [] (map Inr (pieces_of (stream_bytes fj ?frames))) sh2 =
      follow_spec ci client t ?frames sh2" for sh2
    by (rule follow_loop_refines [OF texts]) (simp only: bytes append_Nil)
  ultimately show ?thesis
    using acks_drain [OF net(1) acks(1) target(2) acks(3), of "sh\<lparr>sh_world := ?app\<rparr>" "chunk fj events"] acks(2)
      sub
    by (auto simp: follow_def cmd_then_def cmd_client_def filter_empty_conv)
qed

section \<open>Witness\<close>

definition box :: target where
  "box = \<lparr>t_kind = Cli, t_id = ''box''\<rparr>"

definition box_json :: "json_value json" where
  "box_json =
     \<lparr>j_null = J_Null, j_is_null = json_is_null, j_object = json_object [], j_to_value = (\<lambda>_. Inr J_Null),
      j_from_slice = (\<lambda>b. Inr (J_String b)), j_get_id = (\<lambda>_. None),
      j_envelope = (\<lambda>_. Inr \<lparr>q_id = Some (J_Int 1), q_method = ''events.ack'',
        q_params = Some (ack_params box [''e1''])\<rparr>),
      j_empty = (\<lambda>_. Inr ()), j_spawn = (\<lambda>_. Inl ''no''), j_delete = (\<lambda>_. Inl ''no''),
      j_agent_message = (\<lambda>_. Inl ''no''), j_bash_finished = (\<lambda>_. Inl ''no''),
      j_withdraw = (\<lambda>_. Inl ''no''), j_register = (\<lambda>_. Inl ''no''),
      j_execute = (\<lambda>_. Inl ''no''), j_target = (\<lambda>_. Inr box), j_child_bind = (\<lambda>_. Inl ''no''),
      j_child_fail = (\<lambda>_. Inl ''no''), j_child_id = (\<lambda>_. Inl ''no''),
      j_events_ack = (\<lambda>_. Inr (box, [''e1''])), j_skills_list = (\<lambda>_. Inl ''no'')\<rparr>"

definition box_world :: "json_value world" where
  "box_world =
     \<lparr>w_now = 5, w_event_now = 6, w_instant = 100, w_pid = 42,
      w_runtime = \<lparr>rt_hash_one = (\<lambda>_ salt. salt), rt_debug = (\<lambda>s. s)\<rparr>,
      w_codec = demo_codec, w_io = (Saved, Saved), w_fs = no_fs, w_json = box_json\<rparr>"

text \<open>A daemon with one event queued for the host of the command line.\<close>

definition box_app :: "json_value app" where
  "box_app =
     \<lparr>a_options = options_new (\<lambda>_ _. None) (\<lambda>_. None) ''/state'',
      a_state = \<lparr>st_core = core_default\<lparr>core_queue := snd (push queue_default Cli_Props.demo_event)\<rparr>,
        st_dir = ''/state'', st_files = (\<lambda>_. Missing), st_changes = [], st_log = []\<rparr>,
      a_kernels = manager_default, a_started_at = 1, a_shutdown = False, a_last_rpc = 0\<rparr>"

definition box_frames :: frame_json where
  "box_frames = \<lparr>fj_event = (\<lambda>_. Inr ''{}''),
     fj_frame = (\<lambda>f. Inr (case f of Subscribed _ \<Rightarrow> ''s'' | Events _ _ \<Rightarrow> ''e'' | Heartbeat _ \<Rightarrow> ''h''))\<rparr>"

definition box_codec :: target_codec where
  "box_codec = \<lparr>tc_encode_no_pad = (\<lambda>_. ''QQ''), tc_decode_no_pad = (\<lambda>_. Inr ''A''),
     tc_decode_padded = (\<lambda>_. Inl ''no''), tc_target_json = (\<lambda>_. Inr ''A''), tc_target_of_json = (\<lambda>_. Inr box)\<rparr>"

definition box_wire :: "json_value wire" where
  "box_wire = \<lparr>wi_request = (\<lambda>_. Inr ''a''),
     wi_response = (\<lambda>_. Inr \<lparr>ev_result = Some J_Null, ev_error = None\<rparr>), wi_health = (\<lambda>_. Inl ''no''),
     wi_one = J_Int 1, wi_object = json_object [], wi_status = dec\<rparr>"

definition box_client :: client where
  "box_client = \<lparr>cl_base_url = ''http://127.0.0.1:7777'', cl_token = None\<rparr>"

definition box_cli :: "json_value app cli" where
  "box_cli =
     \<lparr>ci_wire = box_wire, ci_codec = box_codec,
      ci_net = daemon_http box_world box_codec box_frames (\<lambda>_. ''ok'') (map (\<lambda>c. [c])) (cl_base_url box_client),
      ci_host = \<lparr>ho_now = (\<lambda>_. 0), ho_sleep = (\<lambda>_ s. s), ho_exe = (\<lambda>_. Inl ''no''), ho_start = (\<lambda>_ s. (Inr (), s))\<rparr>,
      ci_build = Inr (), ci_vars = (\<lambda>_. None), ci_hostname = (0, ''box'' @ [CHR 0x00]),
      ci_cwd = Inr ''/tmp'', ci_lossy = (\<lambda>p. p), ci_stdin = Inr [], ci_read = (\<lambda>_. Inl ''no''),
      ci_cell = (\<lambda>_. Inl ''no''), ci_health = (\<lambda>_. J_Null), ci_pretty = (\<lambda>_. ''{}''),
      ci_event_line = e_text,
      ci_frame = (\<lambda>b. if b = ''s'' then Inr (Subscribed box)
        else if b = ''e'' then Inr (Events box [Cli_Props.demo_event]) else Inr (Heartbeat 2)),
      ci_fs = no_fs, ci_is_file = (\<lambda>_. True), ci_bundled = (\<lambda>_ _. None), ci_serve = (\<lambda>_ s. (Inr (), [], [], s)),
      ci_mcp = (\<lambda>s. (Inr (), [], [], s))\<rparr>"

definition box_shell :: "json_value app shell" where
  "box_shell = \<lparr>sh_out = [], sh_err = [], sh_world = box_app\<rparr>"

lemma box_target: "e_target Cli_Props.demo_event = box" "e_id Cli_Props.demo_event = ''e1''"
  by (simp_all add: Cli_Props.demo_event_def box_def)

lemma box_queue: "list_events (core_queue (app_core box_app)) box = [Cli_Props.demo_event]"
  by (simp add: box_app_def list_events_queue_of queue_of_push box_target add_event_def
      drop_overflow_fit QUEUED_EVENTS_def)

lemma box_inv: "app_inv box_app"
  unfolding app_inv_def
  by (simp add: box_app_def core_inv_def core_default_def push_inv queue_inv_default registry_limits_default)

lemma box_chunk: "chunk box_frames [Cli_Props.demo_event] = [[Cli_Props.demo_event]]"
  by (simp add: chunk_def)

lemma box_simps:
  "ci_net box_cli = daemon_http box_world (ci_codec box_cli) box_frames (\<lambda>_. ''ok'') (map (\<lambda>c. [c])) (cl_base_url box_client)"
  "sh_world box_shell = box_app" "\<not> a_shutdown box_app" "same_token box_client box_app" "json_total box_frames"
  by (simp_all add: box_cli_def box_shell_def box_app_def box_client_def same_token_def options_new_def
      json_total_def box_frames_def)

lemma box_facts:
  "target_is_valid box"
  "serialises (w_json box_world)"
  "results_answered (ci_wire box_cli) (\<lambda>_. ''ok'') (w_json box_world)"
  by (simp_all add: box_cli_def target_is_valid_def box_def char_count_def TARGET_ID_def serialises_def
      box_world_def box_json_def results_answered_def answered_def reply_def box_wire_def)

lemma box_decode: "decode_target (ci_codec box_cli) (Some (encode_target (ci_codec box_cli) box)) = Inr box"
  using box_facts(1) by (simp add: decode_target_def box_cli_def box_codec_def ok_or_def check_target_def)

lemma box_framed:
  "framed box_frames (ci_frame box_cli) (Subscribed box) (frame_text box_frames (Subscribed box))"
  "framed box_frames (ci_frame box_cli) (Events box [Cli_Props.demo_event])
     (frame_text box_frames (Events box [Cli_Props.demo_event]))"
  by (simp_all add: framed_def frame_text_def box_frames_def box_cli_def one_line_def sse_block_def valid_utf8_def is_cont_def SSE_FRAME_def)

lemma box_acks: "ack_carried box_cli (w_json box_world) box [Cli_Props.demo_event]"
  by (simp add: ack_carried_def carried_def box_cli_def box_wire_def box_world_def box_json_def box_target RPC_BODY_def
      request_parse_def parse_params_def)

theorem follow_drains_queue_witness:
  "\<exists>sh'. follow box_cli box_client box box_shell = Some (Inr (), sh') \<and>
     sh_out sh' = ''gone'' @ [newline] \<and> list_events (core_queue (app_core (sh_world sh'))) box = []"
proof -
  have "\<exists>sh'. follow box_cli box_client box box_shell = Some (Inr (), sh') \<and>
     sh_out sh' = sh_out box_shell @ event_lines box_cli [Cli_Props.demo_event] \<and>
     list_events (core_queue (app_core (sh_world sh'))) box = []"
  proof (rule follow_drains_queue [where w = box_world and fj = box_frames and render = "\<lambda>_. ''ok''" and
        pieces_of = "map (\<lambda>c. [c])" and app = box_app])
    show "app_inv box_app" by (rule box_inv)
  qed (simp_all add: box_queue box_chunk box_simps, simp_all add: box_facts box_decode box_framed box_acks)
  then show ?thesis
    by (simp add: box_shell_def event_lines_def box_cli_def Cli_Props.demo_event_def)
qed

end
