(* ===== verification/Exec_Props.thy ===== *)
theory Exec_Props
  imports End_To_End Mcp_Props Kernel_Progress
begin

text \<open>
  \<open>recurse exec\<close> against the daemon: the command registers its target and sends the cell, the daemon
  accepts it, the kernel manager takes it from the busy check to the release of the flag among all its
  other work, and the answer travels back to the two output streams and the exit code.
\<close>

section \<open>A daemon that is at work\<close>

text \<open>
  The answer to an execute call, once the manager has one (\<open>dispatch\<close> of \<open>rpc.rs\<close> after the await).
\<close>

definition execute_outcome :: "'v json \<Rightarrow> cell_result rpc_result \<Rightarrow> 'v rpc_result" where
  "execute_outcome js outcome = rbind outcome (\<lambda>cell. to_json js (V_Cell cell))"

text \<open>
  The request handler over HTTP; while an execute call waits, the manager takes the steps of
  \<open>meanwhile\<close>, and a call without an answer by then has run into the deadline of its client.
\<close>

definition working_net ::
  "'v world \<Rightarrow> ('v response \<Rightarrow> string) \<Rightarrow> (nat \<Rightarrow> 'v label list) \<Rightarrow> 'v app net" where
  "working_net w render meanwhile rq app =
     (case rpc_handle w (bearer_header rq) (hq_body rq) app of
        (Respond rs, app') \<Rightarrow> (Inr (plain_answer (rs_status rs) (render rs)), app')
      | (Respond_Later rid i, app') \<Rightarrow>
          let m = fold apply_label (meanwhile i) (a_kernels app');
              app'' = app'\<lparr>a_kernels := m\<rparr>
          in case map_of (m_replies m) i of
               Some outcome \<Rightarrow>
                 let rs = reply rid (execute_outcome (w_json w) outcome)
                 in (Inr (plain_answer (rs_status rs) (render rs)), app'')
             | None \<Rightarrow> (Inl ''operation timed out'', app''))"

section \<open>Requests over it\<close>

lemma working_done:
  assumes "carried wi (w_json w) meth params" "answered wi render outcome" "same_token client app"
    and "request_parse (w_json w) meth (Some params) = Inr request"
    and "rpc_dispatch w request (app_touch w app) = (Done outcome, app')"
  shows "call_with_timeout wi (working_net w render meanwhile) client decode meth (Inr params) timeout app =
    (client_outcome decode outcome, app')"
proof -
  obtain body where
      "wi_request wi \<lparr>q_id = Some (wi_one wi), q_method = meth, q_params = Some params\<rparr> = Inr body"
      "rpc_handle w (map_option (\<lambda>t. ''Bearer '' @ t) (cl_token client)) (Some body) app =
        (Respond (reply (Some (wi_one wi)) outcome), app')"
    using handle_carried [OF assms(1,3,4)] assms(5) by auto
  then show ?thesis
    using assms(2)
    by (simp add: call_with_timeout_def working_net_def bearer_header_def plain_answer_def decode_response_def
        answered_def client_outcome_def reply_def Let_def split: sum.splits)
qed

lemma working_awaits:
  assumes "carried wi (w_json w) meth params" "same_token client app"
    and "request_parse (w_json w) meth (Some params) = Inr request"
    and "rpc_dispatch w request (app_touch w app) = (Awaits i, app')"
    and "m = fold apply_label (meanwhile i) (a_kernels app')" "map_of (m_replies m) i = Some outcome"
    and "answered wi render (execute_outcome (w_json w) outcome)"
  shows "call_with_timeout wi (working_net w render meanwhile) client decode meth (Inr params) timeout app =
    (client_outcome decode (execute_outcome (w_json w) outcome), app'\<lparr>a_kernels := m\<rparr>)"
proof -
  obtain body where
      "wi_request wi \<lparr>q_id = Some (wi_one wi), q_method = meth, q_params = Some params\<rparr> = Inr body"
      "rpc_handle w (map_option (\<lambda>t. ''Bearer '' @ t) (cl_token client)) (Some body) app =
        (Respond_Later (Some (wi_one wi)) i, app')"
    using handle_carried [OF assms(1-3)] assms(4) by auto
  then show ?thesis
    using assms(5-7)
    by (simp add: call_with_timeout_def working_net_def bearer_header_def plain_answer_def decode_response_def
        answered_def client_outcome_def reply_def Let_def split: sum.splits)
qed

text \<open>Only whether the target is registered matters for the start of a call.\<close>

lemma execute_begin_registered:
  "execute_begin dflt (Some x) p m = execute_begin dflt (Some y) p m"
  by (simp add: execute_begin_def)

lemma register_kernels:
  "rpc_dispatch w (TargetRegister reg) app = (outcome, app') \<Longrightarrow> a_kernels app' = a_kernels app"
  by (auto simp: rpc_dispatch_def dispatch_request_def completed_def respond_def split: sum.splits if_splits)

lemma replies_inv_run: "replies_inv m \<Longrightarrow> replies_inv (fold apply_label ls m)"
  by (induction ls arbitrary: m) (simp_all add: replies_inv_label)

lemma begin_accepted:
  assumes "calls_inv m" "execute_begin dflt reg p m = (Inr i, m')"
  shows "calls_inv m'" "m_call m' i \<noteq> None"
proof -
  show "calls_inv m'" using calls_inv_execute_begin [OF assms(1), of dflt reg p] assms(2) by simp
  show "m_call m' i \<noteq> None"
    using assms(2) by (auto simp: execute_begin_def Let_def split: option.splits prod.splits if_splits)
qed

text \<open>An accepted call gets one answer, within the bounds of the wire.\<close>

lemma accepted_answered:
  assumes "calls_inv m" "replies_inv m" "execute_begin dflt reg p m = (Inr i, m1)"
    and "\<forall>l \<in> set ls. l \<noteq> Cancel i" "12 \<le> helped apply_label (presses i) ls m1"
  obtains outcome where "map_of (m_replies (fold apply_label ls m1)) i = Some outcome"
    "\<And>r. (i, r) \<in> set (m_replies (fold apply_label ls m1)) \<longleftrightarrow> r = outcome"
    "\<And>cell. outcome = Inr cell \<Longrightarrow> within_bounds cell"
proof -
  let ?m = "fold apply_label ls m1"
  obtain outcome where in_replies: "(i, outcome) \<in> set (m_replies ?m)"
    using answered_in_time [OF begin_accepted [OF assms(1,3)] assms(4,5)] by blast
  have "m1 = snd (execute_begin dflt reg p m)" using assms(3) by simp
  then have inv: "replies_inv ?m"
    using replies_inv_run replies_inv_begin [OF assms(2), of dflt reg p] by simp
  then have "distinct (map fst (m_replies ?m))" by (simp add: replies_inv_def)
  then have "map_of (m_replies ?m) i = Some outcome" "(i, r) \<in> set (m_replies ?m) \<longleftrightarrow> r = outcome" for r
    using in_replies map_of_is_SomeI by fastforce+
  moreover have "within_bounds cell" if "outcome = Inr cell" for cell
    using inv in_replies that unfolding replies_inv_def by blast
  ultimately show ?thesis using that by blast
qed

section \<open>Execute over the network\<close>

text \<open>
  The call of any client on the daemon at work, from the request to the decoded answer: an accepted
  cell is answered exactly once, within the bounds of the wire.
\<close>

lemma execute_called:
  assumes request: "carried wi (w_json w) ''kernel.execute'' params"
      "request_parse (w_json w) ''kernel.execute'' (Some params) = Inr (KernelExecute p)" "target_is_valid (ex_target p)"
    and daemon: "same_token client app" "record_of (core_registry (app_core app)) (ex_target p) \<noteq> None"
    and manager: "reach (\<lambda>m. m = manager_default) (manager_step allowed) (a_kernels app)"
      "execute_begin (o_cell_timeout_sec (a_options app)) (Some rd) p (a_kernels app) = (Inr i, m1)"
      "\<forall>l \<in> set (meanwhile i). l \<noteq> Cancel i" "12 \<le> helped apply_label (presses i) (meanwhile i) m1"
    and sent: "\<And>r. (i, r) \<in> set (m_replies (fold apply_label (meanwhile i) m1)) \<Longrightarrow> answered wi render (execute_outcome (w_json w) r)"
  shows "\<exists>outcome.
    call_with_timeout wi (working_net w render meanwhile) client decode ''kernel.execute'' (Inr params) timeout app =
      (client_outcome decode (execute_outcome (w_json w) outcome), (app_touch w app)\<lparr>a_kernels := fold apply_label (meanwhile i) m1\<rparr>) \<and>
    (\<forall>r. (i, r) \<in> set (m_replies (fold apply_label (meanwhile i) m1)) \<longleftrightarrow> r = outcome) \<and>
    (\<forall>cell. outcome = Inr cell \<longrightarrow> within_bounds cell)"
proof -
  let ?m = "fold apply_label (meanwhile i) m1" and ?touched = "app_touch w app"
  obtain rd2 where "registration ?touched (ex_target p) = Some rd2" using daemon(2) by (auto simp: registration_def)
  then have "execute_begin (o_cell_timeout_sec (a_options ?touched)) (registration ?touched (ex_target p)) p (a_kernels ?touched) =
      (Inr i, m1)"
    using manager(2) execute_begin_registered [of "o_cell_timeout_sec (a_options app)" rd2 p "a_kernels app" rd]
    by (simp add: app_touch_def)
  then have dispatch: "rpc_dispatch w (KernelExecute p) ?touched = (Awaits i, ?touched\<lparr>a_kernels := m1\<rparr>)"
    using request(3) by (simp add: rpc_dispatch_def check_target_def dispatch_request_def)
  have inv: "calls_inv (a_kernels app)" "replies_inv (a_kernels app)"
    using manager(1) by (rule calls.reach_inv, rule replies.reach_inv)
  obtain outcome where answer: "map_of (m_replies ?m) i = Some outcome"
      "\<And>r. (i, r) \<in> set (m_replies ?m) \<longleftrightarrow> r = outcome" "\<And>cell. outcome = Inr cell \<Longrightarrow> within_bounds cell"
    using accepted_answered [OF inv manager(2-4)] by blast
  have "call_with_timeout wi (working_net w render meanwhile) client decode ''kernel.execute'' (Inr params) timeout app =
      (client_outcome decode (execute_outcome (w_json w) outcome), ?touched\<lparr>a_kernels := m1, a_kernels := ?m\<rparr>)"
    by (rule working_awaits [OF request(1) daemon(1) request(2) dispatch]) (simp_all add: answer(1,2) sent)
  then show ?thesis using answer(2,3) by (intro exI [of _ outcome]) simp
qed

section \<open>The command\<close>

lemma args_target_valid: "args_target reported args = Inr t \<Longrightarrow> target_is_valid t"
  by (auto simp: args_target_def rbind_Inr_iff Let_def split: if_splits)

lemma register_against_daemon:
  assumes net: "ci_net ci = working_net w render meanwhile" "serialises (w_json w)"
      "results_answered (ci_wire ci) render (w_json w)"
    and place: "ci_cwd ci = Inr cwd" "ci_lossy ci cwd \<noteq> []" "target_is_valid t"
    and daemon: "same_token client (sh_world sh)" "reg = cli_register_params ci cwd t"
      "length (targets (core_registry (app_core (sh_world sh)))) < REGISTERED_TARGETS"
    and request: "carried (ci_wire ci) (w_json w) ''target.register'' (register_params_value reg)"
      "request_parse (w_json w) ''target.register'' (Some (register_params_value reg)) = Inr (TargetRegister reg)"
  obtains app where "cli_register ci client t sh = Some (Inr (), sh\<lparr>sh_world := app\<rparr>)"
    "record_of (core_registry (app_core app)) t \<noteq> None" "a_options app = a_options (sh_world sh)"
    "a_kernels app = a_kernels (sh_world sh)"
proof -
  have reg: "reg_target reg = t" "reg_cwd reg \<noteq> []" using place daemon(2) by (simp_all add: cli_register_params_def)
  obtain x v app where r: "j_to_value (w_json w) x = Inr v"
      "rpc_dispatch w (TargetRegister reg) (app_touch w (sh_world sh)) = (Done (Inr v), app)"
    using registration_succeeds [of reg "app_touch w (sh_world sh)" w] reg place(3) daemon(3) net(2) by auto
  have ok: "answered (ci_wire ci) render (Inr v)" using net(3) r(1) unfolding results_answered_def by blast
  have "client_call (ci_wire ci) (ci_net ci) client Inr ''target.register'' (Inr (register_params_value reg)) (sh_world sh) =
      (Inr v, app)"
    unfolding client_call_def net(1)
    by (subst working_done [OF request(1) ok daemon(1) request(2) r(2)]) (simp add: client_outcome_def)
  then have "cli_register ci client t sh = Some (Inr (), sh\<lparr>sh_world := app\<rparr>)"
    by (simp add: cli_register_def cmd_then_def cmd_of_def cmd_client_def place(1) daemon(2))
  moreover have "a_kernels app = a_kernels (sh_world sh)"
    using register_kernels [OF r(2)] by (simp add: app_touch_def)
  ultimately show ?thesis using that register_done [OF r(2)] reg(1) by simp
qed

text \<open>Serialisation carries the answer when the command line reads the cell back.\<close>

definition reads_cell :: "'s cli \<Rightarrow> json_value json \<Rightarrow> (json_value response \<Rightarrow> string) \<Rightarrow> cell_result rpc_result \<Rightarrow> bool" where
  "reads_cell ci js render outcome \<longleftrightarrow>
     answered (ci_wire ci) render (execute_outcome js outcome) \<and>
     (\<forall>cell v. outcome = Inr cell \<longrightarrow> j_to_value js (V_Cell cell) = Inr v \<longrightarrow> ci_cell ci v = Inr cell)"

lemma client_reads_cell:
  assumes "reads_cell ci js render outcome" "serialises js"
  shows "client_outcome (ci_cell ci) (execute_outcome js outcome) = map_sum Rpc_Failed (\<lambda>c. c) outcome"
proof (cases outcome)
  case (Inr cell)
  obtain v where "j_to_value js (V_Cell cell) = Inr v" using assms(2) unfolding serialises_def by blast
  then show ?thesis
    using assms(1) Inr by (simp add: reads_cell_def client_outcome_def execute_outcome_def to_json_def rbind_def)
qed (simp add: client_outcome_def execute_outcome_def rbind_def)

text \<open>The command shows what its call is answered with, and nothing else.\<close>

lemma exec_shown:
  assumes args: "read_code ci args = Inr src" "args_target (ci_hostname ci) args = Inr t"
      "args_number args ''--timeout'' = Inr timeout"
    and connected: "cli_client ci sh = Some (Inr client, sh1)" "same_output sh sh1"
    and registered: "cli_register ci client t sh1 = Some (Inr (), sh1\<lparr>sh_world := app2\<rparr>)"
    and called: "call_with_timeout (ci_wire ci) (ci_net ci) client (ci_cell ci) ''kernel.execute''
      (Inr (exec_params t src timeout)) (exec_deadline timeout) app2 = (map_sum Rpc_Failed (\<lambda>c. c) outcome, app3)"
  shows "\<exists>sh'. cli_exec ci args sh = Some (map_sum (\<lambda>e. client_error_display (Rpc_Failed e)) cell_outcome outcome, sh') \<and>
    sh_world sh' = app3 \<and>
    (case outcome of
       Inl e \<Rightarrow> sh_out sh' = sh_out sh \<and> sh_err sh' = sh_err sh
     | Inr cell \<Rightarrow> sh_out sh' = sh_out sh @ cell_out cell \<and> sh_err sh' = sh_err sh @ cell_err cell)"
proof -
  note run = assms cli_exec_def cmd_then_def cmd_of_def cmd_client_def print_cell_def put_out_def put_err_def same_output_def
  show ?thesis
  proof (cases outcome)
    case (Inl e)
    then show ?thesis
      using run(1-7) by (intro exI [of _ "sh1\<lparr>sh_world := app3\<rparr>"]) (simp add: run(8-))
  next
    case (Inr cell)
    then show ?thesis
      using run(1-7)
      by (intro exI [of _ "sh1\<lparr>sh_world := app3, sh_out := sh_out sh1 @ cell_out cell,
          sh_err := sh_err sh1 @ cell_err cell\<rparr>"]) (simp add: run(8-))
  qed
qed

text \<open>
  C12. \<open>recurse exec\<close> against the daemon, from the arguments to the exit code: once it is connected, it
  registers its target and sends the cell; when the daemon accepts the cell and its call is polled
  twelve times with a timer that has fired and room in the channel, among any other work of the
  manager and before the client gives up, the call is answered exactly once. A cell comes back within
  the bounds of the wire, is printed to the two streams, and gives the exit code; an error is the
  message of the command, and nothing is printed.
\<close>

theorem exec_answered:
  assumes net: "ci_net ci = working_net w render meanwhile" "serialises (w_json w)"
      "results_answered (ci_wire ci) render (w_json w)"
    and args: "read_code ci args = Inr src" "args_target (ci_hostname ci) args = Inr t"
      "args_number args ''--timeout'' = Inr timeout"
    and place: "ci_cwd ci = Inr cwd" "ci_lossy ci cwd \<noteq> []"
    and connected: "cli_client ci sh = Some (Inr client, sh1)" "sh_world sh1 = app" "same_token client app"
    and registration: "reg = cli_register_params ci cwd t"
      "length (targets (core_registry (app_core app))) < REGISTERED_TARGETS"
      "carried (ci_wire ci) (w_json w) ''target.register'' (register_params_value reg)"
      "request_parse (w_json w) ''target.register'' (Some (register_params_value reg)) = Inr (TargetRegister reg)"
    and request: "carried (ci_wire ci) (w_json w) ''kernel.execute'' (exec_params t src timeout)"
      "request_parse (w_json w) ''kernel.execute'' (Some (exec_params t src timeout)) = Inr (KernelExecute p)"
      "ex_target p = t"
    and manager: "reach (\<lambda>m. m = manager_default) (manager_step allowed) (a_kernels app)"
      "execute_begin (o_cell_timeout_sec (a_options app)) (Some rd) p (a_kernels app) = (Inr i, m1)"
      "\<forall>l \<in> set (meanwhile i). l \<noteq> Cancel i" "12 \<le> helped apply_label (presses i) (meanwhile i) m1"
    and cells: "\<forall>(j, r) \<in> set (m_replies (fold apply_label (meanwhile i) m1)). j = i \<longrightarrow> reads_cell ci (w_json w) render r"
  shows "\<exists>outcome sh'.
    cli_exec ci args sh = Some (map_sum (\<lambda>e. client_error_display (Rpc_Failed e)) cell_outcome outcome, sh') \<and>
    a_kernels (sh_world sh') = fold apply_label (meanwhile i) m1 \<and>
    (\<forall>r. (i, r) \<in> set (m_replies (a_kernels (sh_world sh'))) \<longleftrightarrow> r = outcome) \<and>
    (case outcome of
       Inl e \<Rightarrow> sh_out sh' = sh_out sh \<and> sh_err sh' = sh_err sh
     | Inr cell \<Rightarrow> within_bounds cell \<and> sh_out sh' = sh_out sh @ cell_out cell \<and> sh_err sh' = sh_err sh @ cell_err cell)"
proof -
  have t: "target_is_valid (ex_target p)" using args_target_valid [OF args(2)] request(3) by simp
  have same: "same_output sh sh1" using silent_connect [of ci] connected(1) by (auto simp: silent_def)
  obtain app2 where app2: "cli_register ci client t sh1 = Some (Inr (), sh1\<lparr>sh_world := app2\<rparr>)"
      "record_of (core_registry (app_core app2)) t \<noteq> None" "a_options app2 = a_options app" "a_kernels app2 = a_kernels app"
    using register_against_daemon [OF net place args_target_valid [OF args(2)] _ registration(1) _ registration(3,4), of client sh1]
      connected(2,3) registration(2) by auto
  have daemon: "same_token client app2" "record_of (core_registry (app_core app2)) (ex_target p) \<noteq> None"
    using connected(3) app2(2,3) request(3) by (simp_all add: same_token_def)
  have reads: "reads_cell ci (w_json w) render r" if "(i, r) \<in> set (m_replies (fold apply_label (meanwhile i) m1))" for r
    using cells that by (auto dest!: bspec)
  then have sent: "answered (ci_wire ci) render (execute_outcome (w_json w) r)"
    if "(i, r) \<in> set (m_replies (fold apply_label (meanwhile i) m1))" for r
    using that by (simp add: reads_cell_def)
  obtain outcome where call: "call_with_timeout (ci_wire ci) (ci_net ci) client (ci_cell ci) ''kernel.execute''
      (Inr (exec_params t src timeout)) (exec_deadline timeout) app2 =
        (client_outcome (ci_cell ci) (execute_outcome (w_json w) outcome),
         (app_touch w app2)\<lparr>a_kernels := fold apply_label (meanwhile i) m1\<rparr>)"
    and answer: "\<And>r. (i, r) \<in> set (m_replies (fold apply_label (meanwhile i) m1)) \<longleftrightarrow> r = outcome"
      "\<And>cell. outcome = Inr cell \<Longrightarrow> within_bounds cell"
    using execute_called [OF request(1,2) t daemon, of allowed rd i m1 meanwhile render "ci_cell ci" "exec_deadline timeout"]
      app2(3,4) manager sent unfolding net(1) by auto
  have "reads_cell ci (w_json w) render outcome" using reads answer(1) by blast
  then have "call_with_timeout (ci_wire ci) (ci_net ci) client (ci_cell ci) ''kernel.execute''
      (Inr (exec_params t src timeout)) (exec_deadline timeout) app2 =
        (map_sum Rpc_Failed (\<lambda>c. c) outcome, (app_touch w app2)\<lparr>a_kernels := fold apply_label (meanwhile i) m1\<rparr>)"
    using call client_reads_cell [OF _ net(2)] by simp
  from exec_shown [OF args connected(1) same app2(1) this] show ?thesis
    using answer by (cases outcome) (auto intro!: exI [of _ outcome])
qed

section \<open>Witness\<close>

text \<open>
  A daemon without kernels: the launch gives pid 7, the kernel gets ready and answers, and the polls of
  the call come with a timer that has fired whenever they may.
\<close>

definition exec_json :: "json_value json" where
  "exec_json = box_json
     \<lparr>j_envelope := (\<lambda>v. Inr (if v = J_String ''target.register''
          then \<lparr>q_id = Some (J_Int 1), q_method = ''target.register'',
                q_params = Some (register_params_value (cli_register_params box_cli ''/tmp'' box))\<rparr>
          else \<lparr>q_id = Some (J_Int 1),
                q_method = (case v of J_String meth \<Rightarrow> meth | _ \<Rightarrow> []),
                q_params = (if v = J_String ''kernel.execute'' then Some (exec_params box ''1 + 1'' None)
                            else Some (json_object []))\<rparr>)),
      j_register := (\<lambda>_. Inr (cli_register_params box_cli ''/tmp'' box)),
      j_execute := (\<lambda>_. Inr \<lparr>ex_target = box, ex_code = ''1 + 1'', ex_timeout_sec = None\<rparr>)\<rparr>"

definition exec_world :: "json_value world" where
  "exec_world = box_world\<lparr>w_json := exec_json\<rparr>"

definition exec_cell :: cell_result where
  "exec_cell = (cell_result_empty Cell_Ok 1 5)\<lparr>cr_result := Some ''2''\<rparr>"

definition exec_poll :: poll_env where
  "exec_poll = \<lparr>pe_timer = True, pe_elapsed = 0, pe_launched = Inr (7, 0), pe_ready_sec = 10\<rparr>"

definition exec_meanwhile :: "nat \<Rightarrow> json_value label list" where
  "exec_meanwhile i =
     [Poll i exec_poll, Poll i exec_poll, Poll i exec_poll,
      From_Process 0 (Ready 7 ''3.12'' KERNEL_PROTOCOL_VERSION),
      Poll i exec_poll, Poll i exec_poll, Poll i exec_poll,
      From_Process 0 (ExecuteResult ''x1'' exec_cell),
      Poll i exec_poll, Poll i exec_poll, Poll i exec_poll, Poll i exec_poll, Poll i exec_poll, Poll i exec_poll]"

definition exec_cli :: "json_value app cli" where
  "exec_cli = box_cli
     \<lparr>ci_wire := box_wire\<lparr>wi_request := (\<lambda>rq. Inr (q_method rq)),
        wi_health := (\<lambda>_. Inr \<lparr>hr_ok = True, hr_name = DAEMON_NAME, hr_version = VERSION,
          hr_protocol = PROTOCOL_VERSION, hr_pid = 1, hr_started_at = 0\<rparr>)\<rparr>,
      ci_net := working_net exec_world (\<lambda>_. ''ok'') exec_meanwhile,
      ci_cell := (\<lambda>_. Inr (enforce_bounds exec_cell))\<rparr>"

definition exec_begun :: "json_value manager" where
  "exec_begun = snd (execute_begin 600
     (Some (\<lparr>tr_target = box, tr_cwd = ''/tmp'', tr_host = \<lparr>h_name = Host_Cli, h_version = None, h_supports_children = False\<rparr>,
             tr_model = None\<rparr>, 0))
     \<lparr>ex_target = box, ex_code = ''1 + 1'', ex_timeout_sec = None\<rparr> manager_default)"

lemmas exec_eval = exec_begun_def exec_meanwhile_def exec_poll_def box_def manager_eval dec_one on_result_def
  finish_cell_def

lemma exec_replies: "m_replies (fold apply_label (exec_meanwhile 0) exec_begun) = [(0, Inr (enforce_bounds exec_cell))]"
  by (simp add: exec_eval)

lemma exec_helped: "12 \<le> helped apply_label (presses 0) (exec_meanwhile 0) exec_begun"
  by (simp add: exec_eval has_room_def)

definition exec_client :: client where
  "exec_client = \<lparr>cl_base_url = trim_end_matches CHR ''/'' (default_url (\<lambda>_. None)), cl_token = None\<rparr>"

definition exec_args :: args where
  "exec_args = \<lparr>ar_positional = [], ar_flags = [(''-c'', ''1 + 1'')]\<rparr>"

definition exec_touched :: "json_value app" where
  "exec_touched = app_touch exec_world box_app"

lemma exec_answers: "answered (ci_wire exec_cli) (\<lambda>_. ''ok'') (Inr J_Null)"
  by (simp add: answered_def reply_def exec_cli_def box_wire_def Let_def)

lemma exec_carried:
  "carried (ci_wire exec_cli) (w_json exec_world) ''health'' (json_object [])"
  "carried (ci_wire exec_cli) (w_json exec_world) ''target.register''
     (register_params_value (cli_register_params exec_cli ''/tmp'' box))"
  "carried (ci_wire exec_cli) (w_json exec_world) ''kernel.execute'' (exec_params box ''1 + 1'' None)"
  by (simp_all add: carried_def exec_cli_def box_wire_def exec_world_def exec_json_def box_json_def RPC_BODY_def
      cli_register_params_def box_cli_def)

lemma exec_parsed:
  "request_parse (w_json exec_world) ''health'' (Some (json_object [])) = Inr Health"
  "request_parse (w_json exec_world) ''target.register''
     (Some (register_params_value (cli_register_params exec_cli ''/tmp'' box))) =
   Inr (TargetRegister (cli_register_params exec_cli ''/tmp'' box))"
  "request_parse (w_json exec_world) ''kernel.execute'' (Some (exec_params box ''1 + 1'' None)) =
     Inr (KernelExecute \<lparr>ex_target = box, ex_code = ''1 + 1'', ex_timeout_sec = None\<rparr>)"
  by (simp_all add: request_parse_def parse_params_def exec_world_def exec_json_def box_world_def box_json_def
      json_is_null_def json_object_def register_params_value_def exec_params_def exec_cli_def cli_register_params_def
      box_cli_def)

lemma exec_connected:
  "cli_client exec_cli box_shell = Some (Inr exec_client, box_shell\<lparr>sh_world := exec_touched\<rparr>)"
proof -
  have dispatch: "rpc_dispatch exec_world Health (app_touch exec_world box_app) = (Done (Inr J_Null), exec_touched)"
    by (simp add: rpc_dispatch_def dispatch_request_def to_json_def exec_touched_def exec_world_def exec_json_def box_json_def)
  have token: "same_token exec_client box_app" by (simp add: same_token_def exec_client_def box_app_def options_new_def)
  have net: "ci_net exec_cli = working_net exec_world (\<lambda>_. ''ok'') exec_meanwhile" by (simp add: exec_cli_def)
  have "call_with_timeout (ci_wire exec_cli) (ci_net exec_cli) exec_client (wi_health (ci_wire exec_cli)) ''health''
      (Inr (json_object [])) 2000 box_app =
    (client_outcome (wi_health (ci_wire exec_cli)) (Inr J_Null), exec_touched)"
    unfolding net by (rule working_done [OF exec_carried(1) exec_answers token exec_parsed(1) dispatch])
  then have "\<exists>found. client_health (ci_wire exec_cli) (ci_net exec_cli) exec_client box_app = (Inr found, exec_touched)"
    by (simp add: client_health_def client_outcome_def exec_cli_def box_wire_def)
  moreover have "client_from_env (ci_build exec_cli) (ci_vars exec_cli) = Inr exec_client"
    by (simp add: client_from_env_def client_new_def exec_client_def exec_cli_def box_cli_def env_utf8_def)
  ultimately show ?thesis by (auto simp: cli_client_def connect_or_spawn_def box_shell_def)
qed

lemma exec_simps:
  "ci_net exec_cli = working_net exec_world (\<lambda>_. ''ok'') exec_meanwhile"
  "serialises (w_json exec_world)" "ci_cwd exec_cli = Inr ''/tmp''" "ci_lossy exec_cli ''/tmp'' \<noteq> []"
  "results_answered (ci_wire exec_cli) (\<lambda>_. ''ok'') (w_json exec_world)"
  "read_code exec_cli exec_args = Inr ''1 + 1''"
  "args_target (ci_hostname exec_cli) exec_args = Inr box"
  "args_number exec_args ''--timeout'' = Inr None"
  using box_facts(1)
  by (simp_all add: exec_cli_def exec_world_def exec_json_def box_world_def box_json_def box_cli_def serialises_def
      results_answered_def answered_def reply_def box_wire_def Let_def exec_args_def read_code_def args_value_def
      args_target_def args_number_def rbind_def hostname_def box_def utf8_step_def target_is_valid_def)

lemma exec_app:
  "a_kernels exec_touched = manager_default" "a_options exec_touched = a_options box_app"
  "app_core exec_touched = app_core box_app" "o_cell_timeout_sec (a_options box_app) = 600"
  "same_token exec_client exec_touched"
  "length (targets (core_registry (app_core exec_touched))) < REGISTERED_TARGETS"
  by (simp_all add: exec_touched_def app_touch_def box_app_def options_new_def same_token_def exec_client_def
      core_default_def registry_default_def REGISTERED_TARGETS_def)

lemma exec_read: "reads_cell exec_cli (w_json exec_world) (\<lambda>_. ''ok'') (Inr (enforce_bounds exec_cell))"
  using exec_answers
  by (simp add: reads_cell_def execute_outcome_def rbind_def to_json_def exec_world_def exec_json_def box_json_def)
    (simp add: exec_cli_def)

lemma exec_printed: "cell_out (enforce_bounds exec_cell) = ''2'' @ [newline]" "cell_outcome (enforce_bounds exec_cell) = 0"
proof -
  have "within_bounds exec_cell"
    by (simp add: within_bounds_def exec_cell_def cell_result_empty_def CELL_STREAM_def CELL_RESULT_def)
  then have "enforce_bounds exec_cell = exec_cell" by (rule enforce_bounds_fit)
  then show "cell_out (enforce_bounds exec_cell) = ''2'' @ [newline]" "cell_outcome (enforce_bounds exec_cell) = 0"
    by (simp_all add: exec_cell_def cell_result_empty_def cell_out_def cell_outcome_def SUCCESS_def)
qed

theorem exec_answered_witness:
  "\<exists>sh'. cli_exec exec_cli exec_args box_shell = Some (Inr 0, sh') \<and> sh_out sh' = ''2'' @ [newline]"
proof -
  let ?rd = "(\<lparr>tr_target = box, tr_cwd = ''/tmp'', tr_host = \<lparr>h_name = Host_Cli, h_version = None, h_supports_children = False\<rparr>,
    tr_model = None\<rparr>, 0)"
  have begun: "execute_begin (o_cell_timeout_sec (a_options exec_touched)) (Some ?rd)
      \<lparr>ex_target = box, ex_code = ''1 + 1'', ex_timeout_sec = None\<rparr> (a_kernels exec_touched) = (Inr 0, exec_begun)"
  proof -
    show ?thesis
      unfolding prod_eq_iff exec_app exec_begun_def by (simp add: manager_eval)
  qed
  have "\<exists>outcome sh'.
    cli_exec exec_cli exec_args box_shell =
      Some (map_sum (\<lambda>e. client_error_display (Rpc_Failed e)) cell_outcome outcome, sh') \<and>
    a_kernels (sh_world sh') = fold apply_label (exec_meanwhile 0) exec_begun \<and>
    (\<forall>r. (0, r) \<in> set (m_replies (a_kernels (sh_world sh'))) \<longleftrightarrow> r = outcome) \<and>
    (case outcome of
       Inl e \<Rightarrow> sh_out sh' = sh_out box_shell \<and> sh_err sh' = sh_err box_shell
     | Inr cell \<Rightarrow> within_bounds cell \<and> sh_out sh' = sh_out box_shell @ cell_out cell \<and>
         sh_err sh' = sh_err box_shell @ cell_err cell)"
  proof (rule exec_answered [where w = exec_world and render = "\<lambda>_. ''ok''" and meanwhile = exec_meanwhile and
        client = exec_client and t = box and src = "''1 + 1''" and timeout = None and cwd = "''/tmp''" and rd = ?rd])
    show "cli_client exec_cli box_shell = Some (Inr exec_client, box_shell\<lparr>sh_world := exec_touched\<rparr>)"
      by (rule exec_connected)
    show "reach (\<lambda>m. m = manager_default) (manager_step (\<lambda>_. True)) (a_kernels exec_touched)"
      by (simp add: exec_app reach_init)
    show "\<forall>(j, r) \<in> set (m_replies (fold apply_label (exec_meanwhile 0) exec_begun)). j = 0 \<longrightarrow>
        reads_cell exec_cli (w_json exec_world) (\<lambda>_. ''ok'') r"
      by (simp add: exec_replies exec_read)
    show "\<forall>l \<in> set (exec_meanwhile 0). l \<noteq> Cancel 0" by (simp add: exec_meanwhile_def)
  qed (rule refl exec_simps exec_app exec_carried exec_parsed begun exec_helped | simp)+
  then obtain outcome sh' where run: "cli_exec exec_cli exec_args box_shell =
      Some (map_sum (\<lambda>e. client_error_display (Rpc_Failed e)) cell_outcome outcome, sh')"
    and kernels: "a_kernels (sh_world sh') = fold apply_label (exec_meanwhile 0) exec_begun"
    and one: "\<forall>r. (0, r) \<in> set (m_replies (a_kernels (sh_world sh'))) \<longleftrightarrow> r = outcome"
    and out: "case outcome of
       Inl e \<Rightarrow> sh_out sh' = sh_out box_shell \<and> sh_err sh' = sh_err box_shell
     | Inr cell \<Rightarrow> within_bounds cell \<and> sh_out sh' = sh_out box_shell @ cell_out cell \<and>
         sh_err sh' = sh_err box_shell @ cell_err cell"
    by blast
  have "outcome = Inr (enforce_bounds exec_cell)"
    using one unfolding kernels exec_replies by simp
  with run out show ?thesis by (simp add: exec_printed) (simp add: box_shell_def)
qed

end
