(* ===== verification/Tool_Props.thy ===== *)
theory Tool_Props
  imports Exec_Props
begin

text \<open>
  The \<open>ipython\<close> tool of the MCP server against the daemon: one line of the host, the request of the
  session, the cell in the kernel manager among all its other work, the list of queued events, and the
  line that is written back.
\<close>

section \<open>How a call can fail\<close>

text \<open>The error a stage is about to answer with.\<close>

definition stage_error :: "call_stage \<Rightarrow> rpc_error option" where
  "stage_error st =
     (case st of
        Release (Inl e) \<Rightarrow> Some e
      | In_Cell kid cell (Finish (Inl e)) \<Rightarrow> Some e
      | _ \<Rightarrow> None)"

definition fails_as :: "(rpc_error \<Rightarrow> bool) \<Rightarrow> nat \<Rightarrow> 'v manager \<Rightarrow> bool" where
  "fails_as P i m \<longleftrightarrow>
     (\<forall>e. (i, Inl e) \<in> set (m_replies m) \<longrightarrow> P e) \<and>
     (\<forall>c e. m_call m i = Some c \<longrightarrow> stage_error (call_stage c) = Some e \<longrightarrow> P e)"

text \<open>Errors of a launch come from outside; those of the daemon itself say that the kernel is unavailable.\<close>

definition launches_as :: "(rpc_error \<Rightarrow> bool) \<Rightarrow> 'v label \<Rightarrow> bool" where
  "launches_as P l \<longleftrightarrow> (\<forall>j env e. l = Poll j env \<longrightarrow> pe_launched env = Inl e \<longrightarrow> P e)"

lemma fails_as_same:
  "fails_as P i m \<Longrightarrow> m_replies m' = m_replies m \<Longrightarrow> m_call m' i = m_call m i \<or> m_call m' i = None \<Longrightarrow> fails_as P i m'"
  by (auto simp: fails_as_def)

lemma fails_as_frames [simp]:
  "fails_as P i (on_kernel kid f m) = fails_as P i m" "fails_as P i (set_slot_kernel s k m) = fails_as P i m"
  "fails_as P i (set_busy s b m) = fails_as P i m"
  by (simp_all add: fails_as_def)

lemma fails_as_stage:
  assumes "fails_as P i m" "\<And>e. j = i \<Longrightarrow> stage_error st = Some e \<Longrightarrow> P e"
  shows "fails_as P i (set_stage j st m)"
  using assms by (auto simp: fails_as_def set_stage_def split: option.splits if_splits)

lemma poll_cell_error:
  assumes "\<And>s. P (unavailable s)" "poll_cell cell src t timer el st k = (st', k')" "stage_error (In_Cell kid cell st') = Some e"
    and "\<And>e. stage_error (In_Cell kid cell st) = Some e \<Longrightarrow> P e"
  shows "P e"
  using assms by (auto simp: poll_cell_def stage_error_def split: cell_stage.splits chan.splits if_splits)

lemma fails_as_poll_in_cell:
  assumes P: "\<And>s. P (unavailable s)" and inv: "fails_as P i m"
    and c: "m_call m j = Some c" "call_stage c = In_Cell kid cell st" and k: "m_kernel m kid = Some k"
  shows "fails_as P i (poll_call env j m)"
proof -
  have now: "P e" if "j = i" "stage_error (In_Cell kid cell st) = Some e" for e
    using inv that c unfolding fails_as_def by auto
  show ?thesis
  proof (cases "finished st")
    case True
    then obtain out where "st = Finish out" by (cases st) auto
    with c k inv now show ?thesis
      by (auto simp: poll_call_def finish_cell_def stage_error_def Let_def split: sum.splits intro!: fails_as_stage)
  next
    case False
    obtain st' k' where pc: "poll_cell cell (call_code c) (call_timeout c) (pe_timer env)
        (pe_elapsed env) st k = (st', k')" by fastforce
    have "poll_call env j m = set_stage j (In_Cell kid cell st') (on_kernel kid (\<lambda>_. k') m)"
      using False c k pc by (cases st) (simp_all add: poll_call_def)
    then show ?thesis
      using poll_cell_error [of P, OF P pc] now inv by (auto intro!: fails_as_stage)
  qed
qed

lemma fails_as_poll:
  assumes P: "\<And>s. P (unavailable s)" and launch: "\<And>e. pe_launched env = Inl e \<Longrightarrow> P e" and inv: "fails_as P i m"
  shows "fails_as P i (poll_call env j m)"
proof (cases "m_call m j")
  case None
  then show ?thesis using inv by (simp add: poll_call_def)
next
  case (Some c)
  have now: "P e" if "j = i" "stage_error (call_stage c) = Some e" for e
    using inv that Some unfolding fails_as_def by blast
  show ?thesis
  proof (cases "call_stage c")
    case Launch
    have "fails_as P i (m\<lparr>m_kernel := f, m_next_kernel := n\<rparr>)" for f n
      by (rule fails_as_same [OF inv]) simp_all
    with Some Launch inv launch show ?thesis
      by (auto simp: poll_call_def Let_def stage_error_def split: sum.splits intro!: fails_as_stage)
  next
    case (Start_Cell kid)
    have "P e" if "fst (begin_cell k) = Inl e" for k :: "'a kernel" and e
      using that P by (auto simp: begin_cell_def Let_def split: if_splits)
    with Some Start_Cell inv show ?thesis
      by (auto simp: poll_call_def stage_error_def split: option.splits prod.splits sum.splits intro!: fails_as_stage)
        (metis fst_conv)
  next
    case (In_Cell kid cell st)
    with Some inv fails_as_poll_in_cell [OF P inv Some In_Cell] show ?thesis
      by (cases "m_kernel m kid") (simp_all add: poll_call_def)
  next
    case (Release r)
    have "P e" if "r = Inl e" "j = i" for e using now [OF that(2)] Release that(1) by (simp add: stage_error_def)
    with Some Release inv show ?thesis by (auto simp: poll_call_def fails_as_def)
  qed (use Some inv P in \<open>auto simp: poll_call_def stage_error_def split: option.splits bind_splits chan.splits
      intro!: fails_as_stage\<close>)
qed

lemma fails_as_label:
  assumes P: "\<And>s. P (unavailable s)" and l: "launches_as P l" and inv: "fails_as P i m"
  shows "fails_as P i (apply_label l m)"
proof (cases l)
  case (Begin d reg params)
  show ?thesis
  proof (cases rule: execute_begin_cases [of d reg params m])
    case (refused e)
    obtain s m' where sm: "slot_for (ex_target params) m = (s, m')" by fastforce
    with refused(2) Begin show ?thesis using slot_for_frame [OF sm] by (auto intro: fails_as_same [OF inv])
  next
    case (started s m' c)
    then show ?thesis
      using Begin inv slot_for_frame [OF started(1)] by (auto simp: fails_as_def stage_error_def)
  qed
next
  case (Poll j env)
  then show ?thesis using l fails_as_poll [OF P _ inv, of env j] by (simp add: launches_as_def)
next
  case (Cancel j)
  have "fails_as P i ((set_busy s b m)\<lparr>m_call := (m_call m)(j := None)\<rparr>)" for s b
    by (rule fails_as_same [OF inv]) auto
  then show ?thesis using Cancel inv by (simp add: cancel_call_def split: option.splits)
next
  case (Interrupt_Target t)
  then show ?thesis using inv by (simp add: manager_interrupt_def split: option.splits)
next
  case (Restart t)
  then show ?thesis using inv by (auto simp: manager_restart_def stop_kernel_def split: option.splits)
next
  case (Shutdown_Target t)
  have "fails_as P i (m\<lparr>m_slots := x\<rparr>)" for x by (rule fails_as_same [OF inv]) simp_all
  then show ?thesis
    using Shutdown_Target inv by (auto simp: shutdown_target_def stop_kernel_def split: option.splits)
next
  case Stop_All
  have "fails_as P i m \<Longrightarrow> fails_as P i (fold (\<lambda>kid. on_kernel kid f) kids m)" for kids f
    by (induction kids arbitrary: m) simp_all
  then show ?thesis using Stop_All inv by (simp add: stop_all_def)
qed (use inv in simp_all)

lemma fails_as_run:
  assumes "\<And>s. P (unavailable s)"
  shows "\<forall>l \<in> set ls. launches_as P l \<Longrightarrow> fails_as P i m \<Longrightarrow> fails_as P i (fold apply_label ls m)"
  by (induction ls arbitrary: m) (simp_all add: fails_as_label assms)

text \<open>A call that was just accepted has not failed yet.\<close>

lemma accepted_fails_as:
  assumes "replies_inv m" "execute_begin dflt reg p m = (Inr i, m1)"
  shows "fails_as P i m1"
proof (cases rule: execute_begin_cases [of dflt reg p m])
  case (refused e)
  with assms(2) show ?thesis by simp
next
  case (started s m' c)
  have "i \<notin> fst ` set (m_replies m)"
    using started(5) slot_for_frame [OF started(1)] assms unfolding replies_inv_def by force
  then have "(i, r) \<notin> set (m_replies m)" for r by force
  then show ?thesis
    using started slot_for_frame [OF started(1)] assms(2) by (auto simp: fails_as_def stage_error_def)
qed

section \<open>The tool\<close>

text \<open>A line of the host that asks for a cell, as the decoders read it.\<close>

definition asks_cell :: "'s mcp \<Rightarrow> string \<Rightarrow> json_value \<Rightarrow> ipython_args \<Rightarrow> bool" where
  "asks_cell mc line rid args \<longleftrightarrow>
     (\<exists>request params arguments.
        mc_from_str mc line = Inr request \<and> json_get request ''id'' = Some rid \<and>
        Option.bind (json_get request ''method'') json_as_str = Some ''tools/call'' \<and>
        json_get request ''params'' = Some params \<and>
        mc_call_params mc params = Inr \<lparr>cp_name = ''ipython'', cp_arguments = arguments\<rparr> \<and>
        \<not> json_is_null arguments \<and> mc_ipython mc arguments = Inr args)"

definition cell_params :: "session \<Rightarrow> ipython_args \<Rightarrow> json_value" where
  "cell_params se args =
     json_object [(''target'', target_value (se_target se)), (''code'', J_String (ip_code args)),
       (''timeout_sec'', J_Int (uint (ipython_timeout (ip_timeout_sec args))))]"

text \<open>What the host is to read: the cell, and a line about the events that are queued.\<close>

definition tool_answer :: "cell_result rpc_result \<Rightarrow> event list \<Rightarrow> json_value" where
  "tool_answer outcome events =
     (case outcome of
        Inl e \<Rightarrow> tool_failure (Rpc_Failed e)
      | Inr cell \<Rightarrow>
          tool_text
            (format_cell cell @
              (case pending_events events of None \<Rightarrow> [] | Some notice \<Rightarrow> [newline, newline] @ notice))
            (cell_is_error cell))"

text \<open>The answers that come back over the network, each as it was sent.\<close>

definition reads_tool :: "'s mcp \<Rightarrow> json_value json \<Rightarrow> (json_value response \<Rightarrow> string) \<Rightarrow> cell_result rpc_result \<Rightarrow> bool" where
  "reads_tool mc js render outcome \<longleftrightarrow>
     answered (mc_wire mc) render (execute_outcome js outcome) \<and>
     (\<forall>cell v. outcome = Inr cell \<longrightarrow> j_to_value js (V_Cell cell) = Inr v \<longrightarrow> mc_cell mc v = Inr cell)"

lemma tool_reads_back:
  assumes "reads_tool mc js render outcome" "serialises js"
  shows "client_outcome (mc_cell mc) (execute_outcome js outcome) = map_sum Rpc_Failed (\<lambda>c. c) outcome"
proof (cases outcome)
  case (Inr cell)
  obtain v where "j_to_value js (V_Cell cell) = Inr v" using assms(2) unfolding serialises_def by blast
  then show ?thesis
    using assms(1) Inr by (simp add: reads_tool_def client_outcome_def execute_outcome_def to_json_def rbind_def)
qed (simp add: client_outcome_def execute_outcome_def rbind_def)

lemma handle_cell_line:
  assumes "asks_cell mc line rid args"
  shows "handle_line mc line st =
    map_option (\<lambda>(v, st'). (Some (result_response rid v), st')) (ipython mc args st)"
  using assms
  by (cases st; cases "ipython mc args st")
    (auto simp: asks_cell_def handle_line_def tools_call_def parse_arguments_def mcall_ok_def mcp_answer_def)

lemma session_call_first:
  assumes "se_client se = Some client"
    and "call_with_timeout (mc_wire mc) (mc_net mc) client decode meth (Inr params) timeout s = (r, s')"
    and "\<And>e. r = Inl e \<Longrightarrow> client_error_code e \<noteq> Some NotFound \<or> \<not> starts_with ''kernel.'' meth"
  shows "session_call mc decode meth params timeout (se, s) = Some (r, se, s')"
  using assms by (cases r) (auto simp: session_call_def session_client_def)

lemma events_listed:
  assumes "serialises (w_json w)" "target_is_valid t"
  obtains v where "rpc_dispatch w (EventsList t) app = (Done (Inr v), app)"
    "j_to_value (w_json w) (V_Events (list_events (core_queue (app_core app)) t)) = Inr v"
proof -
  obtain v where "j_to_value (w_json w) (V_Events (list_events (core_queue (app_core app)) t)) = Inr v"
    using assms(1) unfolding serialises_def by blast
  then show ?thesis
    using that assms(2)
    by (simp add: rpc_dispatch_def check_target_def dispatch_request_def dispatch_children_and_events_def completed_def to_json_def)
qed

text \<open>What is listed after the cell: the events queued for the target of the session.\<close>

lemma listed_after:
  assumes net: "mc_net mc = working_net w render meanwhile" "serialises (w_json w)"
      "results_answered (mc_wire mc) render (w_json w)"
    and session: "se_client se = Some client" "target_is_valid (se_target se)" "same_token client app"
    and request: "carried (mc_wire mc) (w_json w) ''events.list'' (session_target se)"
      "request_parse (w_json w) ''events.list'' (Some (session_target se)) = Inr (EventsList (se_target se))"
    and decoded: "\<And>v. j_to_value (w_json w) (V_Events es) = Inr v \<Longrightarrow> mc_events mc v = Inr es"
    and es: "es = list_events (core_queue (app_core app)) (se_target se)"
  shows "session_call mc (mc_events mc) ''events.list'' (session_target se) timeout (se, app) =
    Some (Inr es, se, app_touch w app)"
proof -
  obtain v where v: "rpc_dispatch w (EventsList (se_target se)) (app_touch w app) = (Done (Inr v), app_touch w app)"
      "j_to_value (w_json w) (V_Events es) = Inr v"
    using events_listed [OF net(2) session(2), of "app_touch w app"] es by auto
  have "answered (mc_wire mc) render (Inr v)" using net(3) v(2) unfolding results_answered_def by blast
  then have "call_with_timeout (mc_wire mc) (mc_net mc) client (mc_events mc) ''events.list'' (Inr (session_target se)) timeout app =
      (Inr es, app_touch w app)"
    using working_done [OF request(1) _ session(3) request(2) v(1), where decode = "mc_events mc"]
    by (simp add: net(1) client_outcome_def decoded [OF v(2)])
  then show ?thesis by (intro session_call_first [OF session(1)]) simp_all
qed

lemma ipython_from_calls:
  assumes "session_call mc (mc_cell mc) ''kernel.execute'' (cell_params se args)
      (ipython_deadline (ipython_timeout (ip_timeout_sec args))) (se, app) = Some (map_sum Rpc_Failed (\<lambda>c. c) outcome, se, app1)"
    and "session_call mc (mc_events mc) ''events.list'' (session_target se) DEFAULT_TIMEOUT (se, app1) = Some (Inr es, se, app2)"
  shows "ipython mc args (se, app) = Some (tool_answer outcome es, se, if isl outcome then app1 else app2)"
  using assms by (cases outcome) (simp_all add: ipython_def cell_params_def tool_answer_def Let_def)

text \<open>
  C13. The \<open>ipython\<close> tool against the daemon, from the line of the host to the line that goes back:
  when the daemon accepts the cell and its call is polled twelve times with a timer that has fired and
  room in the channel, among any other work of the manager, the call is answered exactly once and the
  line is answered with its id. A cell comes back within the bounds of the wire, formatted, with a line
  about the events that are queued; an error of the call is the text of a failed tool.
\<close>

theorem ipython_answered:
  assumes net: "mc_net mc = working_net w render meanwhile" "serialises (w_json w)"
      "results_answered (mc_wire mc) render (w_json w)"
    and session: "se_client se = Some client" "target_is_valid (se_target se)" "same_token client app"
      "record_of (core_registry (app_core app)) (se_target se) \<noteq> None"
    and line: "asks_cell mc line rid args"
    and request: "carried (mc_wire mc) (w_json w) ''kernel.execute'' (cell_params se args)"
      "request_parse (w_json w) ''kernel.execute'' (Some (cell_params se args)) = Inr (KernelExecute p)"
      "ex_target p = se_target se"
    and events: "es = list_events (core_queue (app_core app)) (se_target se)"
      "carried (mc_wire mc) (w_json w) ''events.list'' (session_target se)"
      "request_parse (w_json w) ''events.list'' (Some (session_target se)) = Inr (EventsList (se_target se))"
      "\<forall>v. j_to_value (w_json w) (V_Events es) = Inr v \<longrightarrow> mc_events mc v = Inr es"
    and manager: "reach (\<lambda>m. m = manager_default) (manager_step allowed) (a_kernels app)"
      "execute_begin (o_cell_timeout_sec (a_options app)) (Some rd) p (a_kernels app) = (Inr i, m1)"
      "\<forall>l \<in> set (meanwhile i). l \<noteq> Cancel i" "12 \<le> helped apply_label (presses i) (meanwhile i) m1"
      "\<forall>l \<in> set (meanwhile i). launches_as (\<lambda>e. code e \<noteq> NotFound) l"
    and cells: "\<forall>(j, r) \<in> set (m_replies (fold apply_label (meanwhile i) m1)). j = i \<longrightarrow> reads_tool mc (w_json w) render r"
  shows "\<exists>outcome app'.
    handle_line mc line (se, app) = Some (Some (result_response rid (tool_answer outcome es)), se, app') \<and>
    a_kernels app' = fold apply_label (meanwhile i) m1 \<and> app_core app' = app_core app \<and>
    (\<forall>r. (i, r) \<in> set (m_replies (a_kernels app')) \<longleftrightarrow> r = outcome) \<and>
    (\<forall>cell. outcome = Inr cell \<longrightarrow> within_bounds cell)"
proof -
  let ?m = "fold apply_label (meanwhile i) m1"
  let ?app = "(app_touch w app)\<lparr>a_kernels := ?m\<rparr>"
  have place: "target_is_valid (ex_target p)" "record_of (core_registry (app_core app)) (ex_target p) \<noteq> None"
    using session(2,4) request(3) by simp_all
  have reads: "reads_tool mc (w_json w) render r" if "(i, r) \<in> set (m_replies ?m)" for r
    using cells that by (auto dest!: bspec)
  then have sent: "answered (mc_wire mc) render (execute_outcome (w_json w) r)" if "(i, r) \<in> set (m_replies ?m)" for r
    using that by (simp add: reads_tool_def)
  obtain outcome where call: "call_with_timeout (mc_wire mc) (mc_net mc) client (mc_cell mc) ''kernel.execute''
      (Inr (cell_params se args)) (ipython_deadline (ipython_timeout (ip_timeout_sec args))) app =
        (client_outcome (mc_cell mc) (execute_outcome (w_json w) outcome), ?app)"
    and answer: "\<And>r. (i, r) \<in> set (m_replies ?m) \<longleftrightarrow> r = outcome" "\<And>cell. outcome = Inr cell \<Longrightarrow> within_bounds cell"
    using execute_called [where meanwhile = meanwhile and i = i and render = render and decode = "mc_cell mc"
        and timeout = "ipython_deadline (ipython_timeout (ip_timeout_sec args))",
        OF request(1,2) place(1) session(3) place(2) manager(1-4)] sent net(1) by auto
  have outcome: "client_outcome (mc_cell mc) (execute_outcome (w_json w) outcome) = map_sum Rpc_Failed (\<lambda>c. c) outcome"
    using tool_reads_back reads answer(1) net(2) by blast
  have "fails_as (\<lambda>e. code e \<noteq> NotFound) i ?m"
    using manager(2,5) accepted_fails_as [OF replies.reach_inv [OF manager(1)]]
    by (intro fails_as_run) (simp_all add: unavailable_def rpc_error_new_def)
  then have code: "code e \<noteq> NotFound" if "outcome = Inl e" for e using answer(1) that unfolding fails_as_def by blast
  have first: "session_call mc (mc_cell mc) ''kernel.execute'' (cell_params se args)
      (ipython_deadline (ipython_timeout (ip_timeout_sec args))) (se, app) = Some (map_sum Rpc_Failed (\<lambda>c. c) outcome, se, ?app)"
  proof (rule session_call_first [OF session(1)])
    fix e
    assume "map_sum Rpc_Failed (\<lambda>c. c) outcome = Inl e"
    then show "client_error_code e \<noteq> Some NotFound \<or> \<not> starts_with ''kernel.'' ''kernel.execute''"
      using code by (cases outcome) auto
  qed (simp add: call outcome)
  have same: "app_core ?app = app_core app" by (simp add: app_touch_def)
  have second: "session_call mc (mc_events mc) ''events.list'' (session_target se) DEFAULT_TIMEOUT (se, ?app) =
      Some (Inr es, se, app_touch w ?app)"
    using listed_after [OF net session(1,2) _ events(2,3) _ , of ?app es] session(3) events(1,4) same
    by (simp add: same_token_def app_touch_def)
  show ?thesis
    using ipython_from_calls [OF first second] handle_cell_line [OF line] answer same
    by (auto simp: app_touch_def intro!: exI [of _ outcome])
qed

section \<open>Witness\<close>

definition tool_session :: session where
  "tool_session = \<lparr>se_target = box, se_cwd = ''/tmp'', se_client = Some exec_client\<rparr>"

definition tool_args :: ipython_args where
  "tool_args = \<lparr>ip_code = ''1 + 1'', ip_timeout_sec = None\<rparr>"

definition tool_json :: "json_value json" where
  "tool_json = exec_json
     \<lparr>j_envelope := (\<lambda>v. Inr \<lparr>q_id = Some (J_Int 1), q_method = (case v of J_String meth \<Rightarrow> meth | _ \<Rightarrow> []),
        q_params = Some (if v = J_String ''kernel.execute'' then cell_params tool_session tool_args
                         else session_target tool_session)\<rparr>)\<rparr>"

definition tool_world :: "json_value world" where
  "tool_world = box_world\<lparr>w_json := tool_json\<rparr>"

definition tool_record :: target_record where
  "tool_record = \<lparr>tr_target = box, tr_cwd = ''/tmp'',
     tr_host = \<lparr>h_name = Host_Cli, h_version = None, h_supports_children = False\<rparr>, tr_model = None\<rparr>"

definition tool_app :: "json_value app" where
  "tool_app = box_app\<lparr>a_state := (a_state box_app)\<lparr>st_core := (app_core box_app)
     \<lparr>core_registry := registry_default\<lparr>targets := [(target_key box, tool_record)]\<rparr>\<rparr>\<rparr>\<rparr>"

definition tool_mcp :: "json_value app mcp" where
  "tool_mcp =
     \<lparr>mc_wire = box_wire\<lparr>wi_request := (\<lambda>rq. Inr (q_method rq))\<rparr>,
      mc_net = working_net tool_world (\<lambda>_. ''ok'') exec_meanwhile,
      mc_host = \<lparr>ho_now = (\<lambda>_. 0), ho_sleep = (\<lambda>_ s. s), ho_exe = (\<lambda>_. Inl ''no''), ho_start = (\<lambda>_ s. (Inr (), s))\<rparr>,
      mc_build = Inr (), mc_vars = (\<lambda>_. None),
      mc_from_str = (\<lambda>_. Inr (json_object [(''id'', J_Int 7), (''method'', J_String ''tools/call''),
        (''params'', J_Bool True)])),
      mc_pretty = (\<lambda>_. ''{}''), mc_call_params = (\<lambda>_. Inr \<lparr>cp_name = ''ipython'', cp_arguments = J_Bool True\<rparr>),
      mc_ipython = (\<lambda>_. Inr tool_args), mc_ack = (\<lambda>_. Inl ''no''),
      mc_cell = (\<lambda>_. Inr (enforce_bounds exec_cell)), mc_events = (\<lambda>_. Inr [Cli_Props.demo_event])\<rparr>"

lemma tool_fields:
  "mc_net tool_mcp = working_net tool_world (\<lambda>_. ''ok'') exec_meanwhile" "serialises (w_json tool_world)"
  "results_answered (mc_wire tool_mcp) (\<lambda>_. ''ok'') (w_json tool_world)"
  "se_client tool_session = Some exec_client" "se_target tool_session = box"
  by (simp_all add: tool_mcp_def tool_session_def tool_world_def tool_json_def exec_json_def box_json_def serialises_def
      results_answered_def answered_def reply_def box_wire_def Let_def)

lemma tool_place:
  "same_token exec_client tool_app" "record_of (core_registry (app_core tool_app)) box \<noteq> None"
  "a_kernels tool_app = manager_default" "o_cell_timeout_sec (a_options tool_app) = 600"
  "app_core tool_app = (app_core box_app)\<lparr>core_registry := registry_default\<lparr>targets := [(target_key box, tool_record)]\<rparr>\<rparr>"
  by (simp_all add: tool_app_def box_app_def options_new_def same_token_def exec_client_def record_of_def)

lemma tool_asks: "asks_cell tool_mcp ''{}'' (J_Int 7) tool_args"
  by (simp add: asks_cell_def tool_mcp_def json_object_def json_is_null_def)

lemma tool_requests:
  "carried (mc_wire tool_mcp) (w_json tool_world) ''kernel.execute'' (cell_params tool_session tool_args)"
  "carried (mc_wire tool_mcp) (w_json tool_world) ''events.list'' (session_target tool_session)"
  "request_parse (w_json tool_world) ''kernel.execute'' (Some (cell_params tool_session tool_args)) =
     Inr (KernelExecute \<lparr>ex_target = box, ex_code = ''1 + 1'', ex_timeout_sec = None\<rparr>)"
  "request_parse (w_json tool_world) ''events.list'' (Some (session_target tool_session)) = Inr (EventsList box)"
  by (simp_all add: carried_def tool_mcp_def box_wire_def tool_world_def tool_json_def exec_json_def box_json_def
      box_world_def RPC_BODY_def request_parse_def parse_params_def json_is_null_def json_object_def cell_params_def
      session_target_def)

lemma tool_reads: "reads_tool tool_mcp (w_json tool_world) (\<lambda>_. ''ok'') (Inr (enforce_bounds exec_cell))"
  by (simp add: reads_tool_def execute_outcome_def rbind_def to_json_def tool_world_def tool_json_def exec_json_def
      box_json_def answered_def reply_def box_wire_def tool_mcp_def Let_def)

theorem ipython_answered_witness:
  "\<exists>app'. handle_line tool_mcp ''{}'' (tool_session, tool_app) =
     Some (Some (result_response (J_Int 7) (tool_answer (Inr (enforce_bounds exec_cell)) [Cli_Props.demo_event])),
       tool_session, app')"
proof -
  let ?p = "\<lparr>ex_target = box, ex_code = ''1 + 1'', ex_timeout_sec = None\<rparr>"
  have begun: "execute_begin (o_cell_timeout_sec (a_options tool_app)) (Some (tool_record, 0)) ?p (a_kernels tool_app) =
      (Inr 0, exec_begun)"
    unfolding prod_eq_iff tool_place exec_begun_def tool_record_def by (simp add: manager_eval)
  have es: "list_events (core_queue (app_core tool_app)) box = [Cli_Props.demo_event]"
    using box_queue by (simp add: tool_place)
  have "\<exists>outcome app'.
    handle_line tool_mcp ''{}'' (tool_session, tool_app) =
      Some (Some (result_response (J_Int 7) (tool_answer outcome [Cli_Props.demo_event])), tool_session, app') \<and>
    a_kernels app' = fold apply_label (exec_meanwhile 0) exec_begun \<and> app_core app' = app_core tool_app \<and>
    (\<forall>r. (0, r) \<in> set (m_replies (a_kernels app')) \<longleftrightarrow> r = outcome) \<and>
    (\<forall>cell. outcome = Inr cell \<longrightarrow> within_bounds cell)"
  proof (rule ipython_answered [where w = tool_world and render = "\<lambda>_. ''ok''" and meanwhile = exec_meanwhile and
        client = exec_client and args = tool_args and p = ?p and rd = "(tool_record, 0)" and allowed = "\<lambda>_. True"])
    show "\<forall>l \<in> set (exec_meanwhile 0). l \<noteq> Cancel 0" by (simp add: exec_meanwhile_def)
    show "\<forall>l \<in> set (exec_meanwhile 0). launches_as (\<lambda>e. code e \<noteq> NotFound) l"
      by (simp add: exec_meanwhile_def launches_as_def exec_poll_def)
    show "\<forall>(j, r) \<in> set (m_replies (fold apply_label (exec_meanwhile 0) exec_begun)). j = 0 \<longrightarrow>
        reads_tool tool_mcp (w_json tool_world) (\<lambda>_. ''ok'') r"
      by (simp add: exec_replies tool_reads)
    show "reach (\<lambda>m. m = manager_default) (manager_step (\<lambda>_. True)) (a_kernels tool_app)"
      by (simp add: tool_place reach_init)
    show "execute_begin (o_cell_timeout_sec (a_options tool_app)) (Some (tool_record, 0)) ?p (a_kernels tool_app) =
      (Inr 0, exec_begun)" by (rule begun)
  qed (use tool_fields tool_requests tool_asks es box_facts exec_helped in \<open>simp_all add: tool_place(1,2)\<close>,
      simp add: tool_mcp_def)
  then obtain outcome app' where run: "handle_line tool_mcp ''{}'' (tool_session, tool_app) =
      Some (Some (result_response (J_Int 7) (tool_answer outcome [Cli_Props.demo_event])), tool_session, app')"
    and one: "\<forall>r. (0, r) \<in> set (m_replies (a_kernels app')) \<longleftrightarrow> r = outcome"
    and kernels: "a_kernels app' = fold apply_label (exec_meanwhile 0) exec_begun" by blast
  have "outcome = Inr (enforce_bounds exec_cell)"
    using one unfolding kernels exec_replies by simp
  with run show ?thesis by blast
qed

end
