(* ===== verification/Recovery.thy ===== *)
theory Recovery
  imports Exec_Props
begin

text \<open>
  A session whose daemon has forgotten its target: \<open>Session::call\<close> registers the target again and
  repeats the request once, for every request on the kernel, cells included.
\<close>

section \<open>The repeated request\<close>

lemma registers_again:
  assumes "mc_net mc = working_net w render meanwhile" "same_token client app"
    and "register_request se = reg" "target_is_valid (reg_target reg)" "reg_cwd reg \<noteq> []"
    and "carried (mc_wire mc) (w_json w) ''target.register'' (register_params_value reg)"
    and "request_parse (w_json w) ''target.register'' (Some (register_params_value reg)) = Inr (TargetRegister reg)"
    and "length (targets (core_registry (app_core app))) < REGISTERED_TARGETS"
    and "serialises (w_json w)" "results_answered (mc_wire mc) render (w_json w)"
  shows "\<exists>app'. session_register mc client (se, app) = Some (Inr (), se, app') \<and>
    record_of (core_registry (app_core app')) (reg_target reg) \<noteq> None \<and> same_token client app'"
proof -
  obtain x v app' where r: "j_to_value (w_json w) x = Inr v"
      "rpc_dispatch w (TargetRegister reg) (app_touch w app) = (Done (Inr v), app')"
    using registration_succeeds [of reg "app_touch w app" w] assms(4,5,8,9) by auto
  have "answered (mc_wire mc) render (Inr v)" using assms(10) r(1) unfolding results_answered_def by blast
  from working_done [OF assms(6) this assms(2,7) r(2), where decode = Inr and timeout = DEFAULT_TIMEOUT]
  have "call_with_timeout (mc_wire mc) (mc_net mc) client Inr ''target.register''
      (Inr (register_params_value reg)) DEFAULT_TIMEOUT app = (Inr v, app')"
    by (simp add: assms(1) client_outcome_def)
  then show ?thesis
    using register_done [OF r(2)] assms(2,3) by (simp add: session_register_def client_call_def same_token_def)
qed

text \<open>
  C30. A request of a session on the kernel of a target that the daemon no longer knows, a cell or
  the status, the restart or the interrupt of the kernel: the session registers the target again and
  repeats the request, once, and the caller sees the outcome that the repetition has with a daemon
  that knows the target. Status, restart and interrupt are answered with a result then; a cell is
  accepted, or refused because another one is running or because it is too long.
\<close>

theorem session_recovers:
  assumes session: "se_client se = Some client" "target_is_valid (se_target se)" "se_cwd se \<noteq> []"
    and daemon: "mc_net mc = working_net w render meanwhile" "same_token client app"
      "serialises (w_json w)"
      "\<And>e. code e = NotFound \<Longrightarrow> answered (mc_wire mc) render (Inl e)"
      "results_answered (mc_wire mc) render (w_json w)"
    and request: "carried (mc_wire mc) (w_json w) meth params" "starts_with ''kernel.'' meth"
      "request_parse (w_json w) meth (Some params) = Inr request" "kernel_request (se_target se) request"
    and registration: "register_request se = reg" "carried (mc_wire mc) (w_json w) ''target.register'' (register_params_value reg)"
      "request_parse (w_json w) ''target.register'' (Some (register_params_value reg)) = Inr (TargetRegister reg)"
    and forgotten: "record_of (core_registry (app_core app)) (se_target se) = None"
      "length (targets (core_registry (app_core app))) < REGISTERED_TARGETS"
  shows "\<exists>app' r app''.
    record_of (core_registry (app_core app')) (se_target se) \<noteq> None \<and>
    call_with_timeout (mc_wire mc) (mc_net mc) client decode meth (Inr params) timeout app' = (r, app'') \<and>
    session_call mc decode meth params timeout (se, app) = Some (r, se, app'') \<and>
    (case fst (rpc_dispatch w request (app_touch w app')) of
       Done (Inr v) \<Rightarrow> r = client_outcome decode (Inr v)
     | Done (Inl e) \<Rightarrow> (\<exists>p. request = KernelExecute p \<and> (code e = Busy \<or> CELL_CODE < length (ex_code p)))
     | Awaits i \<Rightarrow> (\<exists>p. request = KernelExecute p))"
proof -
  let ?t = "se_target se" and ?touch = "app_touch w"
  have reg: "reg_target reg = ?t" "reg_cwd reg = se_cwd se"
    using registration(1) by (auto simp: register_request_def)
  obtain e where e: "code e = NotFound" "rpc_dispatch w request (?touch app) = (Done (Inl e), ?touch app)"
    using kernel_request_unregistered [OF request(4) session(2), of "?touch app" w] forgotten by auto
  have first: "call_with_timeout (mc_wire mc) (mc_net mc) client decode meth (Inr params) timeout app =
      (Inl (Rpc_Failed e), ?touch app)"
    unfolding daemon(1) using working_done [OF request(1) daemon(4) [OF e(1)] daemon(2) request(3) e(2)]
    by (simp add: client_outcome_def)
  obtain app' where app': "session_register mc client (se, ?touch app) = Some (Inr (), se, app')"
      "record_of (core_registry (app_core app')) ?t \<noteq> None" "same_token client app'"
    using registers_again [OF daemon(1) _ registration(1) _ _ registration(2,3) _ daemon(3,5), of client "?touch app"]
      daemon(2) reg session(2,3) forgotten(2) by auto
  obtain r app'' where third: "call_with_timeout (mc_wire mc) (mc_net mc) client decode meth (Inr params) timeout app' =
      (r, app'')" by fastforce
  have call: "session_call mc decode meth params timeout (se, app) = Some (r, se, app'')"
    using first app'(1) third session(1) e(1) request(2) by (simp add: session_call_def session_client_def)
  have known: "record_of (core_registry (app_core (?touch app'))) ?t \<noteq> None" using app'(2) by simp
  show ?thesis
  proof (cases "request \<in> set (kernel_requests ?t)")
    case True
    then obtain x v app3 where k: "j_to_value (w_json w) x = Inr v"
        "rpc_dispatch w request (?touch app') = (Done (Inr v), app3)"
      using kernel_request_registered [OF True session(2) known daemon(3)] by blast
    have "answered (mc_wire mc) render (Inr v)" using daemon(5) k(1) unfolding results_answered_def by blast
    from working_done [OF request(1) this app'(3) request(3) k(2), where decode = decode and timeout = timeout]
    have "r = client_outcome decode (Inr v)" using third by (simp add: daemon(1))
    then show ?thesis using app'(2) third call k(2) by auto
  next
    case False
    then obtain p where p: "request = KernelExecute p" "ex_target p = ?t"
      using request(4) by (auto simp: kernel_request_def)
    then show ?thesis
      using execute_registered [of p "?touch app'" w] session(2) known app'(2) third call by auto
  qed
qed

section \<open>Witness\<close>

theorem session_recovers_witness:
  "\<exists>v app'. session_call (demo_mcp (working_net mcp_world mcp_render (\<lambda>_. [])) (\<lambda>_. 0) (\<lambda>_ s. s)) Inr ''kernel.status''
     status_params 30000 (mcp_session, mcp_app) = Some (Inr v, mcp_session, app')"
proof -
  let ?mc = "demo_mcp (working_net mcp_world mcp_render (\<lambda>_. [])) (\<lambda>_. 0) (\<lambda>_ s. s)"
  let ?client = "\<lparr>cl_base_url = ''u'', cl_token = None\<rparr>" and ?status = "KernelStatus mcp_target"
  have t: "se_target mcp_session = mcp_target" by (simp add: mcp_session_def)
  have "\<exists>app' r app''.
    record_of (core_registry (app_core app')) (se_target mcp_session) \<noteq> None \<and>
    call_with_timeout (mc_wire ?mc) (mc_net ?mc) ?client Inr ''kernel.status'' (Inr status_params) 30000 app' = (r, app'') \<and>
    session_call ?mc Inr ''kernel.status'' status_params 30000 (mcp_session, mcp_app) = Some (r, mcp_session, app'') \<and>
    (case fst (rpc_dispatch mcp_world ?status (app_touch mcp_world app')) of
       Done (Inr v) \<Rightarrow> r = client_outcome Inr (Inr v)
     | Done (Inl e) \<Rightarrow> (\<exists>p. ?status = KernelExecute p \<and> (code e = Busy \<or> CELL_CODE < length (ex_code p)))
     | Awaits i \<Rightarrow> (\<exists>p. ?status = KernelExecute p))"
    by (rule session_recovers [where reg = "register_request mcp_session" and render = mcp_render and
          meanwhile = "\<lambda>_. []"])
      (simp_all add: mcp_session_def mcp_target_def demo_mcp_def mcp_world_def mcp_json_def mcp_app_def
        same_token_def options_new_def carried_def answered_def reply_def mcp_render_def RPC_BODY_def
        request_parse_def parse_params_def status_params_def session_target_def json_is_null_def json_object_def
        kernel_request_def kernel_requests_def target_is_valid_def char_count_def TARGET_ID_def core_default_def
        registry_default_def record_of_def REGISTERED_TARGETS_def register_params_value_def starts_with_def
        serialises_def results_answered_def)
  then obtain app' r app'' where
      call: "session_call ?mc Inr ''kernel.status'' status_params 30000 (mcp_session, mcp_app) = Some (r, mcp_session, app'')" and
      cases: "case fst (rpc_dispatch mcp_world ?status (app_touch mcp_world app')) of
        Done (Inr v) \<Rightarrow> r = client_outcome Inr (Inr v)
      | Done (Inl e) \<Rightarrow> (\<exists>p. ?status = KernelExecute p \<and> (code e = Busy \<or> CELL_CODE < length (ex_code p)))
      | Awaits i \<Rightarrow> (\<exists>p. ?status = KernelExecute p)" by blast
  have "\<exists>v. r = Inr v" using cases by (simp add: client_outcome_def split: outcome.splits sum.splits)
  with call show ?thesis by blast
qed

end
